(* ===== verification/Rust_Prelude.thy ===== *)
theory Rust_Prelude
  imports Main "HOL-Library.Word" "HOL-Library.Sublist"
begin

unbundle bit_operations_syntax

text \<open>
  The part of the Rust language and of \<open>core\<close>/\<open>std\<close> the crate relies on: results with an
  explicit panic outcome, the question mark operator, checked and plain arithmetic, slices.
  The type \<open>usize\<close> is a \<^typ>\<open>nat\<close> whose bound is written out (a 64-bit target); the
  fixed-width integers are words. Plain arithmetic (\<open>+\<close>, \<open>*\<close>) panics on overflow when
  the build has its debug checks and wraps around otherwise, so every definition that
  uses it takes that build flag.
\<close>

section \<open>Types\<close>

type_synonym u8 = "8 word"
type_synonym u16 = "16 word"
type_synonym u32 = "32 word"
type_synonym bytes = "u8 list"
type_synonym usize = nat

named_theorems crate_law \<open>what the third-party crates document, as conditional rewrite rules\<close>
named_theorems emit_intro \<open>composition rules for the byte output of a writer\<close>
named_theorems parse_simp \<open>characteristic equations of the parsers on encoded input\<close>

section \<open>Results, panics and the question mark operator\<close>

text \<open>
  A Rust function that returns \<open>Result<T, E>\<close> either returns \<open>Ok\<close>, returns \<open>Err\<close> or
  panics (a failed \<open>expect\<close>, a failed \<open>debug_assert!\<close>, an arithmetic overflow in a
  debug build).
\<close>

datatype ('a, 'e) result = Ok 'a | Err 'e | Panic

primrec and_then :: "('a, 'e) result \<Rightarrow> ('a \<Rightarrow> ('b, 'e) result) \<Rightarrow> ('b, 'e) result" where
  "and_then (Ok x) f = f x"
| "and_then (Err e) f = Err e"
| "and_then Panic f = Panic"

primrec map_err :: "('e \<Rightarrow> 'f) \<Rightarrow> ('a, 'e) result \<Rightarrow> ('a, 'f) result" where
  "map_err g (Ok x) = Ok x"
| "map_err g (Err e) = Err (g e)"
| "map_err g Panic = Panic"

primrec ok_or :: "'e \<Rightarrow> 'a option \<Rightarrow> ('a, 'e) result" where
  "ok_or e None = Err e"
| "ok_or e (Some x) = Ok x"

primrec expect :: "'a option \<Rightarrow> ('a, 'e) result" where
  "expect None = Panic"
| "expect (Some x) = Ok x"

definition debug_assert :: "bool \<Rightarrow> bool \<Rightarrow> ('a, 'e) result \<Rightarrow> ('a, 'e) result" where
  "debug_assert dbg c k = (if dbg \<and> \<not> c then Panic else k)"

lemma debug_assert_True [simp]: "debug_assert dbg True k = k"
  by (simp add: debug_assert_def)

lemma debug_assert_off [simp]: "debug_assert False c k = k"
  by (simp add: debug_assert_def)

lemma debug_assert_Ok_iff [simp]:
  "debug_assert dbg c k = Ok x \<longleftrightarrow> (dbg \<longrightarrow> c) \<and> k = Ok x"
  by (simp add: debug_assert_def)

lemma and_then_Ok_iff [simp]: "and_then m f = Ok y \<longleftrightarrow> (\<exists>x. m = Ok x \<and> f x = Ok y)"
  by (cases m) auto

lemma Ok_and_then_iff [simp]: "Ok y = and_then m f \<longleftrightarrow> (\<exists>x. m = Ok x \<and> f x = Ok y)"
  by (cases m) auto

lemma and_then_Panic_iff:
  "and_then m f = Panic \<longleftrightarrow> m = Panic \<or> (\<exists>x. m = Ok x \<and> f x = Panic)"
  by (cases m) auto

lemma and_then_Err_iff:
  "and_then m f = Err e \<longleftrightarrow> m = Err e \<or> (\<exists>x. m = Ok x \<and> f x = Err e)"
  by (cases m) auto

lemma and_then_assoc: "and_then (and_then m f) g = and_then m (\<lambda>x. and_then (f x) g)"
  by (cases m) auto

lemma and_then_debug_assert:
  "and_then (debug_assert dbg c k) f = debug_assert dbg c (and_then k f)"
  by (simp add: debug_assert_def)

lemma ok_or_Ok_iff [simp]: "ok_or e m = Ok x \<longleftrightarrow> m = Some x"
  by (cases m) auto

lemma ok_or_Err_iff: "ok_or e m = Err f \<longleftrightarrow> m = None \<and> f = e"
  by (cases m) auto

lemma ok_or_not_Panic [simp]: "ok_or e m \<noteq> Panic"
  by (cases m) auto

lemma map_err_Ok_iff [simp]: "map_err g m = Ok x \<longleftrightarrow> m = Ok x"
  by (cases m) auto

lemma map_err_Panic_iff [simp]: "map_err g m = Panic \<longleftrightarrow> m = Panic"
  by (cases m) auto

lemma map_err_Err_iff: "map_err g m = Err f \<longleftrightarrow> (\<exists>e. m = Err e \<and> f = g e)"
  by (cases m) auto

lemma expect_Ok_iff [simp]: "expect m = Ok x \<longleftrightarrow> m = Some x"
  by (cases m) auto

lemma expect_Panic_iff [simp]: "expect m = Panic \<longleftrightarrow> m = None"
  by (cases m) auto

section \<open>Integers\<close>

definition usize_max :: nat where
  "usize_max = 18446744073709551615"

definition checked_add :: "usize \<Rightarrow> usize \<Rightarrow> usize option" where
  "checked_add a b = (if a + b \<le> usize_max then Some (a + b) else None)"

definition checked_sub :: "usize \<Rightarrow> usize \<Rightarrow> usize option" where
  "checked_sub a b = (if b \<le> a then Some (a - b) else None)"

definition usize_add :: "bool \<Rightarrow> usize \<Rightarrow> usize \<Rightarrow> (usize, 'e) result" where
  "usize_add dbg a b =
     (if a + b \<le> usize_max then Ok (a + b)
      else if dbg then Panic else Ok ((a + b) mod (usize_max + 1)))"

definition usize_sub :: "bool \<Rightarrow> usize \<Rightarrow> usize \<Rightarrow> (usize, 'e) result" where
  "usize_sub dbg a b =
     (if b \<le> a then Ok (a - b)
      else if dbg then Panic else Ok (a + (usize_max + 1) - b))"

definition usize_mul :: "bool \<Rightarrow> usize \<Rightarrow> usize \<Rightarrow> (usize, 'e) result" where
  "usize_mul dbg a b =
     (if a * b \<le> usize_max then Ok (a * b)
      else if dbg then Panic else Ok ((a * b) mod (usize_max + 1)))"

definition word_add :: "bool \<Rightarrow> 'w::len word \<Rightarrow> 'w word \<Rightarrow> ('w word, 'e) result" where
  "word_add dbg a b =
     (if unat a + unat b < 2 ^ LENGTH('w) then Ok (a + b)
      else if dbg then Panic else Ok (a + b))"

definition word_mul :: "bool \<Rightarrow> 'w::len word \<Rightarrow> 'w word \<Rightarrow> ('w word, 'e) result" where
  "word_mul dbg a b =
     (if unat a * unat b < 2 ^ LENGTH('w) then Ok (a * b)
      else if dbg then Panic else Ok (a * b))"

lemma checked_add_eq: "a + b \<le> usize_max \<Longrightarrow> checked_add a b = Some (a + b)"
  by (simp add: checked_add_def)

lemma checked_add_Some_iff: "checked_add a b = Some c \<longleftrightarrow> a + b \<le> usize_max \<and> c = a + b"
  by (auto simp: checked_add_def)

lemma usize_add_eq: "a + b \<le> usize_max \<Longrightarrow> usize_add dbg a b = Ok (a + b)"
  by (simp add: usize_add_def)

lemma usize_sub_eq: "b \<le> a \<Longrightarrow> usize_sub dbg a b = Ok (a - b)"
  by (simp add: usize_sub_def)

lemma usize_mul_eq: "a * b \<le> usize_max \<Longrightarrow> usize_mul dbg a b = Ok (a * b)"
  by (simp add: usize_mul_def)

section \<open>Slices\<close>

definition split_at_checked :: "nat \<Rightarrow> 'a list \<Rightarrow> ('a list \<times> 'a list) option" where
  "split_at_checked n xs = (if n \<le> length xs then Some (take n xs, drop n xs) else None)"

definition slice_from :: "nat \<Rightarrow> 'a list \<Rightarrow> 'a list option" where
  "slice_from n xs = (if n \<le> length xs then Some (drop n xs) else None)"

definition slice_upto :: "nat \<Rightarrow> 'a list \<Rightarrow> 'a list option" where
  "slice_upto n xs = (if n \<le> length xs then Some (take n xs) else None)"

definition slice_get :: "nat \<Rightarrow> 'a list \<Rightarrow> 'a option" where
  "slice_get n xs = (if n < length xs then Some (xs ! n) else None)"

lemma split_at_checked_append [simp]:
  "n = length xs \<Longrightarrow> split_at_checked n (xs @ ys) = Some (xs, ys)"
  by (simp add: split_at_checked_def)

lemma split_at_checked_Some:
  "split_at_checked n xs = Some (a, b) \<longleftrightarrow> xs = a @ b \<and> length a = n"
  by (auto simp: split_at_checked_def)

section \<open>Bytes\<close>

text \<open>A statement about every byte is decided by its 256 instances.\<close>

lemma all_u8: "(\<forall>b::u8. P b) \<longleftrightarrow> list_all (\<lambda>n. P (word_of_nat n)) [0..<256]"
proof
  assume "list_all (\<lambda>n. P (word_of_nat n)) [0..<256]"
  then have all: "P (word_of_nat n)" if "n < 256" for n
    using that by (simp add: list_all_iff)
  show "\<forall>b::u8. P b"
  proof
    fix b :: u8
    have "unat b < 256" using unsigned_less [where w = b and ?'a = nat] by simp
    from all [OF this] show "P b" by simp
  qed
qed (simp add: list_all_iff)

lemma unat_u8_bound [simp]: "unat (b::u8) < 256"
  using unsigned_less [where w = b and ?'a = nat] by simp

lemma unat_u16_bound [simp]: "unat (h::u16) < 65536"
  using unsigned_less [where w = h and ?'a = nat] by simp

lemma unat_low7: "unat ((b::u8) AND 127) = unat b mod 128"
proof -
  have "b AND 127 = take_bit 7 b"
    by (simp add: take_bit_eq_mask mask_eq_exp_minus_1)
  then show ?thesis by (simp only: unsigned_take_bit_eq) (simp add: take_bit_eq_mod)
qed

lemma append_prefix_trans: "prefix a b \<Longrightarrow> prefix (xs @ a) (xs @ b)"
  by (simp add: prefix_def)

section \<open>String literals\<close>

text \<open>The bytes of a literal of the source; only ASCII literals are written this way.\<close>

definition str_literal :: "string \<Rightarrow> bytes" where
  "str_literal s = map of_char s"

lemma length_str_literal [simp]: "length (str_literal s) = length s"
  by (simp add: str_literal_def)

end
