(* ===== verification/Slab.thy ===== *)
theory Slab
  imports Rust_Prelude
begin

text \<open>
  The slab of \<open>src/slab.rs\<close>, the store for packets that wait for an acknowledgement. A
  \<open>Vec\<close> is its elements and its capacity; how much the allocator really reserves is up to it,
  so the capacity after growing is the parameter \<open>alloc\<close> (the old capacity and the capacity
  that is needed), of which the standard library promises \<open>alloc_ok\<close>. An operation returns its
  value and the new slab; a failed \<open>debug_assert!\<close> is \<open>Panic\<close>.
\<close>

section \<open>Entries\<close>

datatype 'a Entry = Free "u16 option" | Occupied 'a

definition Entry_is_free :: "'a Entry \<Rightarrow> bool" where
  "Entry_is_free this = (case this of Free _ \<Rightarrow> True | Occupied _ \<Rightarrow> False)"

definition Entry_store :: "bool \<Rightarrow> 'a \<Rightarrow> 'a Entry \<Rightarrow> (u16 option \<times> 'a Entry, 'e) result" where
  "Entry_store dbg value this =
     debug_assert dbg (Entry_is_free this)
       (Ok (case this of Free nf \<Rightarrow> nf | Occupied _ \<Rightarrow> None, Occupied value))"

definition Entry_as_occupied :: "'a Entry \<Rightarrow> 'a option" where
  "Entry_as_occupied this = (case this of Occupied v \<Rightarrow> Some v | Free _ \<Rightarrow> None)"

section \<open>The slab\<close>

record 'a Slab =
  max_items :: u16
  next_free :: "u16 option"
  store :: "'a Entry list"
  store_capacity :: nat

type_synonym alloc = "nat \<Rightarrow> nat \<Rightarrow> nat"

definition alloc_ok :: "alloc \<Rightarrow> bool" where
  "alloc_ok alloc \<longleftrightarrow> (\<forall>cap n. n \<le> alloc cap n)"

definition Slab_new :: "u16 \<Rightarrow> 'a Slab" where
  "Slab_new n = \<lparr>max_items = n, next_free = None, store = [], store_capacity = 0\<rparr>"

definition vec_reserve_exact :: "alloc \<Rightarrow> nat \<Rightarrow> 'a Slab \<Rightarrow> 'a Slab" where
  "vec_reserve_exact alloc additional this =
     (if length (store this) + additional \<le> store_capacity this then this
      else this\<lparr>store_capacity := alloc (store_capacity this) (length (store this) + additional)\<rparr>)"

definition vec_push :: "alloc \<Rightarrow> 'a Entry \<Rightarrow> 'a Slab \<Rightarrow> 'a Slab" where
  "vec_push alloc e this =
     (let this = (if length (store this) = store_capacity this
                  then this\<lparr>store_capacity := alloc (store_capacity this) (length (store this) + 1)\<rparr>
                  else this)
      in this\<lparr>store := store this @ [e]\<rparr>)"

definition Slab_reserve_next :: "bool \<Rightarrow> alloc \<Rightarrow> 'a Slab \<Rightarrow> (u16 option, 'e) result \<times> 'a Slab" where
  "Slab_reserve_next dbg alloc this =
     (case next_free this of
        Some nf \<Rightarrow> (Ok (Some nf), this)
      | None \<Rightarrow>
          let len = length (store this);
              idx = (if len < 2 ^ 16 then Some (word_of_nat len :: u16) else None)
          in if dbg \<and> idx = None then (Panic, this)
             else case idx of
                None \<Rightarrow> (Ok None, this)
              | Some idx \<Rightarrow>
                  if max_items this \<le> idx then (Ok None, this)
                  else
                    let this =
                      (if store_capacity this = length (store this)
                       then let additional =
                              min (min (store_capacity this * 2) usize_max) (unat (max_items this))
                                - length (store this)
                            in vec_reserve_exact alloc additional this
                       else this)
                    in (Ok (Some idx), vec_push alloc (Free None) this))"

definition Slab_insert ::
    "bool \<Rightarrow> alloc \<Rightarrow> (u16 \<Rightarrow> 'a \<times> 'o) \<Rightarrow> 'a Slab \<Rightarrow> ('o option, 'e) result \<times> 'a Slab" where
  "Slab_insert dbg alloc f this =
     (case Slab_reserve_next dbg alloc this of
        (Ok (Some idx), this) \<Rightarrow>
          let (value, out) = f idx in
          (case slice_get (unat idx) (store this) of
             None \<Rightarrow> (Ok None, this)
           | Some entry \<Rightarrow>
               (case Entry_store dbg value entry of
                  Ok (nf, entry') \<Rightarrow>
                    (Ok (Some out), this\<lparr>store := (store this)[unat idx := entry'], next_free := nf\<rparr>)
                | Err e \<Rightarrow> (Err e, this)
                | Panic \<Rightarrow> (Panic, this)))
      | (r, this) \<Rightarrow> (and_then r (\<lambda>_. Ok None), this))"

definition Slab_try_insert ::
    "bool \<Rightarrow> alloc \<Rightarrow> (u16 \<Rightarrow> ('a \<times> 'o, 'e) result) \<Rightarrow> 'a Slab \<Rightarrow> ('o option, 'e) result \<times> 'a Slab" where
  "Slab_try_insert dbg alloc f this =
     (case Slab_reserve_next dbg alloc this of
        (Ok (Some idx), this) \<Rightarrow>
          (case f idx of
             Ok (value, out) \<Rightarrow>
               (case slice_get (unat idx) (store this) of
                  None \<Rightarrow> (Ok None, this)
                | Some entry \<Rightarrow>
                    (case Entry_store dbg value entry of
                       Ok (nf, entry') \<Rightarrow>
                         (Ok (Some out), this\<lparr>store := (store this)[unat idx := entry'], next_free := nf\<rparr>)
                     | Err e \<Rightarrow> (Err e, this)
                     | Panic \<Rightarrow> (Panic, this)))
           | Err e \<Rightarrow> (Err e, this)
           | Panic \<Rightarrow> (Panic, this))
      | (r, this) \<Rightarrow> (and_then r (\<lambda>_. Ok None), this))"

definition Slab_remove :: "u16 \<Rightarrow> 'a Slab \<Rightarrow> 'a option \<times> 'a Slab" where
  "Slab_remove idx this =
     (case slice_get (unat idx) (store this) of
        None \<Rightarrow> (None, this)
      | Some prev \<Rightarrow>
          let replaced = this\<lparr>store := (store this)[unat idx := Free (next_free this)]\<rparr> in
          (case prev of
             Free _ \<Rightarrow> (None, replaced\<lparr>store := (store replaced)[unat idx := prev]\<rparr>)
           | Occupied value \<Rightarrow> (Some value, replaced)))"

definition Slab_get :: "u16 \<Rightarrow> 'a Slab \<Rightarrow> 'a option" where
  "Slab_get idx this = Option.bind (slice_get (unat idx) (store this)) Entry_as_occupied"

text \<open>A mutable reference is the value it refers to and the effect of assigning through it.\<close>

definition Slab_get_mut :: "u16 \<Rightarrow> 'a Slab \<Rightarrow> ('a \<times> ('a \<Rightarrow> 'a Slab)) option" where
  "Slab_get_mut idx this =
     Option.bind (slice_get (unat idx) (store this)) (\<lambda>entry.
     map_option (\<lambda>v. (v, \<lambda>v'. this\<lparr>store := (store this)[unat idx := Occupied v']\<rparr>))
       (Entry_as_occupied entry))"

section \<open>The invariant\<close>

text \<open>
  The store never outgrows the maximum, which an index can represent; no slot is ever linked
  into the free list, neither from the head nor from a free entry.
\<close>

definition slab_inv :: "'a Slab \<Rightarrow> bool" where
  "slab_inv s \<longleftrightarrow>
     length (store s) \<le> unat (max_items s) \<and> length (store s) \<le> store_capacity s \<and>
     next_free s = None \<and> (\<forall>e \<in> set (store s). case e of Free nf \<Rightarrow> nf = None | Occupied _ \<Rightarrow> True)"

lemma slab_inv_new: "slab_inv (Slab_new n)"
  by (simp add: slab_inv_def Slab_new_def)

lemma slab_inv_bound:
  assumes "slab_inv s"
  shows "length (store s) < 2 ^ 16"
proof -
  from assms have "length (store s) \<le> unat (max_items s)" by (simp add: slab_inv_def)
  also have "\<dots> < 65536" by (rule unat_u16_bound)
  finally show ?thesis by simp
qed

lemma reserve_next_full:
  assumes "slab_inv s" "length (store s) = unat (max_items s)"
  shows "Slab_reserve_next dbg alloc s = (Ok None, s)"
proof -
  have "max_items s \<le> word_of_nat (length (store s))"
    using assms(2) by simp
  with assms(1) slab_inv_bound [OF assms(1)] show ?thesis
    by (simp add: Slab_reserve_next_def slab_inv_def Let_def)
qed

lemma vec_push_grows:
  assumes "alloc_ok alloc" "length (store t) \<le> store_capacity t"
  shows "\<exists>cap. vec_push alloc e t = t\<lparr>store := store t @ [e], store_capacity := cap\<rparr> \<and>
    length (store t) + 1 \<le> cap"
proof (cases "length (store t) = store_capacity t")
  case True
  moreover have "length (store t) + 1 \<le> alloc (store_capacity t) (length (store t) + 1)"
    using assms(1) unfolding alloc_ok_def by blast
  ultimately show ?thesis
    by (intro exI [of _ "alloc (store_capacity t) (length (store t) + 1)"]) (simp add: vec_push_def Let_def)
next
  case False
  with assms(2) show ?thesis
    by (intro exI [of _ "store_capacity t"]) (simp add: vec_push_def)
qed

lemma vec_reserve_exact_grows:
  assumes "alloc_ok alloc" "length (store t) \<le> store_capacity t"
  shows "\<exists>cap. vec_reserve_exact alloc n t = t\<lparr>store_capacity := cap\<rparr> \<and> length (store t) \<le> cap"
proof (cases "length (store t) + n \<le> store_capacity t")
  case True
  with assms(2) show ?thesis by (intro exI [of _ "store_capacity t"]) (simp add: vec_reserve_exact_def)
next
  case False
  moreover have "length (store t) + n \<le> alloc (store_capacity t) (length (store t) + n)"
    using assms(1) unfolding alloc_ok_def by blast
  ultimately show ?thesis by (auto simp: vec_reserve_exact_def)
qed

lemma reserve_next_push:
  assumes "alloc_ok alloc" "slab_inv s" "length (store s) < unat (max_items s)"
  shows "\<exists>cap. Slab_reserve_next dbg alloc s =
      (Ok (Some (word_of_nat (length (store s)))),
       s\<lparr>store := store s @ [Free None], store_capacity := cap\<rparr>) \<and> length (store s) + 1 \<le> cap"
proof -
  let ?n = "length (store s)"
  have n: "?n < 2 ^ 16" by (rule slab_inv_bound [OF assms(2)])
  let ?m = "min (min (store_capacity s * 2) usize_max) (unat (max_items s)) - ?n"
  let ?t = "if store_capacity s = ?n then vec_reserve_exact alloc ?m s else s"
  have "\<not> max_items s \<le> (word_of_nat ?n :: u16)"
    using assms(3) n by (simp add: word_le_nat_alt unat_of_nat)
  with n assms(2) have step: "Slab_reserve_next dbg alloc s =
      (Ok (Some (word_of_nat ?n)), vec_push alloc (Free None) ?t)"
    by (simp add: Slab_reserve_next_def slab_inv_def Let_def)
  have "?n \<le> store_capacity s" using assms(2) by (simp add: slab_inv_def)
  then obtain c where t: "?t = s\<lparr>store_capacity := c\<rparr>" "?n \<le> c"
    using vec_reserve_exact_grows [OF assms(1), of s ?m] by (cases "store_capacity s = ?n") force+
  from vec_push_grows [OF assms(1), of ?t "Free None"] t show ?thesis
    unfolding step t(1) by auto
qed

section \<open>What the operations do\<close>

lemma Slab_get_store: "Slab_get idx s = (if unat idx < length (store s) then Entry_as_occupied (store s ! unat idx) else None)"
  by (simp add: Slab_get_def slice_get_def)

lemma Slab_insert_full:
  assumes "slab_inv s" "length (store s) = unat (max_items s)"
  shows "(Slab_insert dbg alloc f s :: ('o option, 'e) result \<times> 'a Slab) = (Ok None, s)"
  by (simp add: Slab_insert_def reserve_next_full [OF assms])

lemma Slab_insert_push:
  fixes f :: "u16 \<Rightarrow> 'a \<times> 'o"
  assumes "alloc_ok alloc" "slab_inv s" "length (store s) < unat (max_items s)"
  shows "\<exists>cap. (Slab_insert dbg alloc f s :: ('o option, 'e) result \<times> 'a Slab) =
      (Ok (Some (snd (f (word_of_nat (length (store s)))))),
       s\<lparr>store := store s @ [Occupied (fst (f (word_of_nat (length (store s)))))], store_capacity := cap\<rparr>) \<and>
      length (store s) + 1 \<le> cap"
proof -
  let ?n = "length (store s)" and ?i = "word_of_nat (length (store s)) :: u16"
  obtain cap where r: "(Slab_reserve_next dbg alloc s :: (u16 option, 'e) result \<times> 'a Slab) =
      (Ok (Some ?i), s\<lparr>store := store s @ [Free None], store_capacity := cap\<rparr>)" "?n + 1 \<le> cap"
    using reserve_next_push [OF assms] by blast
  have "unat ?i = ?n" using slab_inv_bound [OF assms(2)] by (simp add: unat_of_nat)
  moreover have "next_free s = None" using assms(2) by (simp add: slab_inv_def)
  ultimately show ?thesis
    using r(2) by (intro exI [of _ cap]) (cases "f ?i", simp add: Slab_insert_def r(1) slice_get_def
        Entry_store_def Entry_is_free_def)
qed

lemma Slab_try_insert_full:
  assumes "slab_inv s" "length (store s) = unat (max_items s)"
  shows "Slab_try_insert dbg alloc f s = (Ok None, s)"
  by (simp add: Slab_try_insert_def reserve_next_full [OF assms])

lemma Slab_try_insert_push:
  fixes f :: "u16 \<Rightarrow> ('a \<times> 'o, 'e) result"
  assumes "alloc_ok alloc" "slab_inv s" "length (store s) < unat (max_items s)"
  shows "\<exists>cap. length (store s) + 1 \<le> cap \<and> Slab_try_insert dbg alloc f s =
      (case f (word_of_nat (length (store s))) of
         Ok (v, out) \<Rightarrow> (Ok (Some out), s\<lparr>store := store s @ [Occupied v], store_capacity := cap\<rparr>)
       | Err e \<Rightarrow> (Err e, s\<lparr>store := store s @ [Free None], store_capacity := cap\<rparr>)
       | Panic \<Rightarrow> (Panic, s\<lparr>store := store s @ [Free None], store_capacity := cap\<rparr>))"
proof -
  let ?n = "length (store s)" and ?i = "word_of_nat (length (store s)) :: u16"
  obtain cap where r: "(Slab_reserve_next dbg alloc s :: (u16 option, 'e) result \<times> 'a Slab) =
      (Ok (Some ?i), s\<lparr>store := store s @ [Free None], store_capacity := cap\<rparr>)" "?n + 1 \<le> cap"
    using reserve_next_push [OF assms] by blast
  have "unat ?i = ?n" using slab_inv_bound [OF assms(2)] by (simp add: unat_of_nat)
  moreover have "next_free s = None" using assms(2) by (simp add: slab_inv_def)
  ultimately show ?thesis
    using r(2) by (intro exI [of _ cap])
      (auto simp: Slab_try_insert_def r(1) slice_get_def Entry_store_def Entry_is_free_def
        split: result.split)
qed

lemma Slab_remove_cases:
  "Slab_remove idx s =
     (Slab_get idx s,
      if Slab_get idx s = None then s
      else s\<lparr>store := (store s)[unat idx := Free (next_free s)]\<rparr>)"
  by (cases s) (auto simp: Slab_remove_def Slab_get_def slice_get_def Entry_as_occupied_def Let_def
      list_update_same_conv split: Entry.split option.split)

section \<open>Refinement of a bounded map\<close>

text \<open>
  The specification: a partial map, the number of indices handed out so far, and the limit.
  Indices are handed out in order and never a second time.
\<close>

record 'a slots =
  limit :: nat
  issued :: nat
  contents :: "u16 \<Rightarrow> 'a option"

definition slots_insert :: "(u16 \<Rightarrow> 'a \<times> 'o) \<Rightarrow> 'a slots \<Rightarrow> ('o option, 'e) result \<times> 'a slots" where
  "slots_insert f m =
     (if issued m < limit m
      then let i = word_of_nat (issued m) in
        (Ok (Some (snd (f i))),
         m\<lparr>issued := issued m + 1, contents := (contents m)(i \<mapsto> fst (f i))\<rparr>)
      else (Ok None, m))"

definition slots_try_insert ::
    "(u16 \<Rightarrow> ('a \<times> 'o, 'e) result) \<Rightarrow> 'a slots \<Rightarrow> ('o option, 'e) result \<times> 'a slots" where
  "slots_try_insert f m =
     (if issued m < limit m
      then let i = word_of_nat (issued m) in
        (case f i of
           Ok (v, out) \<Rightarrow> (Ok (Some out), m\<lparr>issued := issued m + 1, contents := (contents m)(i \<mapsto> v)\<rparr>)
         | Err e \<Rightarrow> (Err e, m\<lparr>issued := issued m + 1\<rparr>)
         | Panic \<Rightarrow> (Panic, m\<lparr>issued := issued m + 1\<rparr>))
      else (Ok None, m))"

definition slots_remove :: "u16 \<Rightarrow> 'a slots \<Rightarrow> 'a option \<times> 'a slots" where
  "slots_remove i m = (contents m i, m\<lparr>contents := (contents m)(i := None)\<rparr>)"

definition slab_abs :: "'a Slab \<Rightarrow> 'a slots" where
  "slab_abs s =
     \<lparr>limit = unat (max_items s), issued = length (store s), contents = (\<lambda>i. Slab_get i s)\<rparr>"

lemma get_append:
  assumes "length (store s) < 2 ^ 16"
  shows "(\<lambda>i. Slab_get i (s\<lparr>store := store s @ [e], store_capacity := c\<rparr>)) =
    (\<lambda>i. Slab_get i s)(word_of_nat (length (store s)) := Entry_as_occupied e)"
proof
  fix i :: u16
  let ?n = "word_of_nat (length (store s)) :: u16"
  have "unat ?n = length (store s)" using assms by (simp add: unat_of_nat)
  moreover from this have "i = ?n \<longleftrightarrow> unat i = length (store s)" by (simp add: word_unat_eq_iff)
  ultimately show "Slab_get i (s\<lparr>store := store s @ [e], store_capacity := c\<rparr>) =
      ((\<lambda>i. Slab_get i s)(?n := Entry_as_occupied e)) i"
    by (auto simp: Slab_get_store nth_append)
qed

lemma get_fresh:
  "length (store s) < 2 ^ 16 \<Longrightarrow> Slab_get (word_of_nat (length (store s))) s = None"
  by (simp add: Slab_get_store unat_of_nat)

lemma slab_inv_append:
  assumes "slab_inv s" "length (store s) < unat (max_items s)" "length (store s) + 1 \<le> cap"
    and "case e of Free nf \<Rightarrow> nf = None | Occupied _ \<Rightarrow> True"
  shows "slab_inv (s\<lparr>store := store s @ [e], store_capacity := cap\<rparr>)"
  using assms by (auto simp: slab_inv_def)

lemma Slab_insert_refines:
  fixes f :: "u16 \<Rightarrow> 'a \<times> 'o"
  assumes "alloc_ok alloc" "slab_inv s"
    and r: "(Slab_insert dbg alloc f s :: ('o option, 'e) result \<times> 'a Slab) = (res, s')"
  shows "slots_insert f (slab_abs s) = (res, slab_abs s')" and "slab_inv s'"
proof -
  have n: "length (store s) < 2 ^ 16" by (rule slab_inv_bound [OF assms(2)])
  have "slots_insert f (slab_abs s) = (res, slab_abs s') \<and> slab_inv s'"
  proof (cases "length (store s) < unat (max_items s)")
    case True
    from Slab_insert_push [where 'e = 'e, OF assms(1,2) True, of dbg f] r obtain cap
      where "res = Ok (Some (snd (f (word_of_nat (length (store s))))))" "length (store s) + 1 \<le> cap"
        "s' = s\<lparr>store := store s @ [Occupied (fst (f (word_of_nat (length (store s)))))], store_capacity := cap\<rparr>"
      by auto
    with True n slab_inv_append [OF assms(2) True, of cap] show ?thesis
      by (simp add: slots_insert_def slab_abs_def Let_def get_append Entry_as_occupied_def)
  next
    case False
    with assms(2) have "length (store s) = unat (max_items s)" by (simp add: slab_inv_def)
    with Slab_insert_full [where 'e = 'e, OF assms(2) this, of dbg alloc f] r assms(2) show ?thesis
      by (auto simp: slots_insert_def slab_abs_def)
  qed
  then show "slots_insert f (slab_abs s) = (res, slab_abs s')" "slab_inv s'" by blast+
qed

lemma Slab_try_insert_refines:
  fixes f :: "u16 \<Rightarrow> ('a \<times> 'o, 'e) result"
  assumes "alloc_ok alloc" "slab_inv s" and r: "Slab_try_insert dbg alloc f s = (res, s')"
  shows "slots_try_insert f (slab_abs s) = (res, slab_abs s')" and "slab_inv s'"
proof -
  have n: "length (store s) < 2 ^ 16" by (rule slab_inv_bound [OF assms(2)])
  have fresh: "(\<lambda>i. Slab_get i s)(word_of_nat (length (store s)) := None) = (\<lambda>i. Slab_get i s)"
    using get_fresh [OF n] by (auto simp: fun_eq_iff)
  have "slots_try_insert f (slab_abs s) = (res, slab_abs s') \<and> slab_inv s'"
  proof (cases "length (store s) < unat (max_items s)")
    case True
    from Slab_try_insert_push [OF assms(1,2) True, of dbg f] obtain cap where
      cap: "length (store s) + 1 \<le> cap" "Slab_try_insert dbg alloc f s =
      (case f (word_of_nat (length (store s))) of
         Ok (v, out) \<Rightarrow> (Ok (Some out), s\<lparr>store := store s @ [Occupied v], store_capacity := cap\<rparr>)
       | Err e \<Rightarrow> (Err e, s\<lparr>store := store s @ [Free None], store_capacity := cap\<rparr>)
       | Panic \<Rightarrow> (Panic, s\<lparr>store := store s @ [Free None], store_capacity := cap\<rparr>))" by blast
    from True n slab_inv_append [OF assms(2) True cap(1)] r show ?thesis
      unfolding cap(2)
      by (cases "f (word_of_nat (length (store s)))")
        (auto simp: slots_try_insert_def slab_abs_def Let_def get_append Entry_as_occupied_def fresh)
  next
    case False
    with assms(2) have "length (store s) = unat (max_items s)" by (simp add: slab_inv_def)
    with Slab_try_insert_full [OF assms(2) this, of dbg alloc f] r assms(2) show ?thesis
      by (auto simp: slots_try_insert_def slab_abs_def)
  qed
  then show "slots_try_insert f (slab_abs s) = (res, slab_abs s')" "slab_inv s'" by blast+
qed

lemma Slab_remove_refines:
  assumes "slab_inv s" "Slab_remove idx s = (res, s')"
  shows "slots_remove idx (slab_abs s) = (res, slab_abs s')" and "slab_inv s'"
    and "length (store s') = length (store s)" "max_items s' = max_items s"
proof -
  have s': "res = Slab_get idx s" "s' = (if Slab_get idx s = None then s
      else s\<lparr>store := (store s)[unat idx := Free (next_free s)]\<rparr>)"
    using assms(2) by (auto simp: Slab_remove_cases)
  have get: "Slab_get i (s\<lparr>store := (store s)[unat idx := Free nf]\<rparr>) = (if i = idx then None else Slab_get i s)" for i nf
    by (cases "unat i = unat idx") (auto simp: Slab_get_store Entry_as_occupied_def word_unat_eq_iff nth_list_update)
  show "slots_remove idx (slab_abs s) = (res, slab_abs s')"
    by (auto simp: slots_remove_def slab_abs_def s' get fun_eq_iff)
  show "slab_inv s'"
    using assms(1) by (auto simp: slab_inv_def s'(2) dest!: set_update_subset_insert [THEN subsetD])
  show "length (store s') = length (store s)" "max_items s' = max_items s" by (simp_all add: s'(2))
qed

section \<open>The interface for clients\<close>

text \<open>What a user of the slab relies on: the values it looks up are the ones it stored.\<close>

locale slot_map =
  fixes inv :: "'s \<Rightarrow> bool"
    and lookup :: "u16 \<Rightarrow> 's \<Rightarrow> 'a option"
    and put :: "(u16 \<Rightarrow> 'a \<times> 'o) \<Rightarrow> 's \<Rightarrow> ('o option, 'e) result \<times> 's"
    and remove :: "u16 \<Rightarrow> 's \<Rightarrow> 'a option \<times> 's"
  assumes put_inv: "inv s \<Longrightarrow> put f s = (r, s') \<Longrightarrow> inv s'"
    and put_returns: "inv s \<Longrightarrow> put f s = (r, s') \<Longrightarrow> \<exists>ov. r = Ok ov"
    and put_Some: "inv s \<Longrightarrow> put f s = (Ok (Some out), s') \<Longrightarrow>
      \<exists>i. lookup i s = None \<and> out = snd (f i) \<and>
        (\<forall>j. lookup j s' = (if j = i then Some (fst (f i)) else lookup j s))"
    and put_None: "inv s \<Longrightarrow> put f s = (Ok None, s') \<Longrightarrow> lookup j s' = lookup j s"
    and remove_spec: "inv s \<Longrightarrow> remove i s = (v, s') \<Longrightarrow>
      inv s' \<and> v = lookup i s \<and> (\<forall>j. lookup j s' = (if j = i then None else lookup j s))"
begin

lemma put_keeps:
  assumes "inv s" "put f s = (r, s')" "lookup j s = Some v"
  shows "lookup j s' = Some v"
proof -
  obtain ov where r: "r = Ok ov" using put_returns [OF assms(1,2)] by blast
  show ?thesis
  proof (cases ov)
    case None
    with r put_None [OF assms(1)] assms show ?thesis by simp
  next
    case (Some out)
    with r assms(2) put_Some [OF assms(1), of f out s'] assms(3) show ?thesis by force
  qed
qed

lemma put_remove:
  assumes "inv s" "put f s = (Ok (Some out), s')"
  shows "\<exists>i s''. out = snd (f i) \<and> remove i s' = (Some (fst (f i)), s'') \<and>
    (\<forall>j. lookup j s'' = lookup j s)"
proof -
  from put_Some [OF assms] obtain i where i: "lookup i s = None" "out = snd (f i)"
    "\<forall>j. lookup j s' = (if j = i then Some (fst (f i)) else lookup j s)" by blast
  obtain r s'' where r: "remove i s' = (r, s'')" by fastforce
  from remove_spec [OF put_inv [OF assms] r] i have "r = Some (fst (f i))" "\<forall>j. lookup j s'' = lookup j s"
    by auto
  with i r show ?thesis by blast
qed

end

lemma slab_slot_map:
  assumes "alloc_ok alloc"
  shows "slot_map slab_inv Slab_get (Slab_insert dbg alloc) Slab_remove"
proof unfold_locales
  fix s s' :: "'a Slab" and f :: "u16 \<Rightarrow> 'a \<times> 'o" and r :: "('o option, 'e) result"
  assume inv: "slab_inv s" and p: "Slab_insert dbg alloc f s = (r, s')"
  note ref = Slab_insert_refines [OF assms inv p]
  show "slab_inv s'" by (rule ref(2))
  show "\<exists>ov. r = Ok ov" using ref(1) by (auto simp: slots_insert_def Let_def split: if_splits)
next
  fix s s' :: "'a Slab" and f :: "u16 \<Rightarrow> 'a \<times> 'o" and out
  assume inv: "slab_inv s" and p: "Slab_insert dbg alloc f s = (Ok (Some out) :: ('o option, 'e) result, s')"
  have n: "length (store s) < 2 ^ 16" by (rule slab_inv_bound [OF inv])
  from Slab_insert_refines(1) [OF assms inv p] get_fresh [OF n]
  show "\<exists>i. Slab_get i s = None \<and> out = snd (f i) \<and>
      (\<forall>j. Slab_get j s' = (if j = i then Some (fst (f i)) else Slab_get j s))"
    by (intro exI [of _ "word_of_nat (length (store s))"])
      (auto simp: slots_insert_def slab_abs_def Let_def fun_eq_iff split: if_splits)
next
  fix s s' :: "'a Slab" and f :: "u16 \<Rightarrow> 'a \<times> 'o" and j
  assume inv: "slab_inv s" and p: "Slab_insert dbg alloc f s = (Ok None :: ('o option, 'e) result, s')"
  from Slab_insert_refines(1) [OF assms inv p]
  show "Slab_get j s' = Slab_get j s"
    by (auto simp: slots_insert_def slab_abs_def Let_def fun_eq_iff split: if_splits)
next
  fix s s' :: "'a Slab" and i r
  assume inv: "slab_inv s" and p: "Slab_remove i s = (r, s')"
  from Slab_remove_refines [OF inv p]
  show "slab_inv s' \<and> r = Slab_get i s \<and> (\<forall>j. Slab_get j s' = (if j = i then None else Slab_get j s))"
    by (auto simp: slots_remove_def slab_abs_def fun_eq_iff)
qed

text \<open>The standard library's amortised growth is one lawful allocator.\<close>

definition amortised :: alloc where
  "amortised cap n = max (max (cap * 2) n) 4"

lemma amortised_ok: "alloc_ok amortised"
  by (auto simp: alloc_ok_def amortised_def max_def)

interpretation slab: slot_map slab_inv Slab_get "Slab_insert dbg amortised" Slab_remove for dbg
  by (rule slab_slot_map [OF amortised_ok])

section \<open>Slots are never reused\<close>

definition Slab_remove_all :: "u16 list \<Rightarrow> 'a Slab \<Rightarrow> 'a Slab" where
  "Slab_remove_all is s = fold (\<lambda>i s. snd (Slab_remove i s)) is s"

lemma Slab_remove_all_keeps:
  assumes "slab_inv s"
  shows "slab_inv (Slab_remove_all is s) \<and> length (store (Slab_remove_all is s)) = length (store s) \<and>
    max_items (Slab_remove_all is s) = max_items s"
  using assms
proof (induction "is" arbitrary: s)
  case (Cons i "is")
  obtain r s' where r: "Slab_remove i s = (r, s')" by fastforce
  from Slab_remove_refines [OF Cons.prems r] Cons.IH [of s'] r show ?case
    by (simp add: Slab_remove_all_def)
qed (simp add: Slab_remove_all_def)

lemma Slab_remove_all_get:
  assumes "slab_inv s"
  shows "Slab_get i (Slab_remove_all is s) = (if i \<in> set is then None else Slab_get i s)"
  using assms
proof (induction "is" arbitrary: s)
  case (Cons j "is")
  obtain r s' where r: "Slab_remove j s = (r, s')" by fastforce
  have s': "slab_inv s'" by (rule Slab_remove_refines(2) [OF Cons.prems r])
  have "Slab_get i s' = (if i = j then None else Slab_get i s)"
    using slab.remove_spec [OF Cons.prems r] by simp
  with Cons.IH [OF s'] r show ?case by (auto simp: Slab_remove_all_def)
qed (simp add: Slab_remove_all_def)

section \<open>Reachable slabs\<close>

text \<open>Every sequence of the public operations, failing ones included.\<close>

inductive slab_reach :: "bool \<Rightarrow> alloc \<Rightarrow> u16 \<Rightarrow> 'a Slab \<Rightarrow> bool" for dbg alloc n where
  reach_new: "slab_reach dbg alloc n (Slab_new n)"
| reach_insert: "slab_reach dbg alloc n s \<Longrightarrow>
    s' = snd (Slab_insert dbg alloc f s :: (u16 option, unit) result \<times> 'a Slab) \<Longrightarrow> slab_reach dbg alloc n s'"
| reach_try_insert: "slab_reach dbg alloc n s \<Longrightarrow>
    s' = snd (Slab_try_insert dbg alloc g s :: (u16 option, unit) result \<times> 'a Slab) \<Longrightarrow> slab_reach dbg alloc n s'"
| reach_remove: "slab_reach dbg alloc n s \<Longrightarrow> s' = snd (Slab_remove i s) \<Longrightarrow> slab_reach dbg alloc n s'"
| reach_get_mut: "slab_reach dbg alloc n s \<Longrightarrow> Slab_get_mut i s = Some (v, assign) \<Longrightarrow>
    slab_reach dbg alloc n (assign v')"

lemma slab_abs_limit: "limit (slab_abs s) = unat (max_items s)"
  by (simp add: slab_abs_def)

lemma slots_keep_limit:
  "limit (snd (slots_insert f m :: ('o option, 'e) result \<times> 'a slots)) = limit m"
  "limit (snd (slots_try_insert g m)) = limit m"
  by (auto simp: slots_insert_def slots_try_insert_def Let_def split: result.split)

lemma max_items_from_limit: "limit (slab_abs s') = limit (slab_abs s) \<Longrightarrow> max_items s' = max_items s"
  by (simp add: slab_abs_limit word_unat_eq_iff)

lemma get_mut_inv:
  assumes "slab_inv s" "Slab_get_mut i s = Some (v, assign)"
  shows "slab_inv (assign v') \<and> max_items (assign v') = max_items s \<and>
    Slab_get i (assign v') = Some v' \<and> (\<forall>j. j \<noteq> i \<longrightarrow> Slab_get j (assign v') = Slab_get j s)"
  using assms
  by (auto simp: Slab_get_mut_def Slab_get_store slice_get_def slab_inv_def Entry_as_occupied_def bind_eq_Some_conv
      word_unat_eq_iff dest!: set_update_subset_insert [THEN subsetD] split: if_splits)

lemma slab_reach_inv:
  assumes "alloc_ok alloc" "slab_reach dbg alloc n s"
  shows "slab_inv s \<and> max_items s = n"
  using assms(2)
proof (induction rule: slab_reach.induct)
  case reach_new
  show ?case by (simp add: slab_inv_new) (simp add: Slab_new_def)
next
  case (reach_insert s s' f)
  obtain r where "(Slab_insert dbg alloc f s :: (u16 option, unit) result \<times> 'a Slab) = (r, s')"
    using reach_insert.hyps(2) by (metis prod.collapse)
  from Slab_insert_refines [OF assms(1) _ this] reach_insert.IH show ?case
    by (metis slots_keep_limit(1) max_items_from_limit snd_conv)
next
  case (reach_try_insert s s' g)
  obtain r where "(Slab_try_insert dbg alloc g s :: (u16 option, unit) result \<times> 'a Slab) = (r, s')"
    using reach_try_insert.hyps(2) by (metis prod.collapse)
  from Slab_try_insert_refines [OF assms(1) _ this] reach_try_insert.IH show ?case
    by (metis slots_keep_limit(2) max_items_from_limit snd_conv)
next
  case (reach_remove s s' i)
  obtain r where "Slab_remove i s = (r, s')" using reach_remove.hyps(2) by (metis prod.collapse)
  from Slab_remove_refines [OF _ this] reach_remove.IH show ?case by simp
next
  case (reach_get_mut s i v assign v')
  then show ?case using get_mut_inv by metis
qed

section \<open>Correctness\<close>

text \<open>C14: The slab implements the specification of numbered slots: inserting, inserting with a closure
  that may fail, and removing give the results of the specification and keep the abstraction, for
  every allocator. In particular an insertion never panics on its own.\<close>

theorem slab_refines_slots:
  fixes f :: "u16 \<Rightarrow> 'a \<times> 'o" and g :: "u16 \<Rightarrow> ('a \<times> 'o, 'e) result"
  assumes "alloc_ok alloc" "slab_inv s"
  shows "(slots_insert f (slab_abs s) :: ('o option, 'e) result \<times> 'a slots) =
      map_prod id slab_abs (Slab_insert dbg alloc f s) \<and>
    slots_try_insert g (slab_abs s) = map_prod id slab_abs (Slab_try_insert dbg alloc g s) \<and>
    slots_remove i (slab_abs s) = map_prod id slab_abs (Slab_remove i s)"
proof -
  obtain r1 s1 r2 s2 r3 s3 where
    "(Slab_insert dbg alloc f s :: ('o option, 'e) result \<times> 'a Slab) = (r1, s1)"
    "Slab_try_insert dbg alloc g s = (r2, s2)" "Slab_remove i s = (r3, s3)"
    by (metis surj_pair)
  with Slab_insert_refines(1) [OF assms, of dbg f r1 s1] Slab_try_insert_refines(1) [OF assms, of dbg g r2 s2]
    Slab_remove_refines(1) [OF assms(2), of i r3 s3]
  show ?thesis by simp
qed

theorem slab_refines_slots_witness:
  "slots_remove 3 (slab_abs (Slab_new 8 :: nat Slab)) = map_prod id slab_abs (Slab_remove 3 (Slab_new 8))"
  using slab_refines_slots [OF amortised_ok slab_inv_new, where i = 3] by blast

text \<open>C15: In every state the operations can reach the invariant holds: the store stays within the
  maximum number of items, within the capacity, and no free slot is linked to another.\<close>

theorem slab_reachable_inv:
  assumes "alloc_ok alloc" "slab_reach dbg alloc n s"
  shows "slab_inv s \<and> max_items s = n \<and> card {i. Slab_get i s \<noteq> None} \<le> unat n"
proof -
  note r = slab_reach_inv [OF assms]
  have "{i. Slab_get i s \<noteq> None} \<subseteq> {i. unat i < length (store s)}"
    by (auto simp: Slab_get_store split: if_splits)
  also have "\<dots> \<subseteq> word_of_nat ` {..< length (store s)}"
    by (auto intro!: image_eqI [where x = "unat i" for i :: u16])
  finally have "card {i. Slab_get i s \<noteq> None} \<le> card {..< length (store s)}"
    by (rule surj_card_le [OF finite_lessThan])
  also have "\<dots> \<le> unat n" using r by (auto simp: slab_inv_def)
  finally show ?thesis using r by blast
qed

theorem slab_reachable_inv_witness:
  "slab_inv (snd (Slab_remove 0 (snd (Slab_insert True amortised (\<lambda>i. (7 :: nat, i)) (Slab_new 2) ::
     (u16 option, unit) result \<times> nat Slab))))"
proof -
  have "slab_reach True amortised 2 (Slab_new 2 :: nat Slab)" by (rule slab_reach.intros)
  then have "slab_reach True amortised 2 (snd (Slab_insert True amortised (\<lambda>i. (7 :: nat, i)) (Slab_new 2) ::
     (u16 option, unit) result \<times> nat Slab))" by (rule reach_insert) simp
  then have "slab_reach True amortised 2 (snd (Slab_remove 0 (snd (Slab_insert True amortised (\<lambda>i. (7 :: nat, i))
     (Slab_new 2) :: (u16 option, unit) result \<times> nat Slab))))" by (rule reach_remove) simp
  from slab_reachable_inv [OF amortised_ok this] show ?thesis by blast
qed

text \<open>An insertion that reports success put its value at an index that was free, and the closure was
  given that index. Removing that index hands the value back and leaves every other entry as it
  was before the insertion.\<close>

lemma slab_insert_remove:
  assumes "slab_inv s"
    and "Slab_insert dbg amortised f s = (Ok (Some out) :: ('o option, 'e) result, s')"
  shows "\<exists>i s''. out = snd (f i) \<and> Slab_get i s = None \<and> Slab_get i s' = Some (fst (f i)) \<and>
    Slab_remove i s' = (Some (fst (f i)), s'') \<and> (\<forall>j. Slab_get j s'' = Slab_get j s)"
proof -
  from slab.put_remove [OF assms] obtain i s'' where i: "out = snd (f i)"
    "Slab_remove i s' = (Some (fst (f i)), s'')" "\<forall>j. Slab_get j s'' = Slab_get j s" by blast
  from slab.remove_spec [OF slab.put_inv [OF assms] i(2)] i(3)
  have "Slab_get i s' = Some (fst (f i))" "Slab_get i s = None" by auto
  with i show ?thesis by blast
qed

text \<open>C38: A slot is never used twice. Once \<open>max_items\<close> insertions have been made, the slab refuses
  every further one, even after all of its entries have been removed.\<close>

theorem slab_never_reuses:
  assumes "slab_inv s" "length (store s) = unat (max_items s)"
  shows "(Slab_insert dbg alloc f (Slab_remove_all is s) :: ('o option, 'e) result \<times> 'a Slab) =
      (Ok None, Slab_remove_all is s) \<and>
    (set is = UNIV \<longrightarrow> (\<forall>i. Slab_get i (Slab_remove_all is s) = None))"
  using Slab_insert_full [of "Slab_remove_all is s"] Slab_remove_all_keeps [OF assms(1)] assms
    Slab_remove_all_get [OF assms(1)] by simp

theorem slab_never_reuses_witness:
  "(Slab_insert True amortised (\<lambda>i. (8, i)) (snd (Slab_remove 0
      \<lparr>max_items = 1, next_free = None, store = [Occupied 7], store_capacity = 1\<rparr>)) ::
      (u16 option, unit) result \<times> nat Slab) =
    (Ok None, \<lparr>max_items = 1, next_free = None, store = [Free None], store_capacity = 1\<rparr>)"
proof -
  let ?s = "\<lparr>max_items = 1, next_free = None, store = [Occupied 7], store_capacity = 1\<rparr> :: nat Slab"
  have "slab_inv ?s" "length (store ?s) = unat (max_items ?s)" by (simp_all add: slab_inv_def)
  from slab_never_reuses [OF this, of True amortised "\<lambda>i. (8, i)" "[0]", where 'e = unit]
  show ?thesis by (simp add: Slab_remove_all_def Slab_remove_def slice_get_def)
qed

end
