(* ===== verification/Bytes.thy ===== *)
theory Bytes
  imports Rust_Prelude
begin

text \<open>
  The traits and the error type of \<open>src/bytes.rs\<close>: every encoder and decoder of the crate
  returns \<open>Result<_, Error>\<close>, and \<open>Decode::consume\<close> is the one default method.
  The traits \<open>Encode\<close> and \<open>Decode\<close> are interfaces: the locales below state what their
  implementations promise, and each packet theory interprets them.
\<close>

section \<open>Errors\<close>

datatype io_error_kind = WouldBlock | UnexpectedEof | Interrupted | OtherIo nat

datatype ErrorKind = OutOfRange | NotEnoughSpace | Overflow | Invalid | StdIo io_error_kind

record Error =
  kind :: ErrorKind
  msg :: string

definition Error_new :: "ErrorKind \<Rightarrow> string \<Rightarrow> Error" where
  "Error_new k m = \<lparr>kind = k, msg = m\<rparr>"

lemma kind_Error_new [simp]: "kind (Error_new k m) = k"
  by (simp add: Error_new_def)

type_synonym 'a res = "('a, Error) result"

section \<open>Decoding a whole buffer\<close>

definition Decode_consume :: "(bytes \<Rightarrow> ('a \<times> bytes) res) \<Rightarrow> bytes \<Rightarrow> 'a res" where
  "Decode_consume parse buf =
     and_then (parse buf) (\<lambda>(this, rest).
       if rest \<noteq> [] then Err (Error_new Invalid ''remaining bytes in consumed packet'')
       else Ok this)"

lemma Decode_consume_Ok_iff [simp]:
  "Decode_consume parse buf = Ok x \<longleftrightarrow> parse buf = Ok (x, [])"
  by (auto simp: Decode_consume_def split: if_splits)

lemma Decode_consume_rest:
  "parse buf = Ok (x, rest) \<Longrightarrow> rest \<noteq> [] \<Longrightarrow>
   Decode_consume parse buf = Err (Error_new Invalid ''remaining bytes in consumed packet'')"
  by (simp add: Decode_consume_def)

lemma Decode_consume_Panic_iff [simp]: "Decode_consume parse buf = Panic \<longleftrightarrow> parse buf = Panic"
  by (auto simp: Decode_consume_def and_then_Panic_iff split: if_splits)

section \<open>Optional fields\<close>

primrec opt_bytes :: "('a \<Rightarrow> bytes) \<Rightarrow> 'a option \<Rightarrow> bytes" where
  "opt_bytes enc None = []"
| "opt_bytes enc (Some x) = enc x"

section \<open>The contract of a decoder\<close>

text \<open>
  A decoder takes its value off the front of the buffer and hands back the rest. The
  parameter \<open>lawful\<close> says that the environment (the third-party crates) keeps its
  documented laws.
\<close>

locale decoder =
  fixes lawful :: "'d \<Rightarrow> bool"
    and parse :: "'d \<Rightarrow> bytes \<Rightarrow> ('o \<times> bytes) res"
  assumes parse_front:
    "lawful d \<Longrightarrow> parse d buf = Ok (x, rest) \<Longrightarrow> \<exists>pre. pre \<noteq> [] \<and> buf = pre @ rest"
begin

lemma parse_shorter:
  "lawful d \<Longrightarrow> parse d buf = Ok (x, rest) \<Longrightarrow> length rest < length buf"
  using parse_front by fastforce

lemma parse_drop:
  "lawful d \<Longrightarrow> parse d buf = Ok (x, rest) \<Longrightarrow> rest = drop (length buf - length rest) buf"
  using parse_front by fastforce

end

section \<open>The contract of an encoder and its decoder\<close>

text \<open>
  The values in \<open>ok\<close> are encoded as \<open>enc\<close>; decoding finds the value again whatever
  follows it in the buffer.
\<close>

locale codec = decoder lawful parse
  for lawful :: "'d \<Rightarrow> bool" and parse :: "'d \<Rightarrow> bytes \<Rightarrow> ('o \<times> bytes) res" +
  fixes ok :: "'v \<Rightarrow> bool"
    and enc :: "'d \<Rightarrow> 'v \<Rightarrow> bytes"
    and view :: "'v \<Rightarrow> 'o"
  assumes parse_enc: "lawful d \<Longrightarrow> ok v \<Longrightarrow> parse d (enc d v @ rest) = Ok (view v, rest)"
begin

lemma enc_nonempty: "lawful d \<Longrightarrow> ok v \<Longrightarrow> enc d v \<noteq> []"
  using parse_front [of d "enc d v @ []"] parse_enc [of d v "[]"] by fastforce

lemma consume_enc: "lawful d \<Longrightarrow> ok v \<Longrightarrow> Decode_consume (parse d) (enc d v) = Ok (view v)"
  using parse_enc [of d v "[]"] by simp

lemma consume_enc_more:
  "lawful d \<Longrightarrow> ok v \<Longrightarrow> rest \<noteq> [] \<Longrightarrow>
   Decode_consume (parse d) (enc d v @ rest) =
     Err (Error_new Invalid ''remaining bytes in consumed packet'')"
  by (simp add: Decode_consume_rest parse_enc)

lemma parse_option:
  "lawful d \<Longrightarrow> (\<And>v. ov = Some v \<Longrightarrow> ok v) \<Longrightarrow> c \<longleftrightarrow> ov \<noteq> None \<Longrightarrow>
   (if c then and_then (parse d (opt_bytes (enc d) ov @ rest)) (\<lambda>(v, r). Ok (Some v, r))
    else Ok (None, opt_bytes (enc d) ov @ rest)) = Ok (map_option view ov, rest)"
  by (cases ov) (simp_all add: parse_enc)

lemma enc_prefix_free:
  assumes "lawful d" "ok v" "ok v'" and eq: "enc d v @ r = enc d v' @ r'"
  shows "view v = view v' \<and> r = r'"
  using parse_enc [of d v r] parse_enc [of d v' r'] assms by simp

lemma enc_inj: "lawful d \<Longrightarrow> ok v \<Longrightarrow> ok v' \<Longrightarrow> enc d v = enc d v' \<Longrightarrow> view v = view v'"
  using enc_prefix_free [of d v v' "[]" "[]"] by simp

end

end
