(* ===== verification/Crates.thy ===== *)
theory Crates
  imports Bytes
begin

text \<open>
  The third-party crates the program calls (\<open>zerocopy\<close> 0.8, \<open>bitflags\<close> 2.10,
  \<open>memchr\<close> 2.7) and the build profile are parameters of the model: a value of the record
  \<open>crates\<close> is an argument of every definition that calls them. What the code relies on is
  the predicate \<open>crates_ok\<close>, which states the behaviour those crates document. The value
  \<open>std_crates\<close> shows that the laws can hold.
\<close>

section \<open>The interface\<close>

text \<open>
  The \<open>zerocopy\<close> operations are used at the following types only, all of alignment 1.
  \<^item> \<open>zc_ref_from_prefix n\<close>: \<open>ref_from_prefix\<close> at a sized type of \<open>n\<close> bytes.
  \<^item> \<open>zc_ref_from_bytes n\<close>: \<open>ref_from_bytes\<close> (or \<open>ref_from_prefix\<close>, which takes as
    many elements as fit) at a type of \<open>n\<close> leading bytes and a trailing slice of bytes; the
    result is the leading part and the trailing slice.
  \<^item> \<open>zc_split_at\<close>: \<open>SplitAt::split_at\<close> and \<open>via_immutable\<close> on a trailing slice.
  \<^item> \<open>zc_try_ref_from_prefix n valid\<close>, \<open>zc_try_ref_from_bytes n valid\<close> and
    \<open>zc_try_ref_from_prefix_with_elems n valid\<close>: the same for a type whose bit patterns are
    restricted; \<open>valid\<close> is the language's own validity of the type (the discriminants of an
    enum, UTF-8 for \<open>str\<close>).
  \<^item> \<open>zc_u16_get\<close>, \<open>zc_u16_as_bytes\<close>: the big-endian \<open>network_endian::U16\<close>.
  The \<open>bitflags\<close> operations take the union of the declared flags (\<open>all\<close>) where the
  generated code depends on it.
\<close>

datatype ConvertError = Alignment | Size | Validity

record crates =
  debug_assertions :: bool
  zc_ref_from_prefix :: "nat \<Rightarrow> bytes \<Rightarrow> (bytes \<times> bytes) option"
  zc_ref_from_bytes :: "nat \<Rightarrow> bytes \<Rightarrow> (bytes \<times> bytes) option"
  zc_split_at :: "nat \<Rightarrow> bytes \<Rightarrow> (bytes \<times> bytes) option"
  zc_try_ref_from_prefix ::
    "nat \<Rightarrow> (bytes \<Rightarrow> bool) \<Rightarrow> bytes \<Rightarrow> (bytes \<times> bytes, ConvertError) result"
  zc_try_ref_from_bytes ::
    "nat \<Rightarrow> (bytes \<Rightarrow> bool) \<Rightarrow> bytes \<Rightarrow> (bytes \<times> bytes, ConvertError) result"
  zc_try_ref_from_prefix_with_elems ::
    "nat \<Rightarrow> (bytes \<Rightarrow> bool) \<Rightarrow> bytes \<Rightarrow> nat \<Rightarrow> ((bytes \<times> bytes) \<times> bytes, ConvertError) result"
  zc_u16_get :: "bytes \<Rightarrow> u16"
  zc_u16_as_bytes :: "u16 \<Rightarrow> bytes"
  bf_from_bits :: "u8 \<Rightarrow> u8 \<Rightarrow> u8 option"
  bf_contains :: "u8 \<Rightarrow> u8 \<Rightarrow> bool"
  bf_intersects :: "u8 \<Rightarrow> u8 \<Rightarrow> bool"
  bf_is_empty :: "u8 \<Rightarrow> bool"
  bf_bitor :: "u8 \<Rightarrow> u8 \<Rightarrow> u8"
  bf_bitand :: "u8 \<Rightarrow> u8 \<Rightarrow> u8"
  bf_not :: "u8 \<Rightarrow> u8 \<Rightarrow> u8"
  memchr2 :: "u8 \<Rightarrow> u8 \<Rightarrow> bytes \<Rightarrow> nat option"
  memchr2_iter :: "u8 \<Rightarrow> u8 \<Rightarrow> bytes \<Rightarrow> nat list"

section \<open>The documented laws\<close>

definition zerocopy_ok :: "crates \<Rightarrow> bool" where
  "zerocopy_ok d \<longleftrightarrow>
     (\<forall>n buf. zc_ref_from_prefix d n buf =
        (if n \<le> length buf then Some (take n buf, drop n buf) else None)) \<and>
     (\<forall>n buf. zc_ref_from_bytes d n buf =
        (if n \<le> length buf then Some (take n buf, drop n buf) else None)) \<and>
     (\<forall>n buf. zc_split_at d n buf =
        (if n \<le> length buf then Some (take n buf, drop n buf) else None)) \<and>
     (\<forall>n valid buf. zc_try_ref_from_prefix d n valid buf =
        (if length buf < n then Err Size
         else if valid (take n buf) then Ok (take n buf, drop n buf) else Err Validity)) \<and>
     (\<forall>n valid buf. zc_try_ref_from_bytes d n valid buf =
        (if length buf < n then Err Size
         else if valid (drop n buf) then Ok (take n buf, drop n buf) else Err Validity)) \<and>
     (\<forall>n valid buf m. zc_try_ref_from_prefix_with_elems d n valid buf m =
        (if length buf < n + m then Err Size
         else if valid (take m (drop n buf))
           then Ok ((take n buf, take m (drop n buf)), drop (n + m) buf)
         else Err Validity)) \<and>
     (\<forall>hi lo. zc_u16_get d [hi, lo] = word_of_nat (256 * unat hi + unat lo)) \<and>
     (\<forall>x. zc_u16_as_bytes d x = [word_of_nat (unat x div 256), word_of_nat (unat x mod 256)])"

definition bitflags_ok :: "crates \<Rightarrow> bool" where
  "bitflags_ok d \<longleftrightarrow>
     (\<forall>all x. bf_from_bits d all x = (if x AND NOT all = 0 then Some x else None)) \<and>
     (\<forall>x y. bf_contains d x y \<longleftrightarrow> x AND y = y) \<and>
     (\<forall>x y. bf_intersects d x y \<longleftrightarrow> x AND y \<noteq> 0) \<and>
     (\<forall>x. bf_is_empty d x \<longleftrightarrow> x = 0) \<and>
     (\<forall>x y. bf_bitor d x y = x OR y) \<and>
     (\<forall>x y. bf_bitand d x y = x AND y) \<and>
     (\<forall>all x. bf_not d all x = NOT x AND all)"

definition memchr_ok :: "crates \<Rightarrow> bool" where
  "memchr_ok d \<longleftrightarrow>
     (\<forall>a b hay. memchr2_iter d a b hay =
        filter (\<lambda>i. hay ! i = a \<or> hay ! i = b) [0..<length hay]) \<and>
     (\<forall>a b hay. memchr2 d a b hay =
        (case filter (\<lambda>i. hay ! i = a \<or> hay ! i = b) [0..<length hay] of
           [] \<Rightarrow> None | i # _ \<Rightarrow> Some i))"

definition crates_ok :: "crates \<Rightarrow> bool" where
  "crates_ok d \<longleftrightarrow> zerocopy_ok d \<and> bitflags_ok d \<and> memchr_ok d"

lemma zerocopy_laws [crate_law]:
  assumes "crates_ok d"
  shows "zc_ref_from_prefix d n buf =
           (if n \<le> length buf then Some (take n buf, drop n buf) else None)"
    and "zc_ref_from_bytes d n buf =
           (if n \<le> length buf then Some (take n buf, drop n buf) else None)"
    and "zc_split_at d n buf =
           (if n \<le> length buf then Some (take n buf, drop n buf) else None)"
    and "zc_try_ref_from_prefix d n valid buf =
           (if length buf < n then Err Size
            else if valid (take n buf) then Ok (take n buf, drop n buf) else Err Validity)"
    and "zc_try_ref_from_bytes d n valid buf =
           (if length buf < n then Err Size
            else if valid (drop n buf) then Ok (take n buf, drop n buf) else Err Validity)"
    and "zc_try_ref_from_prefix_with_elems d n valid buf m =
           (if length buf < n + m then Err Size
            else if valid (take m (drop n buf))
              then Ok ((take n buf, take m (drop n buf)), drop (n + m) buf)
            else Err Validity)"
    and "zc_u16_get d [hi, lo] = word_of_nat (256 * unat hi + unat lo)"
    and "zc_u16_as_bytes d x = [word_of_nat (unat x div 256), word_of_nat (unat x mod 256)]"
  using assms unfolding crates_ok_def zerocopy_ok_def by simp_all

lemma bitflags_laws [crate_law]:
  assumes "crates_ok d"
  shows "bf_from_bits d all x = (if x AND NOT all = 0 then Some x else None)"
    and "bf_contains d x y \<longleftrightarrow> x AND y = y"
    and "bf_intersects d x y \<longleftrightarrow> x AND y \<noteq> 0"
    and "bf_is_empty d x \<longleftrightarrow> x = 0"
    and "bf_bitor d x y = x OR y"
    and "bf_bitand d x y = x AND y"
    and "bf_not d all x = NOT x AND all"
  using assms unfolding crates_ok_def bitflags_ok_def by simp_all

lemma memchr_laws:
  assumes "crates_ok d"
  shows "memchr2_iter d a b hay = filter (\<lambda>i. hay ! i = a \<or> hay ! i = b) [0..<length hay]"
    and "memchr2 d a b hay = None \<longleftrightarrow> a \<notin> set hay \<and> b \<notin> set hay"
proof -
  show "memchr2_iter d a b hay = filter (\<lambda>i. hay ! i = a \<or> hay ! i = b) [0..<length hay]"
    using assms by (simp add: crates_ok_def memchr_ok_def)
  have "memchr2 d a b hay = None \<longleftrightarrow>
      filter (\<lambda>i. hay ! i = a \<or> hay ! i = b) [0..<length hay] = []"
    using assms by (simp add: crates_ok_def memchr_ok_def split: list.split)
  also have "\<dots> \<longleftrightarrow> a \<notin> set hay \<and> b \<notin> set hay"
    by (auto simp: filter_empty_conv in_set_conv_nth)
  finally show "memchr2 d a b hay = None \<longleftrightarrow> a \<notin> set hay \<and> b \<notin> set hay" .
qed

section \<open>The laws can hold\<close>

definition std_crates :: "bool \<Rightarrow> crates" where
  "std_crates dbg =
     \<lparr>debug_assertions = dbg,
      zc_ref_from_prefix =
        (\<lambda>n buf. if n \<le> length buf then Some (take n buf, drop n buf) else None),
      zc_ref_from_bytes =
        (\<lambda>n buf. if n \<le> length buf then Some (take n buf, drop n buf) else None),
      zc_split_at =
        (\<lambda>n buf. if n \<le> length buf then Some (take n buf, drop n buf) else None),
      zc_try_ref_from_prefix =
        (\<lambda>n valid buf. if length buf < n then Err Size
           else if valid (take n buf) then Ok (take n buf, drop n buf) else Err Validity),
      zc_try_ref_from_bytes =
        (\<lambda>n valid buf. if length buf < n then Err Size
           else if valid (drop n buf) then Ok (take n buf, drop n buf) else Err Validity),
      zc_try_ref_from_prefix_with_elems =
        (\<lambda>n valid buf m. if length buf < n + m then Err Size
           else if valid (take m (drop n buf))
             then Ok ((take n buf, take m (drop n buf)), drop (n + m) buf)
           else Err Validity),
      zc_u16_get =
        (\<lambda>bs. case bs of [hi, lo] \<Rightarrow> word_of_nat (256 * unat hi + unat lo) | _ \<Rightarrow> 0),
      zc_u16_as_bytes =
        (\<lambda>x. [word_of_nat (unat x div 256), word_of_nat (unat x mod 256)]),
      bf_from_bits = (\<lambda>all x. if x AND NOT all = 0 then Some x else None),
      bf_contains = (\<lambda>x y. x AND y = y),
      bf_intersects = (\<lambda>x y. x AND y \<noteq> 0),
      bf_is_empty = (\<lambda>x. x = 0),
      bf_bitor = (\<lambda>x y. x OR y),
      bf_bitand = (\<lambda>x y. x AND y),
      bf_not = (\<lambda>all x. NOT x AND all),
      memchr2 = (\<lambda>a b hay.
        case filter (\<lambda>i. hay ! i = a \<or> hay ! i = b) [0..<length hay] of
          [] \<Rightarrow> None | i # _ \<Rightarrow> Some i),
      memchr2_iter = (\<lambda>a b hay. filter (\<lambda>i. hay ! i = a \<or> hay ! i = b) [0..<length hay])\<rparr>"

lemma std_crates_ok [simp]: "crates_ok (std_crates dbg)"
  by (simp add: crates_ok_def zerocopy_ok_def bitflags_ok_def memchr_ok_def std_crates_def)

lemma debug_assertions_std_crates [simp]: "debug_assertions (std_crates dbg) = dbg"
  by (simp add: std_crates_def)

section \<open>Big-endian 16-bit fields\<close>

lemma u16_round_trip:
  assumes "crates_ok d"
  shows "zc_u16_get d (zc_u16_as_bytes d x) = x"
proof -
  have "unat x div 256 < 256" using unat_u16_bound [of x] by linarith
  then have "256 * (unat x div 256) + unat x mod 256 = unat x" by simp
  then show ?thesis
    using assms \<open>unat x div 256 < 256\<close> by (simp add: crate_law unat_of_nat)
qed

lemma length_u16_as_bytes [simp]: "crates_ok d \<Longrightarrow> length (zc_u16_as_bytes d x) = 2"
  by (simp add: crate_law)

lemma unat_u16_get:
  assumes "crates_ok d"
  shows "unat (zc_u16_get d [hi, lo]) = 256 * unat hi + unat lo"
proof -
  have "256 * unat hi + unat lo < 65536"
    using unat_u8_bound [of hi] unat_u8_bound [of lo] by linarith
  then show ?thesis
    by (simp only: zerocopy_laws(7) [OF assms] unat_of_nat) simp
qed

end
