(* ===== verification/Std_Io.thy ===== *)
theory Std_Io
  imports Crates
begin

text \<open>
  The \<open>std::io::Write\<close> side. A writer is the bytes it has accepted so far and a script of
  what its next calls do: each \<open>write_all\<close> (or \<open>flush\<close>) takes one entry, \<open>None\<close> for
  success and \<open>Some (n, k)\<close> for an I/O error of kind \<open>k\<close> after \<open>n\<close> bytes of the chunk
  went out. A writer whose script is exhausted succeeds for ever, as \<open>Vec<u8>\<close> does.
  Quantifying over the script covers every behaviour of a socket.
\<close>

section \<open>Writers\<close>

record writer =
  sent :: bytes
  faults :: "(nat \<times> io_error_kind) option list"

definition vec_writer :: writer where
  "vec_writer = \<lparr>sent = [], faults = []\<rparr>"

definition write_all :: "string \<Rightarrow> bytes \<Rightarrow> writer \<Rightarrow> unit res \<times> writer" where
  "write_all m bs w =
     (case faults w of
        [] \<Rightarrow> (Ok (), w\<lparr>sent := sent w @ bs\<rparr>)
      | None # fs \<Rightarrow> (Ok (), w\<lparr>sent := sent w @ bs, faults := fs\<rparr>)
      | Some (n, k) # fs \<Rightarrow>
          (Err (Error_new (StdIo k) m), w\<lparr>sent := sent w @ take n bs, faults := fs\<rparr>))"

definition write_flush :: "string \<Rightarrow> writer \<Rightarrow> unit res \<times> writer" where
  "write_flush m w =
     (case faults w of
        [] \<Rightarrow> (Ok (), w)
      | None # fs \<Rightarrow> (Ok (), w\<lparr>faults := fs\<rparr>)
      | Some (n, k) # fs \<Rightarrow> (Err (Error_new (StdIo k) m), w\<lparr>faults := fs\<rparr>))"

section \<open>Sequencing writes\<close>

type_synonym ('s, 'a) st = "'s \<Rightarrow> 'a res \<times> 's"
type_synonym 'a wr = "(writer, 'a) st"

definition w_lift :: "'a res \<Rightarrow> 'a wr" where
  "w_lift r w = (r, w)"

definition w_then :: "'a wr \<Rightarrow> ('a \<Rightarrow> 'b wr) \<Rightarrow> 'b wr" where
  "w_then m f w =
     (case m w of
        (Ok x, w') \<Rightarrow> f x w'
      | (Err e, w') \<Rightarrow> (Err e, w')
      | (Panic, w') \<Rightarrow> (Panic, w'))"

definition w_map_err :: "(Error \<Rightarrow> Error) \<Rightarrow> 'a wr \<Rightarrow> 'a wr" where
  "w_map_err g m w = (case m w of (r, w') \<Rightarrow> (map_err g r, w'))"

lemma w_then_lift_Ok [simp]: "w_then (w_lift (Ok x)) f = f x"
  by (rule ext) (simp add: w_then_def w_lift_def)

lemma w_then_lift_Err [simp]: "w_then (w_lift (Err e)) f = w_lift (Err e)"
  by (rule ext) (simp add: w_then_def w_lift_def)

section \<open>What a writing operation puts on the wire\<close>

text \<open>
  \<open>emits m v bs\<close>: the operation returns \<open>v\<close> exactly when all of \<open>bs\<close> went out; it fails
  only with an I/O error, and then a prefix of \<open>bs\<close> went out. On a writer that does not fail
  it succeeds.
\<close>

definition emits :: "'a wr \<Rightarrow> 'a \<Rightarrow> bytes \<Rightarrow> bool" where
  "emits m v bs \<longleftrightarrow>
     (\<forall>w. (faults w = [] \<longrightarrow> m w = (Ok v, w\<lparr>sent := sent w @ bs\<rparr>)) \<and>
          (case m w of
             (Ok v', w') \<Rightarrow> v' = v \<and> sent w' = sent w @ bs
           | (Err e, w') \<Rightarrow>
               (\<exists>k. kind e = StdIo k) \<and> (\<exists>p. prefix p bs \<and> sent w' = sent w @ p)
           | (Panic, w') \<Rightarrow> False))"

text \<open>\<open>rejects m e\<close>: the operation fails with \<open>e\<close> and nothing goes out.\<close>

definition rejects :: "'a wr \<Rightarrow> Error \<Rightarrow> bool" where
  "rejects m e \<longleftrightarrow> (\<forall>w. m w = (Err e, w))"

lemma emits_run:
  "emits m v bs \<Longrightarrow> faults w = [] \<Longrightarrow> m w = (Ok v, w\<lparr>sent := sent w @ bs\<rparr>)"
  by (simp add: emits_def)

lemma emits_vec: "emits m v bs \<Longrightarrow> m vec_writer = (Ok v, \<lparr>sent = bs, faults = []\<rparr>)"
  by (simp add: emits_run vec_writer_def)

lemma emits_Ok:
  "emits m v bs \<Longrightarrow> m w = (Ok v', w') \<Longrightarrow> v' = v \<and> sent w' = sent w @ bs"
  unfolding emits_def by (drule spec [of _ w]) simp

lemma emits_Err:
  "emits m v bs \<Longrightarrow> m w = (Err e, w') \<Longrightarrow>
   (\<exists>k. kind e = StdIo k) \<and> (\<exists>p. prefix p bs \<and> sent w' = sent w @ p)"
  unfolding emits_def by (drule spec [of _ w]) simp

lemma emits_no_Panic: "emits m v bs \<Longrightarrow> m w \<noteq> (Panic, w')"
  unfolding emits_def by (drule spec [of _ w]) auto

lemma emits_unique: "emits m v bs \<Longrightarrow> emits m v' bs' \<Longrightarrow> v = v' \<and> bs = bs'"
  using emits_vec [of m v bs] emits_vec [of m v' bs'] by simp

lemma emits_lift [emit_intro]: "r = Ok v \<Longrightarrow> emits (w_lift r) v []"
  by (simp add: emits_def w_lift_def)

lemma emits_write_all [emit_intro]: "emits (write_all m bs) () bs"
  by (auto simp: emits_def write_all_def take_is_prefix split: list.splits option.splits)

lemma emits_then [emit_intro]:
  assumes m: "emits m a xs" and f: "emits (f a) b ys" and eq: "zs = xs @ ys"
  shows "emits (w_then m f) b zs"
  unfolding emits_def
proof (intro allI conjI impI)
  fix w :: writer
  assume "faults w = []"
  with emits_run [OF m this] emits_run [OF f, of "w\<lparr>sent := sent w @ xs\<rparr>"]
  show "w_then m f w = (Ok b, w\<lparr>sent := sent w @ zs\<rparr>)"
    by (simp add: w_then_def eq)
next
  fix w :: writer
  show "case w_then m f w of
      (Ok v', w') \<Rightarrow> v' = b \<and> sent w' = sent w @ zs
    | (Err e, w') \<Rightarrow> (\<exists>k. kind e = StdIo k) \<and> (\<exists>p. prefix p zs \<and> sent w' = sent w @ p)
    | (Panic, w') \<Rightarrow> False"
  proof (cases "m w")
    case (Pair r w1)
    show ?thesis
    proof (cases r)
      case (Ok x)
      with Pair emits_Ok [OF m] have x: "x = a" "sent w1 = sent w @ xs" by auto
      then have run: "w_then m f w = f a w1" using Pair Ok by (simp add: w_then_def)
      show ?thesis
      proof (cases "f a w1")
        case (Pair r2 w2)
        show ?thesis
        proof (cases r2)
          case (Ok y)
          with Pair emits_Ok [OF f, of w1 y w2] x show ?thesis by (simp add: run eq)
        next
          case (Err e)
          with Pair emits_Err [OF f, of w1 e w2] obtain k p
            where "kind e = StdIo k" "prefix p ys" "sent w2 = sent w1 @ p" by auto
          with x have "prefix (xs @ p) zs" "sent w2 = sent w @ (xs @ p)"
            by (simp_all add: eq append_prefix_trans)
          with Err Pair \<open>kind e = StdIo k\<close> show ?thesis by (auto simp: run)
        next
          case Panic
          with Pair emits_no_Panic [OF f, of w1] show ?thesis by simp
        qed
      qed
    next
      case (Err e)
      with Pair emits_Err [OF m, of w e w1] show ?thesis
        by (auto simp: w_then_def eq intro: prefix_prefix)
    next
      case Panic
      with Pair emits_no_Panic [OF m, of w] show ?thesis by simp
    qed
  qed
qed

lemma emits_map_err [emit_intro]:
  assumes "emits m v bs" and "\<And>e. kind (g e) = kind e"
  shows "emits (w_map_err g m) v bs"
  unfolding emits_def
proof (intro allI conjI impI)
  fix w :: writer
  assume "faults w = []"
  then show "w_map_err g m w = (Ok v, w\<lparr>sent := sent w @ bs\<rparr>)"
    using emits_run [OF assms(1)] by (simp add: w_map_err_def)
next
  fix w :: writer
  show "case w_map_err g m w of
      (Ok v', w') \<Rightarrow> v' = v \<and> sent w' = sent w @ bs
    | (Err e, w') \<Rightarrow> (\<exists>k. kind e = StdIo k) \<and> (\<exists>p. prefix p bs \<and> sent w' = sent w @ p)
    | (Panic, w') \<Rightarrow> False"
    using assms(1) unfolding emits_def
    by (auto simp: w_map_err_def assms(2) map_err_Err_iff split: prod.splits result.splits
        dest!: spec [of _ w])
qed

text \<open>The pattern \<open>written += write(..)?\<close>.\<close>

lemma emits_count_then:
  assumes "emits m n xs" "a + n \<le> usize_max" "emits (k (a + n)) v ys" "zs = xs @ ys"
  shows "emits (w_then m (\<lambda>n. w_then (w_lift (usize_add dbg a n)) k)) v zs"
  using assms by (auto intro!: emits_then [OF assms(1)] simp: usize_add_eq)

lemma emits_count:
  assumes "emits m n xs" "a + n \<le> usize_max"
  shows "emits (w_then m (\<lambda>n. w_lift (usize_add dbg a n))) (a + n) xs"
  using assms(2) by (intro emits_then [OF assms(1) emits_lift]) (simp_all add: usize_add_eq)

text \<open>The pattern \<open>if let Some(x) = o { written += write(x)? }\<close>.\<close>

lemma emits_option:
  assumes "\<And>x. ov = Some x \<Longrightarrow> emits (g x) (length (enc x)) (enc x)"
    and "a + length (opt_bytes enc ov) \<le> usize_max"
  shows "emits (case ov of
         None \<Rightarrow> w_lift (Ok a)
       | Some x \<Rightarrow> w_then (g x) (\<lambda>n. w_lift (usize_add dbg a n)))
     (a + length (opt_bytes enc ov)) (opt_bytes enc ov)"
  using assms by (cases ov) (auto intro!: emits_lift emits_count)

lemma rejects_lift: "rejects (w_lift (Err e)) e"
  by (simp add: rejects_def w_lift_def)

lemma rejects_then: "rejects m e \<Longrightarrow> rejects (w_then m f) e"
  by (simp add: rejects_def w_then_def)

end
