(* ===== verification/Remaining_Length.thy ===== *)
theory Remaining_Length
  imports Std_Io
begin

text \<open>
  The variable-length integer of the fixed header
  (\<open>src/v3/packets/common/fixed/remaining_length.rs\<close>): one to four bytes, seven value bits
  each, the top bit set on every byte but the last. The struct \<open>RemainingLength<B>\<close> is used
  at \<open>[u8]\<close> (\<open>RemainingLengthSlice\<close>) and at \<open>[u8; N]\<close> (\<open>RemainingLengthArray\<close>);
  both hold the encoded bytes.
\<close>

section \<open>Definitions\<close>

record RemainingLength =
  rl_len :: bytes

definition CONTINUE_FLAG :: u8 where "CONTINUE_FLAG = 0b10000000"

definition VALUE_MASK :: u8 where "VALUE_MASK = NOT CONTINUE_FLAG"

definition RemainingLength_MAX_BYTES :: usize where "RemainingLength_MAX_BYTES = 4"

definition has_continue_flag :: "u8 \<Rightarrow> bool" where
  "has_continue_flag b \<longleftrightarrow> CONTINUE_FLAG AND b = CONTINUE_FLAG"

definition count_continue_flags :: "bytes \<Rightarrow> usize res" where
  "count_continue_flags buf =
     (let flags = length (take RemainingLength_MAX_BYTES (takeWhile has_continue_flag buf))
      in if flags \<ge> 4
         then Err (Error_new Invalid ''remaining length continuation flags require more than 4 bytes'')
         else Ok flags)"

fun read_from_buf_loop :: "bool \<Rightarrow> bytes \<Rightarrow> u32 \<Rightarrow> u32 \<Rightarrow> u32 res" where
  "read_from_buf_loop dbg [] multiplier acc = Ok acc"
| "read_from_buf_loop dbg (byte # bs) multiplier acc =
     and_then (word_mul dbg (ucast (byte AND VALUE_MASK)) multiplier) (\<lambda>value.
     and_then (word_mul dbg multiplier 128) (\<lambda>multiplier'.
     and_then (word_add dbg acc value) (\<lambda>acc'.
     read_from_buf_loop dbg bs multiplier' acc')))"

definition read_from_buf :: "crates \<Rightarrow> bytes \<Rightarrow> u32 res" where
  "read_from_buf d buff = read_from_buf_loop (debug_assertions d) buff 1 0"

definition RemainingLength_read :: "crates \<Rightarrow> RemainingLength \<Rightarrow> u32 res" where
  "RemainingLength_read d this = read_from_buf_loop (debug_assertions d) (rl_len this) 1 0"

fun read_len_loop :: "bool \<Rightarrow> bytes \<Rightarrow> usize \<Rightarrow> usize \<Rightarrow> usize res" where
  "read_len_loop dbg [] multiplier acc = Ok acc"
| "read_len_loop dbg (byte # bs) multiplier acc =
     and_then (usize_mul dbg (unat (byte AND VALUE_MASK)) multiplier) (\<lambda>value.
     and_then (usize_mul dbg multiplier 128) (\<lambda>multiplier'.
     and_then (usize_add dbg acc value) (\<lambda>acc'.
     read_len_loop dbg bs multiplier' acc')))"

definition RemainingLength_read_len :: "crates \<Rightarrow> RemainingLength \<Rightarrow> usize res" where
  "RemainingLength_read_len d this = read_len_loop (debug_assertions d) (rl_len this) 1 0"

definition len_from_u32 :: "u32 \<Rightarrow> usize res" where
  "len_from_u32 value =
     (if value \<le> 127 then Ok 1
      else if value \<le> 16383 then Ok 2
      else if value \<le> 2097151 then Ok 3
      else if value \<le> 268435455 then Ok 4
      else Err (Error_new OutOfRange ''remaining length''))"

fun encode_to_array_loop :: "nat \<Rightarrow> u32 \<Rightarrow> bytes" where
  "encode_to_array_loop 0 value = []"
| "encode_to_array_loop (Suc n) value =
     (let b = ucast (value mod 128) :: u8;
          value' = value div 128
      in (if value' > 0 then b OR 128 else b) # encode_to_array_loop n value')"

definition encode_to_array :: "crates \<Rightarrow> nat \<Rightarrow> u32 \<Rightarrow> bytes res" where
  "encode_to_array d n value =
     debug_assert (debug_assertions d) (len_from_u32 value = Ok n)
       (Ok (encode_to_array_loop n value))"

definition RemainingLength_validate_value :: "u32 \<Rightarrow> usize res" where
  "RemainingLength_validate_value value = len_from_u32 value"

definition RemainingLength_validate :: "RemainingLength \<Rightarrow> unit res" where
  "RemainingLength_validate this =
     (if length (rl_len this) > 4 then Err (Error_new Invalid ''remaining length too many bytes'')
      else case rev (rl_len this) of
        [] \<Rightarrow> Ok ()
      | b # iter \<Rightarrow>
          if has_continue_flag b
          then Err (Error_new Invalid ''remaining length last byte continuation set'')
          else if \<not> list_all has_continue_flag iter
          then Err (Error_new Invalid ''remaining length continuation flag unset'')
          else Ok ())"

definition write_sync_array :: "crates \<Rightarrow> nat \<Rightarrow> u32 \<Rightarrow> usize wr" where
  "write_sync_array d n value =
     w_then (w_lift (encode_to_array d n value)) (\<lambda>buf.
     w_then (write_all ''writing remaining length'' buf) (\<lambda>_.
     w_lift (Ok n)))"

definition RemainingLengthSlice_encode_len :: "u32 \<Rightarrow> usize res" where
  "RemainingLengthSlice_encode_len value = len_from_u32 value"

definition RemainingLengthSlice_write_sync :: "crates \<Rightarrow> u32 \<Rightarrow> usize wr" where
  "RemainingLengthSlice_write_sync d value =
     (if value \<le> 127 then write_sync_array d 1 value
      else if value \<le> 16383 then write_sync_array d 2 value
      else if value \<le> 2097151 then write_sync_array d 3 value
      else if value \<le> 268435455 then write_sync_array d 4 value
      else w_lift (Err (Error_new OutOfRange ''remaining length'')))"

definition RemainingLengthArray_encode_len :: "nat \<Rightarrow> u32 \<Rightarrow> usize res" where
  "RemainingLengthArray_encode_len n value = Ok n"

definition RemainingLengthArray_write_sync :: "crates \<Rightarrow> nat \<Rightarrow> u32 \<Rightarrow> usize wr" where
  "RemainingLengthArray_write_sync d n value =
     w_then (w_lift (RemainingLength_validate_value value)) (\<lambda>len.
     if len \<noteq> n then w_lift (Err (Error_new OutOfRange ''remaining length array''))
     else write_sync_array d n value)"

definition RemainingLengthSlice_parse :: "crates \<Rightarrow> bytes \<Rightarrow> (RemainingLength \<times> bytes) res" where
  "RemainingLengthSlice_parse d buff =
     and_then (count_continue_flags buff) (\<lambda>flags.
     debug_assert (debug_assertions d) (flags \<le> 3) (
     and_then (ok_or (Error_new NotEnoughSpace ''remaining length'')
                 (split_at_checked (flags + 1) buff)) (\<lambda>(this, rest).
     debug_assert (debug_assertions d) (1 \<le> length this \<and> length this \<le> 4)
       (Ok (\<lparr>rl_len = this\<rparr>, rest)))))"

definition RemainingLengthArray_parse ::
    "crates \<Rightarrow> nat \<Rightarrow> bytes \<Rightarrow> (RemainingLength \<times> bytes) res" where
  "RemainingLengthArray_parse d n bytes =
     and_then (ok_or (Error_new OutOfRange ''remaining length'') (zc_ref_from_prefix d n bytes))
       (\<lambda>(this, rest).
     and_then (RemainingLength_validate \<lparr>rl_len = this\<rparr>) (\<lambda>_.
     Ok (\<lparr>rl_len = this\<rparr>, rest)))"

section \<open>The specification\<close>

text \<open>
  The value of a byte sequence is its little-endian base-128 value; a sequence is well
  formed when it has at most four bytes and the continuation flag is set on all but the last.
\<close>

primrec rl_value :: "bytes \<Rightarrow> nat" where
  "rl_value [] = 0"
| "rl_value (b # bs) = unat b mod 128 + 128 * rl_value bs"

definition rl_wf :: "bytes \<Rightarrow> bool" where
  "rl_wf bs \<longleftrightarrow> bs \<noteq> [] \<and> length bs \<le> 4 \<and> list_all has_continue_flag (butlast bs) \<and>
     \<not> has_continue_flag (last bs)"

definition rl_bytes :: "u32 \<Rightarrow> bytes" where
  "rl_bytes v = (case len_from_u32 v of Ok n \<Rightarrow> encode_to_array_loop n v | _ \<Rightarrow> [])"

section \<open>Bit-level facts\<close>

lemma has_continue_flag_iff: "has_continue_flag b \<longleftrightarrow> 128 \<le> unat b"
proof -
  have "\<forall>b::u8. (CONTINUE_FLAG AND b = CONTINUE_FLAG) = (128 \<le> unat b)"
    unfolding all_u8 by code_simp
  then show ?thesis by (simp add: has_continue_flag_def)
qed

lemma unat_value_mask: "unat (b AND VALUE_MASK) = unat b mod 128"
proof -
  have "VALUE_MASK = 127" by code_simp
  then show ?thesis using unat_low7 [of b] by (metis (no_types))
qed

lemma unat_or_128: "unat (b::u8) < 128 \<Longrightarrow> unat (b OR 128) = unat b + 128"
proof -
  have "\<forall>b::u8. unat b < 128 \<longrightarrow> unat (b OR 128) = unat b + 128"
    unfolding all_u8 by code_simp
  then show "unat b < 128 \<Longrightarrow> unat (b OR 128) = unat b + 128" by blast
qed

lemma rl_value_bound: "rl_value bs < 128 ^ length bs"
proof (induction bs)
  case (Cons b bs)
  have "unat b mod 128 \<le> 127" by simp
  with Cons show ?case by simp
qed simp

lemma encode_step_byte:
  fixes v :: u32
  defines "b \<equiv> ucast (v mod 128) :: u8"
  defines "c \<equiv> (if v div 128 > 0 then b OR 128 else b)"
  shows "unat c mod 128 = unat v mod 128"
    and "has_continue_flag c \<longleftrightarrow> 128 \<le> unat v"
proof -
  have b: "unat b = unat v mod 128"
    by (simp add: b_def unsigned_ucast_eq unat_mod take_bit_eq_mod)
  have pos: "v div 128 > 0 \<longleftrightarrow> 128 \<le> unat v"
    by (simp add: word_less_nat_alt unat_div div_greater_zero_iff)
  show "unat c mod 128 = unat v mod 128"
    using b by (simp add: c_def unat_or_128)
  show "has_continue_flag c \<longleftrightarrow> 128 \<le> unat v"
    using b pos by (simp add: c_def has_continue_flag_iff unat_or_128)
qed

section \<open>Encoding\<close>

lemma length_encode_loop [simp]: "length (encode_to_array_loop n v) = n"
  by (induction n arbitrary: v) (simp_all add: Let_def)

lemma rl_value_encode_loop: "unat v < 128 ^ n \<Longrightarrow> rl_value (encode_to_array_loop n v) = unat v"
proof (induction n arbitrary: v)
  case (Suc n)
  have "unat (v div 128) = unat v div 128" by (simp add: unat_div)
  moreover from Suc.prems have "unat v div 128 < 128 ^ n"
    by (simp add: less_mult_imp_div_less mult.commute)
  ultimately have "rl_value (encode_to_array_loop n (v div 128)) = unat v div 128"
    using Suc.IH by simp
  then show ?case
    using encode_step_byte(1) [of v] by (simp add: Let_def)
qed simp

lemma flags_encode_loop:
  "unat v < 128 ^ Suc n \<Longrightarrow> n = 0 \<or> 128 ^ n \<le> unat v \<Longrightarrow>
   list_all has_continue_flag (butlast (encode_to_array_loop (Suc n) v)) \<and>
   \<not> has_continue_flag (last (encode_to_array_loop (Suc n) v))"
proof (induction n arbitrary: v)
  case 0
  then show ?case using encode_step_byte(2) [of v] by (simp add: Let_def)
next
  case (Suc n)
  let ?w = "v div 128"
  have w: "unat ?w = unat v div 128" by (simp add: unat_div)
  have "unat ?w < 128 ^ Suc n"
    using Suc.prems(1) w by (simp add: less_mult_imp_div_less mult.commute)
  moreover have "128 ^ n \<le> unat ?w"
    using Suc.prems(2) w by (simp add: less_eq_div_iff_mult_less_eq mult.commute)
  ultimately have IH: "list_all has_continue_flag (butlast (encode_to_array_loop (Suc n) ?w)) \<and>
      \<not> has_continue_flag (last (encode_to_array_loop (Suc n) ?w))"
    using Suc.IH by blast
  have "(128::nat) \<le> 128 ^ Suc n" by simp
  also from Suc.prems(2) have "\<dots> \<le> unat v" by simp
  finally have "128 \<le> unat v" .
  moreover obtain x xs where "encode_to_array_loop (Suc n) ?w = x # xs"
    by (cases "encode_to_array_loop (Suc n) ?w") (simp_all add: Let_def)
  ultimately show ?case
    using IH encode_step_byte(2) [of v] by (simp only: encode_to_array_loop.simps(2) [of "Suc n" v]) (simp add: Let_def)
qed

lemma len_from_u32_Ok_iff:
  "len_from_u32 v = Ok n \<longleftrightarrow>
     n = 1 \<and> unat v \<le> 127 \<or> n = 2 \<and> 128 \<le> unat v \<and> unat v \<le> 16383 \<or>
     n = 3 \<and> 16384 \<le> unat v \<and> unat v \<le> 2097151 \<or>
     n = 4 \<and> 2097152 \<le> unat v \<and> unat v \<le> 268435455"
  by (auto simp: len_from_u32_def word_le_nat_alt)

lemma len_from_u32_total: "v \<le> 268435455 \<Longrightarrow> \<exists>n. len_from_u32 v = Ok n"
  by (auto simp: len_from_u32_def)

lemma len_from_u32_bounds:
  assumes "len_from_u32 v = Ok n"
  shows "1 \<le> n" "n \<le> 4" "unat v < 128 ^ n" "n = 1 \<or> 128 ^ (n - 1) \<le> unat v"
  using assms by (auto simp: len_from_u32_Ok_iff)

lemma length_rl_bytes: "len_from_u32 v = Ok n \<Longrightarrow> length (rl_bytes v) = n"
  by (simp add: rl_bytes_def)

lemma rl_value_rl_bytes: "v \<le> 268435455 \<Longrightarrow> rl_value (rl_bytes v) = unat v"
  using len_from_u32_total [of v] len_from_u32_bounds(3) [of v]
  by (auto simp: rl_bytes_def rl_value_encode_loop)

lemma rl_wf_rl_bytes: "v \<le> 268435455 \<Longrightarrow> rl_wf (rl_bytes v)"
proof -
  assume "v \<le> 268435455"
  then obtain n where n: "len_from_u32 v = Ok n" using len_from_u32_total by blast
  then obtain m where m: "n = Suc m" using len_from_u32_bounds(1) by (cases n) auto
  have "rl_bytes v = encode_to_array_loop (Suc m) v" by (simp add: rl_bytes_def n m)
  moreover have "encode_to_array_loop (Suc m) v \<noteq> []" by (simp add: Let_def)
  ultimately show "rl_wf (rl_bytes v)"
    using flags_encode_loop [of v m] len_from_u32_bounds [OF n] m
    by (simp del: encode_to_array_loop.simps add: rl_wf_def)
qed

section \<open>Writing\<close>

lemma write_sync_array_emits:
  "len_from_u32 v = Ok n \<Longrightarrow> emits (write_sync_array d n v) n (rl_bytes v)"
  unfolding write_sync_array_def encode_to_array_def rl_bytes_def
  by (auto intro!: emit_intro)

lemma RemainingLengthSlice_write_sync_eq:
  "len_from_u32 v = Ok n \<Longrightarrow> RemainingLengthSlice_write_sync d v = write_sync_array d n v"
  by (auto simp: RemainingLengthSlice_write_sync_def len_from_u32_def split: if_splits)

lemma RemainingLengthSlice_write_sync_emits [emit_intro]:
  "len_from_u32 v = Ok n \<Longrightarrow> emits (RemainingLengthSlice_write_sync d v) n (rl_bytes v)"
  by (simp add: RemainingLengthSlice_write_sync_eq write_sync_array_emits)

section \<open>Parsing\<close>

lemma takeWhile_wf:
  assumes "rl_wf bs"
  shows "takeWhile has_continue_flag (bs @ rest) = butlast bs"
proof -
  from assms obtain ys y where "bs = ys @ [y]" by (cases bs rule: rev_cases) (auto simp: rl_wf_def)
  with assms show ?thesis
    by (simp add: rl_wf_def list_all_iff takeWhile_tail takeWhile_append2)
qed

lemma count_continue_flags_wf:
  assumes "rl_wf bs"
  shows "count_continue_flags (bs @ rest) = Ok (length bs - 1)"
  using takeWhile_wf [OF assms, of rest] assms
  by (auto simp: rl_wf_def count_continue_flags_def RemainingLength_MAX_BYTES_def min_def Let_def)

lemma count_continue_flags_split:
  assumes "count_continue_flags buff = Ok n" "n < length buff"
  shows "rl_wf (take (n + 1) buff)"
proof -
  let ?t = "takeWhile has_continue_flag buff"
  from assms(1) have n: "n = length ?t" "n \<le> 3"
    by (auto simp: count_continue_flags_def Let_def RemainingLength_MAX_BYTES_def min_def
        split: if_splits)
  then have "take (n + 1) buff = ?t @ [buff ! n]"
    using assms(2) takeWhile_eq_take [of has_continue_flag buff] by (simp add: take_Suc_conv_app_nth)
  moreover have "\<not> has_continue_flag (buff ! n)"
    using assms(2) n nth_length_takeWhile by blast
  moreover have "list_all has_continue_flag ?t"
    by (auto simp: list_all_iff dest: set_takeWhileD)
  ultimately show ?thesis using n by (simp add: rl_wf_def)
qed

lemma RemainingLengthSlice_parse_wf [parse_simp]:
  assumes "rl_wf bs"
  shows "RemainingLengthSlice_parse d (bs @ rest) = Ok (\<lparr>rl_len = bs\<rparr>, rest)"
proof -
  from assms have l: "length bs \<le> 4" "bs \<noteq> []" by (simp_all add: rl_wf_def)
  then have "1 \<le> length bs" by (cases bs) auto
  moreover note count_continue_flags_wf [OF assms, of rest]
  moreover have "length bs - 1 \<le> 3" using l by simp
  ultimately show ?thesis using l
    by (simp add: RemainingLengthSlice_parse_def)
qed

lemma RemainingLengthSlice_parse_Ok:
  assumes "RemainingLengthSlice_parse d buff = Ok (x, rest)"
  shows "rl_wf (rl_len x) \<and> buff = rl_len x @ rest"
proof -
  from assms obtain n where n: "count_continue_flags buff = Ok n"
    and split: "split_at_checked (n + 1) buff = Some (rl_len x, rest)"
    by (auto simp: RemainingLengthSlice_parse_def)
  then have buff: "buff = rl_len x @ rest" and l: "length (rl_len x) = n + 1"
    by (simp_all add: split_at_checked_Some)
  then have "rl_wf (take (n + 1) buff)" by (intro count_continue_flags_split [OF n]) simp
  then show ?thesis using buff l by (metis append_eq_conv_conj)
qed

lemma RemainingLengthSlice_parse_iff:
  "RemainingLengthSlice_parse d buff = Ok (x, rest) \<longleftrightarrow>
     rl_wf (rl_len x) \<and> buff = rl_len x @ rest"
  using RemainingLengthSlice_parse_Ok RemainingLengthSlice_parse_wf
  by (metis RemainingLength.cases RemainingLength.select_convs(1))

lemma RemainingLengthSlice_parse_no_Panic: "RemainingLengthSlice_parse d buff \<noteq> Panic"
proof (cases "count_continue_flags buff")
  case (Ok n)
  then have "n \<le> 3" by (auto simp: count_continue_flags_def Let_def split: if_splits)
  then show ?thesis
    using Ok by (cases "split_at_checked (n + 1) buff")
      (auto simp: RemainingLengthSlice_parse_def split_at_checked_Some)
qed (simp_all add: RemainingLengthSlice_parse_def count_continue_flags_def Let_def split: if_splits)

text \<open>The one-byte form that \<open>FixedHeaderArray::<1>\<close> holds.\<close>

lemma RemainingLength_validate_single:
  "RemainingLength_validate \<lparr>rl_len = [b]\<rparr> =
     (if has_continue_flag b
      then Err (Error_new Invalid ''remaining length last byte continuation set'') else Ok ())"
  by (simp add: RemainingLength_validate_def)

lemma RemainingLength_validate_iff:
  "rl_len x \<noteq> [] \<Longrightarrow> RemainingLength_validate x = Ok () \<longleftrightarrow> rl_wf (rl_len x)"
  by (cases "rl_len x" rule: rev_cases) (auto simp: RemainingLength_validate_def rl_wf_def)

section \<open>Reading the value\<close>

lemma read_from_buf_no_Err: "read_from_buf d bs \<noteq> Err e"
proof -
  have "read_from_buf_loop dbg bs m acc \<noteq> Err e" for dbg m acc
    by (induction bs arbitrary: m acc) (auto simp: and_then_Err_iff word_mul_def word_add_def split: if_splits)
  then show ?thesis by (simp add: read_from_buf_def)
qed

lemma read_from_buf_loop_value:
  assumes "k + length bs \<le> 4" "unat m = 128 ^ k" "unat acc < 128 ^ k"
  shows "\<exists>r. read_from_buf_loop dbg bs m acc = Ok r \<and> unat r = unat acc + 128 ^ k * rl_value bs"
  using assms
proof (induction bs arbitrary: k m acc)
  case (Cons b bs)
  let ?x = "ucast (b AND VALUE_MASK) :: u32"
  have x: "unat ?x = unat b mod 128"
    by (simp add: unsigned_ucast_eq unat_value_mask take_bit_nat_eq_self)
  have k: "k \<le> 3" using Cons.prems by simp
  then have p: "(128::nat) ^ k \<le> 2097152" using power_increasing [of k 3 "128::nat"] by simp
  have xm: "unat ?x * unat m \<le> 127 * 128 ^ k"
    using x Cons.prems(2) by (simp add: mult_le_mono1)
  have m1: "unat ?x * unat m < 2 ^ 32" using xm p by simp
  have m2: "unat m * unat (128 :: u32) < 2 ^ 32" using p Cons.prems(2) by simp
  have xmu: "unat (?x * m) = unat ?x * unat m"
    using m1 unat_mult_lem [of ?x m] by simp
  have "unat acc + unat ?x * unat m < 2 ^ 32" using xm p Cons.prems(3) by simp
  then have a: "unat acc + unat (?x * m) < 2 ^ 32" by (simp only: xmu)
  have u: "unat (m * 128) = 128 ^ Suc k"
    using m2 Cons.prems(2) unat_mult_lem [of m 128] by simp
  have v: "unat (acc + ?x * m) = unat acc + unat ?x * 128 ^ k"
    using a unat_add_lem [of acc "?x * m"] xmu Cons.prems(2) by simp
  have "unat (acc + ?x * m) < 128 ^ Suc k"
    using v xm Cons.prems(3) unfolding power_Suc Cons.prems(2) by linarith
  from Cons.IH [of "Suc k" "m * 128" "acc + ?x * m", OF _ u this] Cons.prems(1)
  obtain r where r: "read_from_buf_loop dbg bs (m * 128) (acc + ?x * m) = Ok r"
    and "unat r = unat (acc + ?x * m) + 128 ^ Suc k * rl_value bs" by auto
  then have "unat r = unat acc + 128 ^ k * rl_value (b # bs)"
    unfolding v x by (simp add: algebra_simps)
  moreover have "read_from_buf_loop dbg (b # bs) m acc = Ok r"
    using m1 m2 a r by (simp add: word_mul_def word_add_def)
  ultimately show ?case by blast
qed simp

lemma read_len_loop_value:
  assumes "k + length bs \<le> 4" "acc < 128 ^ k"
  shows "read_len_loop dbg bs (128 ^ k) acc = Ok (acc + 128 ^ k * rl_value bs)"
  using assms
proof (induction bs arbitrary: k acc)
  case (Cons b bs)
  let ?x = "unat (b AND VALUE_MASK)"
  have x: "?x = unat b mod 128" by (rule unat_value_mask)
  have "k \<le> 3" using Cons.prems by simp
  then have p: "(128::nat) ^ k \<le> 2097152" using power_increasing [of k 3 "128::nat"] by simp
  have xm: "?x * 128 ^ k \<le> 127 * 128 ^ k" using x by (simp add: mult_le_mono1)
  have "read_len_loop dbg bs (128 ^ Suc k) (acc + ?x * 128 ^ k) =
      Ok (acc + ?x * 128 ^ k + 128 ^ Suc k * rl_value bs)"
  proof (rule Cons.IH)
    show "acc + ?x * 128 ^ k < 128 ^ Suc k"
      using Cons.prems(2) xm unfolding power_Suc by linarith
  qed (use Cons.prems(1) in simp)
  moreover have big: "acc + ?x * 128 ^ k \<le> usize_max"
    using xm p Cons.prems(2) unfolding usize_max_def by linarith
  moreover have "?x * 128 ^ k \<le> usize_max" "128 ^ k * 128 \<le> usize_max"
    using big p by (simp_all add: usize_max_def)
  ultimately have "read_len_loop dbg (b # bs) (128 ^ k) acc =
      Ok (acc + ?x * 128 ^ k + 128 ^ Suc k * rl_value bs)"
    by (simp add: usize_mul_eq usize_add_eq mult.commute)
  then show ?case by (simp add: x algebra_simps)
qed simp

lemma read_from_buf_value:
  assumes "length bs \<le> 4"
  shows "\<exists>r. read_from_buf d bs = Ok r \<and> unat r = rl_value bs"
  using read_from_buf_loop_value [of 0 bs 1 0] assms by (simp add: read_from_buf_def)

lemma RemainingLength_read_len_value [parse_simp]:
  "length (rl_len x) \<le> 4 \<Longrightarrow> RemainingLength_read_len d x = Ok (rl_value (rl_len x))"
  using read_len_loop_value [of 0 "rl_len x" 0] by (simp add: RemainingLength_read_len_def)

lemma RemainingLength_read_eq: "RemainingLength_read d x = read_from_buf d (rl_len x)"
  by (simp add: RemainingLength_read_def read_from_buf_def)

section \<open>The codec\<close>

interpretation remaining_length: codec crates_ok RemainingLengthSlice_parse
  "\<lambda>v. v \<le> 268435455" "\<lambda>d. rl_bytes" "\<lambda>v. \<lparr>rl_len = rl_bytes v\<rparr>"
proof unfold_locales
  show "\<exists>pre. pre \<noteq> [] \<and> buf = pre @ rest"
    if "RemainingLengthSlice_parse d buf = Ok (x, rest)" for d buf x rest
    using RemainingLengthSlice_parse_Ok [OF that] by (auto simp: rl_wf_def)
qed (simp add: RemainingLengthSlice_parse_wf rl_wf_rl_bytes)

section \<open>Correctness\<close>

text \<open>Encoding a remaining length within the MQTT limit puts one to four bytes on the wire,
  and decoding those bytes in front of any others gives back the same number.\<close>

lemma remaining_length_round_trip:
  assumes "v \<le> 268435455"
  shows "\<exists>n bs x. emits (RemainingLengthSlice_write_sync d v) n bs \<and>
    RemainingLengthSlice_encode_len v = Ok n \<and> length bs = n \<and> 1 \<le> n \<and> n \<le> 4 \<and>
    RemainingLengthSlice_parse d (bs @ rest) = Ok (x, rest) \<and>
    RemainingLength_read_len d x = Ok (unat v)"
proof -
  obtain n where n: "len_from_u32 v = Ok n" using len_from_u32_total [OF assms] by blast
  have wf: "rl_wf (rl_bytes v)" by (rule rl_wf_rl_bytes [OF assms])
  have "RemainingLength_read_len d \<lparr>rl_len = rl_bytes v\<rparr> = Ok (unat v)"
    using wf by (simp add: RemainingLength_read_len_value rl_wf_def rl_value_rl_bytes [OF assms])
  with n wf len_from_u32_bounds [OF n] show ?thesis
    by (intro exI [of _ n] exI [of _ "rl_bytes v"] exI [of _ "\<lparr>rl_len = rl_bytes v\<rparr>"])
      (simp add: RemainingLengthSlice_write_sync_emits RemainingLengthSlice_encode_len_def length_rl_bytes
        RemainingLengthSlice_parse_wf)
qed

text \<open>C22: The decoder accepts exactly the well-formed sequences: one to four bytes, the
  continuation flag on all but the last. It never panics, and its value, read at either width,
  is the little-endian base-128 value; no multiplication or addition on the way overflows.\<close>

theorem remaining_length_decode:
  shows "(RemainingLengthSlice_parse d buf = Ok (x, rest) \<longleftrightarrow> rl_wf (rl_len x) \<and> buf = rl_len x @ rest) \<and>
    RemainingLengthSlice_parse d buf \<noteq> Panic \<and>
    (RemainingLengthSlice_parse d buf = Ok (x, rest) \<longrightarrow>
       RemainingLength_read_len d x = Ok (rl_value (rl_len x)) \<and>
       (\<exists>r. RemainingLength_read d x = Ok r \<and> unat r = rl_value (rl_len x)) \<and>
       rl_value (rl_len x) \<le> 268435455)"
proof (intro conjI impI)
  assume "RemainingLengthSlice_parse d buf = Ok (x, rest)"
  then have l: "length (rl_len x) \<le> 4" by (simp add: RemainingLengthSlice_parse_iff rl_wf_def)
  then show "RemainingLength_read_len d x = Ok (rl_value (rl_len x))"
    by (rule RemainingLength_read_len_value)
  show "\<exists>r. RemainingLength_read d x = Ok r \<and> unat r = rl_value (rl_len x)"
    using read_from_buf_value [OF l] by (simp add: RemainingLength_read_eq)
  have "(128 :: nat) ^ length (rl_len x) \<le> 128 ^ 4" using l by (intro power_increasing) simp_all
  then show "rl_value (rl_len x) \<le> 268435455" using rl_value_bound [of "rl_len x"] by simp
qed (simp_all add: RemainingLengthSlice_parse_iff RemainingLengthSlice_parse_no_Panic)

theorem remaining_length_decode_witness:
  "RemainingLengthSlice_parse (std_crates True) [0xC1, 0x02, 9] = Ok (\<lparr>rl_len = [0xC1, 0x02]\<rparr>, [9]) \<and>
   RemainingLength_read_len (std_crates True) \<lparr>rl_len = [0xC1, 0x02]\<rparr> = Ok 321"
proof -
  have "rl_wf [0xC1, 0x02]" by (simp add: rl_wf_def has_continue_flag_iff)
  then show ?thesis
    using remaining_length_decode [of "std_crates True" "[0xC1, 0x02, 9]" "\<lparr>rl_len = [0xC1, 0x02]\<rparr>" "[9]"]
    by simp
qed

text \<open>A value above the limit is refused before anything is written.\<close>

lemma remaining_length_too_big:
  assumes "268435455 < v"
  shows "rejects (RemainingLengthSlice_write_sync d v) (Error_new OutOfRange ''remaining length'')"
proof -
  have "\<not> v \<le> 127" "\<not> v \<le> 16383" "\<not> v \<le> 2097151" "\<not> v \<le> 268435455"
    using assms by (simp_all add: word_le_nat_alt word_less_nat_alt)
  then show ?thesis by (simp add: RemainingLengthSlice_write_sync_def rejects_lift)
qed

end
