(* ===== verification/Fixed_Header.thy ===== *)
theory Fixed_Header
  imports Remaining_Length
begin

unbundle bit_operations_syntax

text \<open>
  The fixed header of every control packet (\<open>src/v3/packets/common/fixed/mod.rs\<close> and
  \<open>builder.rs\<close>): a type nibble, a flag nibble and the remaining length. \<open>FixedHeaderSlice\<close>
  carries a remaining length of one to four bytes, \<open>FixedHeaderArray::<N>\<close> one of \<open>N\<close>
  bytes. A value of the \<open>bitflags\<close> type \<open>TypeFlags\<close> is its bits.
\<close>

section \<open>Control packet types and flags\<close>

datatype ControlPacketType =
  Connect | ConnAck | Publish | PubAck | PubRec | PubRel | PubComp | Subscribe | SubAck
| Unsubscribe | UnsubAck | PingReq | PingResp | Disconnect

type_synonym TypeFlags = u8

definition PUBLISH_DUP :: TypeFlags where "PUBLISH_DUP = 0b1000"
definition PUBLISH_QOS_1 :: TypeFlags where "PUBLISH_QOS_1 = 0b0010"
definition PUBLISH_QOS_2 :: TypeFlags where "PUBLISH_QOS_2 = 0b0100"
definition PUBLISH_RETAIN :: TypeFlags where "PUBLISH_RETAIN = 0b0001"
definition TypeFlags_PUBREL :: TypeFlags where "TypeFlags_PUBREL = 0b0010"
definition TypeFlags_SUBSCRIBE :: TypeFlags where "TypeFlags_SUBSCRIBE = 0b0010"
definition TypeFlags_UNSUBSCRIBE :: TypeFlags where "TypeFlags_UNSUBSCRIBE = 0b0010"
definition TypeFlags_empty :: TypeFlags where "TypeFlags_empty = 0"
definition TypeFlags_all :: TypeFlags where "TypeFlags_all = 0b1111"

definition ControlPacketType_try_from :: "u8 \<Rightarrow> ControlPacketType res" where
  "ControlPacketType_try_from value =
     (if value = 1 then Ok Connect
      else if value = 2 then Ok ConnAck
      else if value = 3 then Ok Publish
      else if value = 4 then Ok PubAck
      else if value = 5 then Ok PubRec
      else if value = 6 then Ok PubRel
      else if value = 7 then Ok PubComp
      else if value = 8 then Ok Subscribe
      else if value = 9 then Ok SubAck
      else if value = 10 then Ok Unsubscribe
      else if value = 11 then Ok UnsubAck
      else if value = 12 then Ok PingReq
      else if value = 13 then Ok PingResp
      else if value = 14 then Ok Disconnect
      else Err (Error_new Invalid ''control packet type''))"

primrec u8_from_ControlPacketType :: "ControlPacketType \<Rightarrow> u8" where
  "u8_from_ControlPacketType Connect = 1"
| "u8_from_ControlPacketType ConnAck = 2"
| "u8_from_ControlPacketType Publish = 3"
| "u8_from_ControlPacketType PubAck = 4"
| "u8_from_ControlPacketType PubRec = 5"
| "u8_from_ControlPacketType PubRel = 6"
| "u8_from_ControlPacketType PubComp = 7"
| "u8_from_ControlPacketType Subscribe = 8"
| "u8_from_ControlPacketType SubAck = 9"
| "u8_from_ControlPacketType Unsubscribe = 10"
| "u8_from_ControlPacketType UnsubAck = 11"
| "u8_from_ControlPacketType PingReq = 12"
| "u8_from_ControlPacketType PingResp = 13"
| "u8_from_ControlPacketType Disconnect = 14"

definition validate_type_flags :: "crates \<Rightarrow> ControlPacketType \<Rightarrow> TypeFlags \<Rightarrow> unit res" where
  "validate_type_flags d pk_type flags =
     (case pk_type of
        Publish \<Rightarrow> Ok ()
      | PubRel \<Rightarrow>
          if flags \<noteq> TypeFlags_PUBREL then Err (Error_new Invalid ''pubrel flags'') else Ok ()
      | Subscribe \<Rightarrow>
          if flags \<noteq> TypeFlags_SUBSCRIBE then Err (Error_new Invalid ''subscribe flags'') else Ok ()
      | Unsubscribe \<Rightarrow>
          if flags \<noteq> TypeFlags_UNSUBSCRIBE then Err (Error_new Invalid ''unsubscribe flags'')
          else Ok ()
      | _ \<Rightarrow>
          if \<not> bf_is_empty d flags then Err (Error_new Invalid ''non empty flags'') else Ok ())"

definition encode_type_and_flags :: "ControlPacketType \<Rightarrow> TypeFlags \<Rightarrow> u8" where
  "encode_type_and_flags pk_type flags = push_bit 4 (u8_from_ControlPacketType pk_type) OR flags"

definition ControlPacketType_parse :: "crates \<Rightarrow> u8 \<Rightarrow> (ControlPacketType \<times> TypeFlags) res" where
  "ControlPacketType_parse d type_and_flags =
     and_then (ControlPacketType_try_from (drop_bit 4 type_and_flags)) (\<lambda>pk_type.
     and_then (ok_or (Error_new Invalid ''control packet flags'')
                 (bf_from_bits d TypeFlags_all (type_and_flags AND 0b00001111))) (\<lambda>flags.
     and_then (validate_type_flags d pk_type flags) (\<lambda>_.
     Ok (pk_type, flags))))"

section \<open>The header\<close>

record FixedHeader =
  type_and_flags :: u8
  remaining_length :: RemainingLength

definition FixedHeader_packet_type :: "FixedHeader \<Rightarrow> ControlPacketType res" where
  "FixedHeader_packet_type this =
     (case ControlPacketType_try_from (drop_bit 4 (type_and_flags this)) of
        Ok t \<Rightarrow> Ok t
      | _ \<Rightarrow> Panic)"

definition FixedHeader_flags :: "FixedHeader \<Rightarrow> TypeFlags" where
  "FixedHeader_flags this = type_and_flags this AND 0x0f"

definition FixedHeader_next_frame :: "crates \<Rightarrow> bytes \<Rightarrow> usize option res" where
  "FixedHeader_next_frame d buff0 =
     (case slice_from 1 buff0 of
        None \<Rightarrow> Ok None
      | Some buff \<Rightarrow>
          and_then (count_continue_flags buff) (\<lambda>flags.
          let rem_bytes = 1 + flags in
          case slice_upto rem_bytes buff of
            None \<Rightarrow> Ok None
          | Some buff \<Rightarrow>
              and_then (read_from_buf d buff) (\<lambda>value.
              and_then (if unat value \<le> usize_max then Ok (unat value)
                        else Err (Error_new OutOfRange ''remaining length as usize'')) (\<lambda>rem_len.
              and_then (ok_or (Error_new Overflow ''next frame'')
                          (checked_add (1 + rem_bytes) rem_len)) (\<lambda>n.
              Ok (Some n))))))"

section \<open>The builder\<close>

record FixedHeaderBuilder =
  fhb_packet_type :: ControlPacketType
  fhb_flags :: TypeFlags
  fhb_remaining_length :: u32

definition FixedHeaderBuilder_with_flags :: "ControlPacketType \<Rightarrow> TypeFlags \<Rightarrow> FixedHeaderBuilder" where
  "FixedHeaderBuilder_with_flags packet_type flags =
     \<lparr>fhb_packet_type = packet_type, fhb_flags = flags, fhb_remaining_length = 0\<rparr>"

definition default_flags :: "ControlPacketType \<Rightarrow> TypeFlags" where
  "default_flags packet_type =
     (case packet_type of
        PubRel \<Rightarrow> TypeFlags_PUBREL
      | Subscribe \<Rightarrow> TypeFlags_SUBSCRIBE
      | Unsubscribe \<Rightarrow> TypeFlags_UNSUBSCRIBE
      | _ \<Rightarrow> TypeFlags_empty)"

definition FixedHeaderBuilder_new :: "ControlPacketType \<Rightarrow> FixedHeaderBuilder" where
  "FixedHeaderBuilder_new packet_type =
     FixedHeaderBuilder_with_flags packet_type (default_flags packet_type)"

definition FixedHeaderBuilder_remaining_length ::
    "FixedHeaderBuilder \<Rightarrow> usize \<Rightarrow> FixedHeaderBuilder res" where
  "FixedHeaderBuilder_remaining_length this n =
     (if n < 2 ^ 32 then Ok (this\<lparr>fhb_remaining_length := word_of_nat n\<rparr>)
      else Err (Error_new OutOfRange ''remaining length''))"

section \<open>Validating and encoding\<close>

definition FixedHeaderSlice_validate_value :: "crates \<Rightarrow> FixedHeaderBuilder \<Rightarrow> unit res" where
  "FixedHeaderSlice_validate_value d value =
     and_then (validate_type_flags d (fhb_packet_type value) (fhb_flags value)) (\<lambda>_.
     and_then (RemainingLength_validate_value (fhb_remaining_length value)) (\<lambda>_.
     Ok ()))"

definition FixedHeaderArray_validate_value ::
    "crates \<Rightarrow> nat \<Rightarrow> FixedHeaderBuilder \<Rightarrow> FixedHeader res" where
  "FixedHeaderArray_validate_value d n value =
     and_then (validate_type_flags d (fhb_packet_type value) (fhb_flags value)) (\<lambda>_.
     and_then (RemainingLength_validate_value (fhb_remaining_length value)) (\<lambda>_.
     and_then (encode_to_array d n (fhb_remaining_length value)) (\<lambda>len.
     Ok \<lparr>type_and_flags = encode_type_and_flags (fhb_packet_type value) (fhb_flags value),
         remaining_length = \<lparr>rl_len = len\<rparr>\<rparr>)))"

definition FixedHeader_validate :: "crates \<Rightarrow> FixedHeader \<Rightarrow> unit res" where
  "FixedHeader_validate d this =
     and_then (ControlPacketType_parse d (type_and_flags this)) (\<lambda>_.
     and_then (RemainingLength_validate (remaining_length this)) (\<lambda>_.
     Ok ()))"

definition FixedHeaderSlice_encode_len :: "FixedHeaderBuilder \<Rightarrow> usize res" where
  "FixedHeaderSlice_encode_len value =
     and_then (RemainingLengthSlice_encode_len (fhb_remaining_length value)) (\<lambda>size.
     ok_or (Error_new Overflow ''fixed header encode len'') (checked_add size 1))"

definition FixedHeaderSlice_write_sync :: "crates \<Rightarrow> FixedHeaderBuilder \<Rightarrow> usize wr" where
  "FixedHeaderSlice_write_sync d value =
     w_then (w_lift (FixedHeaderSlice_validate_value d value)) (\<lambda>_.
     w_then (w_lift (FixedHeaderSlice_encode_len value)) (\<lambda>to_write.
     w_then (write_all ''writing fixed header type and flags''
               [encode_type_and_flags (fhb_packet_type value) (fhb_flags value)]) (\<lambda>_.
     w_then (RemainingLengthSlice_write_sync d (fhb_remaining_length value)) (\<lambda>_.
     w_lift (Ok to_write)))))"

definition FixedHeaderArray_encode_len :: "nat \<Rightarrow> FixedHeaderBuilder \<Rightarrow> usize res" where
  "FixedHeaderArray_encode_len n value = Ok (1 + n)"

definition FixedHeaderArray_write_sync :: "crates \<Rightarrow> nat \<Rightarrow> FixedHeaderBuilder \<Rightarrow> usize wr" where
  "FixedHeaderArray_write_sync d n value =
     w_then (w_lift (FixedHeaderArray_validate_value d n value)) (\<lambda>this.
     w_then (write_all ''writing fixed header''
               (type_and_flags this # rl_len (remaining_length this))) (\<lambda>_.
     w_lift (Ok (1 + n))))"

definition FixedHeaderBuilder_write_sync :: "crates \<Rightarrow> FixedHeaderBuilder \<Rightarrow> usize wr" where
  "FixedHeaderBuilder_write_sync d this = FixedHeaderSlice_write_sync d this"

section \<open>Decoding\<close>

definition FixedHeaderSlice_parse :: "crates \<Rightarrow> bytes \<Rightarrow> (FixedHeader \<times> bytes) res" where
  "FixedHeaderSlice_parse d buf =
     and_then (ok_or (Error_new NotEnoughSpace ''fixed header'') (zc_ref_from_bytes d 1 buf))
       (\<lambda>(leading, trailing).
     and_then (ControlPacketType_parse d (leading ! 0)) (\<lambda>(_, _).
     and_then (RemainingLengthSlice_parse d trailing) (\<lambda>(remaining_length, rest).
     and_then (ok_or (Error_new NotEnoughSpace ''fixed header split after remaining length'')
                 (zc_split_at d (length (rl_len remaining_length)) trailing)) (\<lambda>(this, _).
     Ok (\<lparr>type_and_flags = leading ! 0, remaining_length = \<lparr>rl_len = this\<rparr>\<rparr>, rest)))))"

definition FixedHeaderArray_parse :: "crates \<Rightarrow> nat \<Rightarrow> bytes \<Rightarrow> (FixedHeader \<times> bytes) res" where
  "FixedHeaderArray_parse d n buf =
     and_then (ok_or (Error_new NotEnoughSpace ''fixed header'') (zc_ref_from_prefix d (1 + n) buf))
       (\<lambda>(bs, rest).
     let this = \<lparr>type_and_flags = bs ! 0, remaining_length = \<lparr>rl_len = drop 1 bs\<rparr>\<rparr> in
     and_then (FixedHeader_validate d this) (\<lambda>_.
     Ok (this, rest)))"

section \<open>The type and flag byte\<close>

text \<open>The flags MQTT permits with each packet type; all fit in the low nibble.\<close>

definition flags_ok :: "ControlPacketType \<Rightarrow> TypeFlags \<Rightarrow> bool" where
  "flags_ok t f \<longleftrightarrow>
     (case t of
        Publish \<Rightarrow> f AND NOT TypeFlags_all = 0
      | PubRel \<Rightarrow> f = TypeFlags_PUBREL
      | Subscribe \<Rightarrow> f = TypeFlags_SUBSCRIBE
      | Unsubscribe \<Rightarrow> f = TypeFlags_UNSUBSCRIBE
      | _ \<Rightarrow> f = TypeFlags_empty)"

lemma flags_ok_nibble: "flags_ok t f \<Longrightarrow> f AND NOT TypeFlags_all = 0"
  by (cases t)
    (auto simp: flags_ok_def TypeFlags_all_def TypeFlags_PUBREL_def TypeFlags_SUBSCRIBE_def
      TypeFlags_UNSUBSCRIBE_def TypeFlags_empty_def)

lemma flags_ok_default [simp]: "flags_ok t (default_flags t)"
  by (cases t) (simp_all add: flags_ok_def default_flags_def TypeFlags_empty_def)

lemma validate_type_flags_iff:
  assumes "crates_ok d" "f AND NOT TypeFlags_all = 0"
  shows "validate_type_flags d t f = Ok () \<longleftrightarrow> flags_ok t f"
  using assms by (cases t) (auto simp: validate_type_flags_def flags_ok_def crate_law TypeFlags_empty_def)

lemma nibble_take_bit: "f AND NOT TypeFlags_all = 0 \<Longrightarrow> take_bit 4 f = (f :: u8)"
proof -
  assume a: "f AND NOT TypeFlags_all = 0"
  have "TypeFlags_all = mask 4" by (simp add: TypeFlags_all_def mask_eq_exp_minus_1)
  then have "f = f AND mask 4"
    using a by (metis and.right_neutral bit.conj_cancel_right bit.conj_disj_distrib bit.disj_cancel_right or.right_neutral)
  then show "take_bit 4 f = f" by (simp add: take_bit_eq_mask)
qed

lemma nibbles:
  fixes t f :: u8
  assumes "take_bit 4 f = f" "unat t < 16"
  shows "drop_bit 4 (push_bit 4 t OR f) = t" and "(push_bit 4 t OR f) AND 15 = f"
proof -
  have t: "take_bit 4 t = t"
  proof (rule word_unat_eq_iff [THEN iffD2])
    have "unat (take_bit 4 t) = unat t mod 16"
      by (simp only: unsigned_take_bit_eq) (simp add: take_bit_eq_mod)
    then show "unat (take_bit 4 t) = unat t" using assms(2) by simp
  qed
  show "drop_bit 4 (push_bit 4 t OR f) = t"
  proof (rule bit_word_eqI)
    fix n
    have "bit t n \<Longrightarrow> n < 4" "\<not> bit f (4 + n)"
      using t assms(1) by (metis bit_take_bit_iff, metis bit_take_bit_iff not_add_less1)
    then show "bit (drop_bit 4 (push_bit 4 t OR f)) n = bit t n"
      by (auto simp: bit_simps)
  qed
  have m: "(15::u8) = mask 4" by (simp add: mask_eq_exp_minus_1)
  have "(push_bit 4 t OR f) AND 15 = take_bit 4 (push_bit 4 t OR f)"
    by (simp only: m take_bit_eq_mask)
  also have "\<dots> = take_bit 4 f" by (simp add: take_bit_or take_bit_push_bit)
  finally show "(push_bit 4 t OR f) AND 15 = f" by (simp only: assms(1))
qed

lemma u8_from_ControlPacketType_bound: "unat (u8_from_ControlPacketType t) < 16"
  by (cases t) simp_all

lemma ControlPacketType_try_from_iff:
  "ControlPacketType_try_from v = Ok t \<longleftrightarrow> v = u8_from_ControlPacketType t"
  by (cases t) (auto simp: ControlPacketType_try_from_def)

lemma encode_type_and_flags_split [simp]:
  assumes "flags_ok t f"
  shows "drop_bit 4 (encode_type_and_flags t f) = u8_from_ControlPacketType t"
    and "encode_type_and_flags t f AND 15 = f"
  using nibbles [OF nibble_take_bit [OF flags_ok_nibble [OF assms]] u8_from_ControlPacketType_bound]
  by (simp_all add: encode_type_and_flags_def)

lemma split_nibbles: "push_bit 4 (drop_bit 4 b) OR (b AND 15) = (b :: u8)"
proof -
  have m: "(15::u8) = mask 4" by (simp add: mask_eq_exp_minus_1)
  show ?thesis by (rule bit_word_eqI) (auto simp: m bit_simps)
qed

lemma ControlPacketType_parse_encode [parse_simp]:
  assumes "crates_ok d" "flags_ok t f"
  shows "ControlPacketType_parse d (encode_type_and_flags t f) = Ok (t, f)"
  using assms flags_ok_nibble [OF assms(2)]
  by (simp add: ControlPacketType_parse_def ControlPacketType_try_from_iff crate_law
      validate_type_flags_iff)

lemma ControlPacketType_parse_iff:
  assumes "crates_ok d"
  shows "ControlPacketType_parse d b = Ok (t, f) \<longleftrightarrow> flags_ok t f \<and> b = encode_type_and_flags t f"
proof
  assume "ControlPacketType_parse d b = Ok (t, f)"
  then have t: "drop_bit 4 b = u8_from_ControlPacketType t"
    and f: "f = b AND 15" "f AND NOT TypeFlags_all = 0" and v: "validate_type_flags d t f = Ok ()"
    using assms
    by (auto simp: ControlPacketType_parse_def ControlPacketType_try_from_iff crate_law
        split: if_splits)
  have "b = encode_type_and_flags t f"
    using split_nibbles [of b] t f(1) by (simp add: encode_type_and_flags_def)
  with v f(2) assms show "flags_ok t f \<and> b = encode_type_and_flags t f"
    by (simp add: validate_type_flags_iff)
qed (use assms in \<open>simp add: ControlPacketType_parse_encode\<close>)

lemma ControlPacketType_parse_no_Panic: "ControlPacketType_parse d b \<noteq> Panic"
  by (auto simp: ControlPacketType_parse_def ControlPacketType_try_from_def validate_type_flags_def
      and_then_Panic_iff split: if_splits ControlPacketType.splits)

section \<open>The bytes of a header\<close>

definition frame_header :: "ControlPacketType \<Rightarrow> TypeFlags \<Rightarrow> nat \<Rightarrow> bytes" where
  "frame_header t f n = encode_type_and_flags t f # rl_bytes (word_of_nat n)"

definition header_of :: "ControlPacketType \<Rightarrow> TypeFlags \<Rightarrow> nat \<Rightarrow> FixedHeader" where
  "header_of t f n =
     \<lparr>type_and_flags = encode_type_and_flags t f,
      remaining_length = \<lparr>rl_len = rl_bytes (word_of_nat n)\<rparr>\<rparr>"

abbreviation max_remaining :: nat where
  "max_remaining \<equiv> 268435455"

lemma word_of_remaining:
  assumes "n \<le> max_remaining"
  shows "(word_of_nat n :: u32) \<le> 268435455" and "unat (word_of_nat n :: u32) = n"
proof -
  from assms show u: "unat (word_of_nat n :: u32) = n" by (simp add: unat_of_nat)
  with assms show "(word_of_nat n :: u32) \<le> 268435455" by (simp add: word_le_nat_alt)
qed

lemma FixedHeader_packet_type_encode [simp]:
  "flags_ok t f \<Longrightarrow> type_and_flags h = encode_type_and_flags t f \<Longrightarrow> FixedHeader_packet_type h = Ok t"
  by (simp add: FixedHeader_packet_type_def ControlPacketType_try_from_iff [THEN iffD2])

lemma FixedHeader_flags_encode [simp]:
  "flags_ok t f \<Longrightarrow> type_and_flags h = encode_type_and_flags t f \<Longrightarrow> FixedHeader_flags h = f"
  by (simp add: FixedHeader_flags_def)

lemma header_of_simps [simp]:
  assumes "flags_ok t f"
  shows "FixedHeader_packet_type (header_of t f n) = Ok t"
    and "FixedHeader_flags (header_of t f n) = f"
  using assms by (simp_all add: header_of_def)

lemma read_len_header_of [simp]:
  assumes "n \<le> max_remaining"
  shows "RemainingLength_read_len d (remaining_length (header_of t f n)) = Ok n"
  using rl_wf_rl_bytes [OF word_of_remaining(1) [OF assms]]
    rl_value_rl_bytes [OF word_of_remaining(1) [OF assms]] word_of_remaining(2) [OF assms]
  by (simp add: header_of_def RemainingLength_read_len_value rl_wf_def)

section \<open>Decoding headers\<close>

lemma FixedHeaderSlice_parse_iff:
  assumes "crates_ok d"
  shows "FixedHeaderSlice_parse d buf = Ok (h, rest) \<longleftrightarrow>
    (\<exists>t f. flags_ok t f \<and> type_and_flags h = encode_type_and_flags t f) \<and>
    rl_wf (rl_len (remaining_length h)) \<and>
    buf = type_and_flags h # rl_len (remaining_length h) @ rest"
    (is "?L \<longleftrightarrow> ?R")
proof (cases buf)
  case (Cons b bs)
  show ?thesis
  proof
    assume ?L
    then obtain rl where
      t: "\<exists>t f. ControlPacketType_parse d b = Ok (t, f)"
      and rl: "RemainingLengthSlice_parse d bs = Ok (rl, rest)"
      and h: "h = \<lparr>type_and_flags = b, remaining_length = \<lparr>rl_len = take (length (rl_len rl)) bs\<rparr>\<rparr>"
      using assms Cons
      by (auto simp: FixedHeaderSlice_parse_def crate_law split: if_splits)
    from RemainingLengthSlice_parse_Ok [OF rl] t h assms Cons show ?R
      by (auto simp: ControlPacketType_parse_iff)
  next
    assume R: ?R
    then obtain t f where t: "flags_ok t f" "type_and_flags h = encode_type_and_flags t f" by blast
    obtain l where l: "remaining_length h = \<lparr>rl_len = l\<rparr>" by (cases "remaining_length h") simp
    from R l Cons have bs: "b = encode_type_and_flags t f" "bs = l @ rest" "rl_wf l"
      using t by simp_all
    have "h = \<lparr>type_and_flags = b, remaining_length = \<lparr>rl_len = l\<rparr>\<rparr>"
      using t l bs(1) by (cases h) simp
    with bs t assms Cons show ?L
      by (simp add: FixedHeaderSlice_parse_def crate_law parse_simp)
  qed
qed (use assms in \<open>simp add: FixedHeaderSlice_parse_def crate_law\<close>)

lemma FixedHeaderSlice_parse_header [parse_simp]:
  assumes "crates_ok d" "flags_ok t f" "n \<le> max_remaining"
  shows "FixedHeaderSlice_parse d (frame_header t f n @ rest) = Ok (header_of t f n, rest)"
  using assms rl_wf_rl_bytes [OF word_of_remaining(1)]
  by (auto simp: FixedHeaderSlice_parse_iff frame_header_def header_of_def)

lemma FixedHeaderSlice_parse_no_Panic: "crates_ok d \<Longrightarrow> FixedHeaderSlice_parse d buf \<noteq> Panic"
  by (auto simp: FixedHeaderSlice_parse_def crate_law and_then_Panic_iff
      ControlPacketType_parse_no_Panic RemainingLengthSlice_parse_no_Panic split: if_splits)

lemma FixedHeaderArray_parse_iff:
  assumes "crates_ok d"
  shows "FixedHeaderArray_parse d 1 buf = Ok (h, rest) \<longleftrightarrow>
    (\<exists>t f l. flags_ok t f \<and> \<not> has_continue_flag l \<and> buf = encode_type_and_flags t f # l # rest \<and>
       h = \<lparr>type_and_flags = encode_type_and_flags t f, remaining_length = \<lparr>rl_len = [l]\<rparr>\<rparr>)"
  using assms
  by (cases buf; cases "tl buf")
    (auto simp: FixedHeaderArray_parse_def crate_law FixedHeader_validate_def Let_def
      RemainingLength_validate_single ControlPacketType_parse_iff numeral_2_eq_2 split: if_splits)

lemma FixedHeaderArray_parse_no_Panic: "crates_ok d \<Longrightarrow> FixedHeaderArray_parse d 1 buf \<noteq> Panic"
  by (auto simp: FixedHeaderArray_parse_def crate_law and_then_Panic_iff Let_def
      FixedHeader_validate_def RemainingLength_validate_def ControlPacketType_parse_no_Panic
      split: if_splits list.splits)

lemma frame_header_short:
  "n \<le> 127 \<Longrightarrow> frame_header t f n = [encode_type_and_flags t f, word_of_nat n]"
  by (auto simp: frame_header_def rl_bytes_def len_from_u32_def word_le_nat_alt Let_def unat_of_nat
      word_less_nat_alt unat_div word_unat_eq_iff unsigned_ucast_eq unat_mod take_bit_eq_mod)

lemma FixedHeaderArray_parse_header:
  assumes "crates_ok d" "flags_ok t f" "n \<le> 127"
  shows "FixedHeaderArray_parse d 1 (frame_header t f n @ rest) = Ok (header_of t f n, rest)"
proof -
  have l: "rl_bytes (word_of_nat n) = [word_of_nat n]"
    using frame_header_short [OF assms(3), of t f] by (simp add: frame_header_def)
  have "\<not> has_continue_flag (word_of_nat n)"
    using assms(3) by (simp add: has_continue_flag_iff unat_of_nat)
  with assms l show ?thesis
    by (auto simp: FixedHeaderArray_parse_iff [unfolded One_nat_def] frame_header_def header_of_def)
qed

lemmas FixedHeaderArray_parse_simps =
  FixedHeaderArray_parse_header [unfolded One_nat_def]
  FixedHeaderArray_parse_iff [unfolded One_nat_def]
  FixedHeaderArray_parse_no_Panic [unfolded One_nat_def]

declare FixedHeaderArray_parse_header [unfolded One_nat_def, parse_simp]

section \<open>Writing headers\<close>

lemma length_frame_header:
  assumes "n \<le> max_remaining"
  shows "\<exists>k. len_from_u32 (word_of_nat n) = Ok k \<and> length (frame_header t f n) = k + 1 \<and> k \<le> 4"
proof -
  obtain k where "len_from_u32 (word_of_nat n) = Ok k"
    using len_from_u32_total [OF word_of_remaining(1) [OF assms]] by blast
  then show ?thesis
    using len_from_u32_bounds(2) by (simp add: frame_header_def length_rl_bytes)
qed

lemma length_frame_header_bounds:
  assumes "n \<le> max_remaining"
  shows "2 \<le> length (frame_header t f n)" "length (frame_header t f n) \<le> 5"
proof -
  obtain k where k: "len_from_u32 (word_of_nat n) = Ok k" "length (frame_header t f n) = k + 1" "k \<le> 4"
    using length_frame_header [OF assms] by blast
  with len_from_u32_bounds(1) [OF k(1)]
  show "2 \<le> length (frame_header t f n)" "length (frame_header t f n) \<le> 5" by simp_all
qed

lemma FixedHeaderSlice_write_sync_emits:
  assumes "crates_ok d" "flags_ok t f" "n \<le> max_remaining"
  shows "emits (FixedHeaderSlice_write_sync d
      \<lparr>fhb_packet_type = t, fhb_flags = f, fhb_remaining_length = word_of_nat n\<rparr>)
      (length (frame_header t f n)) (frame_header t f n)"
proof -
  obtain k where k: "len_from_u32 (word_of_nat n) = Ok k" "length (frame_header t f n) = k + 1" "k \<le> 4"
    using length_frame_header [OF assms(3)] by blast
  have v: "FixedHeaderSlice_validate_value d
      \<lparr>fhb_packet_type = t, fhb_flags = f, fhb_remaining_length = word_of_nat n\<rparr> = Ok ()"
    using assms k by (simp add: FixedHeaderSlice_validate_value_def RemainingLength_validate_value_def
        validate_type_flags_iff flags_ok_nibble)
  have e: "FixedHeaderSlice_encode_len
      \<lparr>fhb_packet_type = t, fhb_flags = f, fhb_remaining_length = word_of_nat n\<rparr> = Ok (k + 1)"
    using k by (simp add: FixedHeaderSlice_encode_len_def RemainingLengthSlice_encode_len_def
        checked_add_def usize_max_def)
  show ?thesis
    unfolding FixedHeaderSlice_write_sync_def v e w_then_lift_Ok k(2)
    by (auto intro!: emit_intro simp: k frame_header_def)
qed

text \<open>The header as the packet encoders write it: the remaining length is set, then written.\<close>

lemma frame_header_emits:
  assumes "crates_ok d" "flags_ok t f" "n \<le> max_remaining"
  shows "emits (w_then (w_lift (FixedHeaderBuilder_remaining_length
        (FixedHeaderBuilder_with_flags t f) n)) (FixedHeaderBuilder_write_sync d))
      (length (frame_header t f n)) (frame_header t f n)"
proof -
  have "n < 2 ^ 32" using assms(3) by simp
  then show ?thesis
    using FixedHeaderSlice_write_sync_emits [OF assms]
    by (simp add: FixedHeaderBuilder_remaining_length_def FixedHeaderBuilder_with_flags_def
        FixedHeaderBuilder_write_sync_def)
qed

lemma frame_header_then_emits:
  assumes "crates_ok d" "flags_ok t f" "n \<le> max_remaining"
    and "emits (k (length (frame_header t f n))) v ys" and "zs = frame_header t f n @ ys"
  shows "emits (w_then (w_lift (FixedHeaderBuilder_remaining_length
        (FixedHeaderBuilder_with_flags t f) n)) (\<lambda>b. w_then (FixedHeaderBuilder_write_sync d b) k)) v zs"
proof -
  have "n < 2 ^ 32" using assms(3) by simp
  then show ?thesis
    using FixedHeaderSlice_write_sync_emits [OF assms(1-3)] assms(4,5)
    by (auto simp: FixedHeaderBuilder_remaining_length_def FixedHeaderBuilder_with_flags_def
        FixedHeaderBuilder_write_sync_def intro: emits_then)
qed

lemma frame_header_new_then_emits:
  assumes "crates_ok d" "n \<le> max_remaining"
    and "emits (k (length (frame_header t (default_flags t) n))) v ys"
    and "zs = frame_header t (default_flags t) n @ ys"
  shows "emits (w_then (w_lift (FixedHeaderBuilder_remaining_length (FixedHeaderBuilder_new t) n))
      (\<lambda>b. w_then (FixedHeaderBuilder_write_sync d b) k)) v zs"
  using assms unfolding FixedHeaderBuilder_new_def
  by (intro frame_header_then_emits flags_ok_default)

text \<open>A header with no remaining bytes, written without setting the length.\<close>

lemma frame_header_new_emits:
  assumes "crates_ok d"
  shows "emits (FixedHeaderBuilder_write_sync d (FixedHeaderBuilder_new t))
      (length (frame_header t (default_flags t) 0)) (frame_header t (default_flags t) 0)"
  using FixedHeaderSlice_write_sync_emits [OF assms flags_ok_default, of 0 t]
  by (simp add: FixedHeaderBuilder_new_def FixedHeaderBuilder_with_flags_def
      FixedHeaderBuilder_write_sync_def)

lemma encode_type_and_flags_inject:
  assumes "flags_ok t f" "flags_ok t' f'" "encode_type_and_flags t f = encode_type_and_flags t' f'"
  shows "t = t' \<and> f = f'"
proof -
  have "ControlPacketType_parse (std_crates True) (encode_type_and_flags t f) = Ok (t, f)"
    and "ControlPacketType_parse (std_crates True) (encode_type_and_flags t' f') = Ok (t', f')"
    using assms(1,2) by (simp_all add: ControlPacketType_parse_encode)
  with assms(3) have "Ok (t, f) = (Ok (t', f') :: (ControlPacketType \<times> TypeFlags) res)" by metis
  then show ?thesis by simp
qed

text \<open>The header that a parser finds has the type of its first byte.\<close>

lemma FixedHeaderSlice_parse_type:
  assumes "crates_ok d" "ControlPacketType_parse d b = Ok (t, f)"
    and "FixedHeaderSlice_parse d (b # bs) = Ok (h, rest)"
  shows "FixedHeader_packet_type h = Ok t \<and> FixedHeader_flags h = f"
  using assms by (auto simp: ControlPacketType_parse_iff FixedHeaderSlice_parse_iff)

lemma FixedHeaderArray_parse_type:
  assumes "crates_ok d" "ControlPacketType_parse d b = Ok (t, f)"
    and "FixedHeaderArray_parse d 1 (b # bs) = Ok (h, rest)"
  shows "FixedHeader_packet_type h = Ok t"
  using assms
  by (auto simp: ControlPacketType_parse_iff FixedHeaderArray_parse_simps
      dest: encode_type_and_flags_inject)

text \<open>A header and the body it announces, split off the buffer as the packet parsers do.\<close>

definition framed :: "FixedHeader \<Rightarrow> bytes \<Rightarrow> bool" where
  "framed h body \<longleftrightarrow>
     (\<exists>t f. flags_ok t f \<and> type_and_flags h = encode_type_and_flags t f) \<and>
     rl_wf (rl_len (remaining_length h)) \<and> rl_value (rl_len (remaining_length h)) = length body"

definition header_bytes :: "FixedHeader \<Rightarrow> bytes" where
  "header_bytes h = type_and_flags h # rl_len (remaining_length h)"

lemma header_bytes_not_Nil [simp]: "header_bytes h \<noteq> []"
  by (simp add: header_bytes_def)

lemma FixedHeaderSlice_parse_split:
  assumes "crates_ok d" "FixedHeaderSlice_parse d buf = Ok (h, rest)"
    and "RemainingLength_read_len d (remaining_length h) = Ok n"
    and "split_at_checked n rest = Some (body, rem)"
  shows "framed h body \<and> buf = header_bytes h @ body @ rem"
proof -
  from assms(1,2) have h: "\<exists>t f. flags_ok t f \<and> type_and_flags h = encode_type_and_flags t f"
    "rl_wf (rl_len (remaining_length h))" "buf = header_bytes h @ rest"
    by (simp_all add: FixedHeaderSlice_parse_iff header_bytes_def)
  moreover from assms(3) h(2) have "n = rl_value (rl_len (remaining_length h))"
    by (cases "remaining_length h") (simp add: RemainingLength_read_len_value rl_wf_def)
  moreover from assms(4) have "rest = body @ rem" "length body = n"
    by (auto simp: split_at_checked_def split: if_splits)
  ultimately show ?thesis by (simp add: framed_def)
qed

lemma framed_bound: "framed h body \<Longrightarrow> length body \<le> max_remaining"
proof -
  assume f: "framed h body"
  let ?l = "rl_len (remaining_length h)"
  from f have "length ?l \<le> 4" and v: "rl_value ?l = length body" by (simp_all add: framed_def rl_wf_def)
  then have "128 ^ length ?l \<le> (128 :: nat) ^ 4" by (intro power_increasing) simp_all
  with rl_value_bound [of ?l] v show ?thesis by simp
qed

lemma FixedHeaderSlice_read_len:
  assumes "crates_ok d" "FixedHeaderSlice_parse d buf = Ok (h, rest)"
  shows "\<exists>n. RemainingLength_read_len d (remaining_length h) = Ok n"
  using assms
  by (cases "remaining_length h") (auto simp: FixedHeaderSlice_parse_iff RemainingLength_read_len_value rl_wf_def)

section \<open>Framing\<close>

lemma FixedHeader_next_frame_wf [parse_simp]:
  assumes "rl_wf bs"
  shows "FixedHeader_next_frame d (b # bs @ rest) = Ok (Some (1 + length bs + rl_value bs))"
proof -
  from assms have l: "bs \<noteq> []" "length bs \<le> 4" by (simp_all add: rl_wf_def)
  obtain r where r: "read_from_buf d bs = Ok r" "unat r = rl_value bs"
    using read_from_buf_value [OF l(2)] by blast
  have "unat r < 2 ^ LENGTH(32)" by (rule unsigned_less)
  then have "unat r \<le> usize_max" "1 + length bs + unat r \<le> usize_max"
    using l(2) by (simp_all add: usize_max_def)
  then show ?thesis
    using r l count_continue_flags_wf [OF assms, of rest]
    by (cases "length bs")
      (simp_all add: FixedHeader_next_frame_def slice_from_def slice_upto_def checked_add_def Let_def)
qed

lemma FixedHeader_next_frame_Some:
  "FixedHeader_next_frame d buf = Ok (Some n) \<longleftrightarrow>
     (\<exists>b bs rest. buf = b # bs @ rest \<and> rl_wf bs \<and> n = 1 + length bs + rl_value bs)"
proof
  assume nf: "FixedHeader_next_frame d buf = Ok (Some n)"
  then obtain b bs where buf: "buf = b # bs"
    by (cases buf) (auto simp: FixedHeader_next_frame_def slice_from_def)
  with nf obtain k where k: "count_continue_flags bs = Ok k" "k < length bs"
    by (auto simp: FixedHeader_next_frame_def slice_from_def slice_upto_def Let_def split: if_splits)
  then have "rl_wf (take (k + 1) bs)" by (rule count_continue_flags_split)
  moreover have "buf = b # take (k + 1) bs @ drop (k + 1) bs" using buf by simp
  moreover have "n = 1 + length (take (k + 1) bs) + rl_value (take (k + 1) bs)"
    using nf FixedHeader_next_frame_wf [OF \<open>rl_wf (take (k + 1) bs)\<close>, of d b "drop (k + 1) bs"] buf
    by simp
  ultimately show "\<exists>b bs rest. buf = b # bs @ rest \<and> rl_wf bs \<and> n = 1 + length bs + rl_value bs"
    by blast
qed (auto simp: FixedHeader_next_frame_wf)

lemma FixedHeader_next_frame_None:
  "FixedHeader_next_frame d buf = Ok None \<longleftrightarrow>
     buf = [] \<or> (list_all has_continue_flag (tl buf) \<and> length buf \<le> 4)"
proof (cases buf)
  case (Cons b bs)
  show ?thesis
  proof (cases "list_all has_continue_flag bs")
    case True
    then have t: "takeWhile has_continue_flag bs = bs" by (simp add: list_all_iff)
    from True Cons show ?thesis
      by (auto simp: t FixedHeader_next_frame_def slice_from_def slice_upto_def Let_def
          count_continue_flags_def RemainingLength_MAX_BYTES_def)
  next
    case False
    have "FixedHeader_next_frame d buf \<noteq> Ok None"
    proof
      assume nf: "FixedHeader_next_frame d buf = Ok None"
      then obtain k where k: "count_continue_flags bs = Ok k" "\<not> k < length bs"
        using Cons by (auto simp: FixedHeader_next_frame_def slice_from_def slice_upto_def Let_def
            split: if_splits)
      then have "length bs \<le> length (takeWhile has_continue_flag bs)"
        by (auto simp: count_continue_flags_def Let_def split: if_splits)
      then have "takeWhile has_continue_flag bs = bs"
        by (metis length_takeWhile_le le_antisym takeWhile_eq_take take_all)
      with False show False by (metis list_all_iff takeWhile_eq_all_conv)
    qed
    with False Cons show ?thesis by simp
  qed
qed (simp add: FixedHeader_next_frame_def slice_from_def)

lemma FixedHeader_next_frame_no_Panic: "FixedHeader_next_frame d buf \<noteq> Panic"
proof
  assume p: "FixedHeader_next_frame d buf = Panic"
  then obtain b bs where buf: "buf = b # bs"
    by (cases buf) (auto simp: FixedHeader_next_frame_def slice_from_def)
  show False
  proof (cases "count_continue_flags bs")
    case (Ok k)
    then show False
    proof (cases "k < length bs")
      case True
      with Ok have "rl_wf (take (k + 1) bs)" by (intro count_continue_flags_split)
      from FixedHeader_next_frame_wf [OF this, of d b "drop (k + 1) bs"] p buf show False by simp
    qed (use p buf Ok in \<open>simp add: FixedHeader_next_frame_def slice_from_def slice_upto_def Let_def\<close>)
  qed (use p buf in \<open>simp_all add: FixedHeader_next_frame_def slice_from_def count_continue_flags_def
      Let_def split: if_splits\<close>)
qed

text \<open>
  Framing agrees with the encoder: the frame length read off a packet that starts with the
  header for \<open>n\<close> remaining bytes is the length of the header plus \<open>n\<close>.
\<close>

lemma FixedHeader_next_frame_header [parse_simp]:
  assumes "n \<le> max_remaining"
  shows "FixedHeader_next_frame d (frame_header t f n @ rest) =
           Ok (Some (length (frame_header t f n) + n))"
  using FixedHeader_next_frame_wf [OF rl_wf_rl_bytes [OF word_of_remaining(1) [OF assms]]]
    rl_value_rl_bytes [OF word_of_remaining(1) [OF assms]] word_of_remaining(2) [OF assms]
  by (simp add: frame_header_def)

section \<open>The codec\<close>

interpretation fixed_header: codec crates_ok FixedHeaderSlice_parse
  "\<lambda>(t, f, n). flags_ok t f \<and> n \<le> max_remaining" "\<lambda>d (t, f, n). frame_header t f n"
  "\<lambda>(t, f, n). header_of t f n"
proof unfold_locales
  show "\<exists>pre. pre \<noteq> [] \<and> buf = pre @ rest"
    if "crates_ok d" "FixedHeaderSlice_parse d buf = Ok (x, rest)" for d buf x rest
    using that by (auto simp: FixedHeaderSlice_parse_iff)
qed (auto simp: FixedHeaderSlice_parse_header)

interpretation fixed_header_array: decoder crates_ok "\<lambda>d. FixedHeaderArray_parse d 1"
  by unfold_locales (auto simp: FixedHeaderArray_parse_simps)

section \<open>Correctness\<close>

text \<open>A fixed header that is written is read back: the type, the flags and the remaining
  length are those of the builder, and the bytes after it are handed back untouched.\<close>

lemma fixed_header_round_trip:
  assumes "crates_ok d" "flags_ok t f" "n \<le> max_remaining"
  shows "\<exists>bs h. emits (FixedHeaderBuilder_write_sync d
      \<lparr>fhb_packet_type = t, fhb_flags = f, fhb_remaining_length = word_of_nat n\<rparr>) (length bs) bs \<and>
    FixedHeaderSlice_parse d (bs @ rest) = Ok (h, rest) \<and> FixedHeader_packet_type h = Ok t \<and>
    FixedHeader_flags h = f \<and> RemainingLength_read_len d (remaining_length h) = Ok n"
  using FixedHeaderSlice_write_sync_emits [OF assms] FixedHeaderSlice_parse_header [OF assms] assms(2,3)
  by (intro exI [of _ "frame_header t f n"] exI [of _ "header_of t f n"])
    (simp add: FixedHeaderBuilder_write_sync_def)

text \<open>C25: Framing decides from the buffered bytes alone. It asks for more exactly when the header may
  still be complete later, announces \<open>1 + l + v\<close> bytes when a header with a remaining length of \<open>l\<close>
  bytes and value \<open>v\<close> is there, and fails otherwise; it never panics.\<close>

theorem next_frame_decides:
  "(FixedHeader_next_frame d buf = Ok None \<longleftrightarrow>
      buf = [] \<or> (list_all has_continue_flag (tl buf) \<and> length buf \<le> 4)) \<and>
   (FixedHeader_next_frame d buf = Ok (Some n) \<longleftrightarrow>
      (\<exists>b bs rest. buf = b # bs @ rest \<and> rl_wf bs \<and> n = 1 + length bs + rl_value bs)) \<and>
   FixedHeader_next_frame d buf \<noteq> Panic"
  by (simp only: FixedHeader_next_frame_None FixedHeader_next_frame_Some FixedHeader_next_frame_no_Panic
      simp_thms)

end
