(* ===== verification/Message.thy ===== *)
theory Message
  imports Std_Io
begin

text \<open>
  Length-prefixed binary data (\<open>src/v3/packets/common/message.rs\<close>): a big-endian 16-bit
  length followed by that many bytes.
\<close>

section \<open>Definitions\<close>

record Buff =
  buff_len :: u16
  buff_data :: bytes

definition Buff_as_bytes :: "crates \<Rightarrow> Buff \<Rightarrow> bytes" where
  "Buff_as_bytes d this = zc_u16_as_bytes d (buff_len this) @ buff_data this"

definition Buff_get_len :: "crates \<Rightarrow> Buff \<Rightarrow> usize res" where
  "Buff_get_len d this =
     debug_assert (debug_assertions d) (unat (buff_len this) = length (buff_data this))
       (Ok (unat (buff_len this)))"

definition Buff_as_slice :: "crates \<Rightarrow> Buff \<Rightarrow> bytes res" where
  "Buff_as_slice d this =
     debug_assert (debug_assertions d) (unat (buff_len this) = length (buff_data this))
       (Ok (buff_data this))"

definition Buff_is_empty :: "crates \<Rightarrow> Buff \<Rightarrow> bool res" where
  "Buff_is_empty d this = and_then (Buff_get_len d this) (\<lambda>n. Ok (n = 0))"

definition Buff_validate_value :: "bytes \<Rightarrow> u16 res" where
  "Buff_validate_value value =
     (if length value < 2 ^ 16 then Ok (word_of_nat (length value))
      else Err (Error_new OutOfRange ''buf len too big''))"

definition Buff_validate :: "crates \<Rightarrow> Buff \<Rightarrow> unit res" where
  "Buff_validate d this =
     debug_assert (debug_assertions d) (unat (buff_len this) = length (buff_data this)) (Ok ())"

definition Buff_encode_len :: "bytes \<Rightarrow> usize res" where
  "Buff_encode_len value =
     ok_or (Error_new Overflow ''buff len'') (checked_add 2 (length value))"

definition Buff_write_sync :: "crates \<Rightarrow> bytes \<Rightarrow> usize wr" where
  "Buff_write_sync d value =
     w_then (w_lift (Buff_validate_value value)) (\<lambda>buf_len.
     w_then (write_all ''writing message buffer len'' (zc_u16_as_bytes d buf_len)) (\<lambda>_.
     w_then (write_all ''writing message buffer value'' value) (\<lambda>_.
     w_lift (usize_add (debug_assertions d) 2 (length value)))))"

definition Buff_parse :: "crates \<Rightarrow> bytes \<Rightarrow> (Buff \<times> bytes) res" where
  "Buff_parse d buf =
     and_then (ok_or (Error_new NotEnoughSpace ''buf too small'') (zc_ref_from_bytes d 2 buf))
       (\<lambda>(len, data).
     and_then (ok_or (Error_new NotEnoughSpace ''for len prefix'')
                 (zc_split_at d (unat (zc_u16_get d len)) data)) (\<lambda>(data, rest).
     let this = \<lparr>buff_len = zc_u16_get d len, buff_data = data\<rparr> in
     and_then (Buff_validate d this) (\<lambda>_.
     Ok (this, rest))))"

section \<open>Encoding\<close>

text \<open>The length-prefixed bytes of a value, and the view a decoder gets of them.\<close>

definition buff_bytes :: "crates \<Rightarrow> bytes \<Rightarrow> bytes" where
  "buff_bytes d bs = zc_u16_as_bytes d (word_of_nat (length bs)) @ bs"

definition buff_of :: "bytes \<Rightarrow> Buff" where
  "buff_of bs = \<lparr>buff_len = word_of_nat (length bs), buff_data = bs\<rparr>"

lemma length_buff_bytes [simp]: "crates_ok d \<Longrightarrow> length (buff_bytes d bs) = 2 + length bs"
  by (simp add: buff_bytes_def)

lemma buff_data_buff_of [simp]: "buff_data (buff_of bs) = bs"
  by (simp add: buff_of_def)

lemma unat_buff_len_of: "length bs \<le> 65535 \<Longrightarrow> unat (buff_len (buff_of bs)) = length bs"
  by (simp add: buff_of_def unat_of_nat)

lemma Buff_write_sync_emits [emit_intro]:
  assumes "length bs \<le> 65535" and n: "n = 2 + length bs"
  shows "emits (Buff_write_sync d bs) n (buff_bytes d bs)"
proof -
  have "2 + length bs \<le> usize_max" using assms by (simp add: usize_max_def)
  then have add: "usize_add (debug_assertions d) 2 (length bs) = Ok (2 + length bs)"
    by (rule usize_add_eq)
  have "Buff_validate_value bs = Ok (word_of_nat (length bs))"
    using assms by (simp add: Buff_validate_value_def)
  then show ?thesis
    unfolding Buff_write_sync_def buff_bytes_def add n by (auto intro!: emit_intro)
qed

lemma Buff_write_sync_rejects:
  assumes "65535 < length bs"
  shows "rejects (Buff_write_sync d bs) (Error_new OutOfRange ''buf len too big'')"
  using assms by (simp add: Buff_write_sync_def Buff_validate_value_def rejects_lift)

section \<open>Decoding\<close>

lemma u16_as_bytes_get: "crates_ok d \<Longrightarrow> zc_u16_as_bytes d (zc_u16_get d [hi, lo]) = [hi, lo]"
  by (simp add: zerocopy_laws(8) unat_u16_get)

lemma Buff_parse_iff:
  assumes "crates_ok d"
  shows "Buff_parse d buf = Ok (b, rest) \<longleftrightarrow>
    buf = zc_u16_as_bytes d (buff_len b) @ buff_data b @ rest \<and>
    length (buff_data b) = unat (buff_len b)" (is "?L \<longleftrightarrow> ?R")
proof
  assume ?L
  then have "2 \<le> length buf"
    using assms by (auto simp: Buff_parse_def zerocopy_laws(1,2,3) split: if_splits)
  then obtain hi lo data where buf: "buf = hi # lo # data"
    by (cases buf; cases "tl buf") auto
  with \<open>?L\<close> assms
  have "b = \<lparr>buff_len = zc_u16_get d [hi, lo], buff_data = take (unat (zc_u16_get d [hi, lo])) data\<rparr>"
    "rest = drop (unat (zc_u16_get d [hi, lo])) data" "unat (zc_u16_get d [hi, lo]) \<le> length data"
    by (auto simp: Buff_parse_def zerocopy_laws(1,2,3) Let_def numeral_2_eq_2 split: if_splits)
  with buf assms show ?R by (simp add: u16_as_bytes_get)
next
  assume R: ?R
  then have l: "length (zc_u16_as_bytes d (buff_len b)) = 2" using assms by simp
  have "zc_u16_get d (zc_u16_as_bytes d (buff_len b)) = buff_len b"
    using assms by (rule u16_round_trip)
  with R l assms show ?L
    by (cases b) (simp add: Buff_parse_def zerocopy_laws(1,2,3) Let_def Buff_validate_def)
qed

lemma Buff_parse_bytes [parse_simp]:
  assumes "crates_ok d" "length bs \<le> 65535"
  shows "Buff_parse d (buff_bytes d bs @ rest) = Ok (buff_of bs, rest)"
  using assms unat_buff_len_of [OF assms(2)] by (simp add: Buff_parse_iff buff_bytes_def buff_of_def)

lemma Buff_parse_no_Panic: "crates_ok d \<Longrightarrow> Buff_parse d buf \<noteq> Panic"
  by (auto simp: Buff_parse_def zerocopy_laws(1,2,3) and_then_Panic_iff Let_def Buff_validate_def
      split: if_splits)

interpretation buff: codec crates_ok Buff_parse "\<lambda>bs. length bs \<le> 65535" buff_bytes buff_of
proof unfold_locales
  show "\<exists>pre. pre \<noteq> [] \<and> buf = pre @ rest"
    if "crates_ok d" "Buff_parse d buf = Ok (x, rest)" for d buf x rest
  proof -
    from that have "buf = (zc_u16_as_bytes d (buff_len x) @ buff_data x) @ rest"
      by (simp add: Buff_parse_iff)
    moreover have "zc_u16_as_bytes d (buff_len x) \<noteq> []" using that(1) by (simp add: crate_law)
    ultimately show ?thesis by (metis append_is_Nil_conv)
  qed
qed (rule Buff_parse_bytes)

end
