(* ===== verification/Packet_Id.thy ===== *)
theory Packet_Id
  imports Message
begin

text \<open>
  The packet identifier (\<open>src/v3/packets/common/packet_id.rs\<close>): a non-zero 16-bit number.
  A \<open>NonZero<u16>\<close> argument is a \<open>u16\<close> here; the theorems state that it is not zero.
\<close>

section \<open>Definitions\<close>

record PacketId =
  pkid :: u16

definition PacketId_read :: "PacketId \<Rightarrow> u16 res" where
  "PacketId_read this = expect (if pkid this = 0 then None else Some (pkid this))"

definition PacketId_validate_value :: "u16 \<Rightarrow> unit res" where
  "PacketId_validate_value value = Ok ()"

definition PacketId_validate :: "PacketId \<Rightarrow> unit res" where
  "PacketId_validate this =
     (if pkid this = 0 then Err (Error_new Invalid ''packet id cannot be 0'') else Ok ())"

definition PacketId_encode_len :: "u16 \<Rightarrow> usize res" where
  "PacketId_encode_len value = Ok 2"

definition PacketId_write_sync :: "crates \<Rightarrow> u16 \<Rightarrow> usize wr" where
  "PacketId_write_sync d value =
     w_then (w_lift (PacketId_validate_value value)) (\<lambda>_.
     w_then (write_all ''writing packet ID'' (zc_u16_as_bytes d value)) (\<lambda>_.
     w_lift (Ok 2)))"

definition PacketId_parse :: "crates \<Rightarrow> bytes \<Rightarrow> (PacketId \<times> bytes) res" where
  "PacketId_parse d buf =
     and_then (ok_or (Error_new NotEnoughSpace ''couldn't parse packet id'')
                 (zc_ref_from_prefix d 2 buf)) (\<lambda>(bs, rest).
     let this = \<lparr>pkid = zc_u16_get d bs\<rparr> in
     and_then (PacketId_validate this) (\<lambda>_.
     Ok (this, rest)))"

definition usize_from_PacketId :: "PacketId \<Rightarrow> usize res" where
  "usize_from_PacketId value = and_then (PacketId_read value) (\<lambda>n. Ok (unat n))"

section \<open>Round trip\<close>

lemma PacketId_write_sync_emits [emit_intro]:
  "emits (PacketId_write_sync d k) 2 (zc_u16_as_bytes d k)"
  unfolding PacketId_write_sync_def PacketId_validate_value_def by (auto intro!: emit_intro)

lemma PacketId_parse_iff:
  assumes "crates_ok d"
  shows "PacketId_parse d buf = Ok (p, rest) \<longleftrightarrow>
    buf = zc_u16_as_bytes d (pkid p) @ rest \<and> pkid p \<noteq> 0" (is "?L \<longleftrightarrow> ?R")
proof
  assume ?L
  then have "2 \<le> length buf"
    using assms by (auto simp: PacketId_parse_def zerocopy_laws(1) split: if_splits)
  then obtain hi lo data where buf: "buf = hi # lo # data"
    by (cases buf; cases "tl buf") auto
  with \<open>?L\<close> assms have "p = \<lparr>pkid = zc_u16_get d [hi, lo]\<rparr>" "rest = data" "zc_u16_get d [hi, lo] \<noteq> 0"
    by (auto simp: PacketId_parse_def zerocopy_laws(1) Let_def numeral_2_eq_2 PacketId_validate_def
        split: if_splits)
  with buf assms show ?R by (simp add: u16_as_bytes_get)
next
  assume R: ?R
  then have l: "length (zc_u16_as_bytes d (pkid p)) = 2" using assms by simp
  have "zc_u16_get d (zc_u16_as_bytes d (pkid p)) = pkid p"
    using assms by (rule u16_round_trip)
  with R l assms show ?L
    by (cases p) (simp add: PacketId_parse_def zerocopy_laws(1) Let_def PacketId_validate_def)
qed

lemma PacketId_parse_bytes [parse_simp]:
  assumes "crates_ok d" "k \<noteq> 0"
  shows "PacketId_parse d (zc_u16_as_bytes d k @ rest) = Ok (\<lparr>pkid = k\<rparr>, rest)"
  using assms by (simp add: PacketId_parse_iff)

lemma PacketId_parse_no_Panic: "crates_ok d \<Longrightarrow> PacketId_parse d buf \<noteq> Panic"
  by (auto simp: PacketId_parse_def zerocopy_laws(1) and_then_Panic_iff Let_def PacketId_validate_def
      split: if_splits)

text \<open>A parsed identifier is never zero, so reading it does not panic.\<close>

lemma PacketId_read_parsed:
  "crates_ok d \<Longrightarrow> PacketId_parse d buf = Ok (p, rest) \<Longrightarrow> PacketId_read p = Ok (pkid p)"
  by (simp add: PacketId_parse_iff PacketId_read_def)

interpretation packet_id: codec crates_ok PacketId_parse "\<lambda>k. k \<noteq> 0" zc_u16_as_bytes
  "\<lambda>k. \<lparr>pkid = k\<rparr>"
proof unfold_locales
  show "\<exists>pre. pre \<noteq> [] \<and> buf = pre @ rest"
    if "crates_ok d" "PacketId_parse d buf = Ok (x, rest)" for d buf x rest
    using that by (intro exI [of _ "zc_u16_as_bytes d (pkid x)"]) (simp add: PacketId_parse_iff crate_law)
qed (rule PacketId_parse_bytes)

end
