(* ===== verification/Mqtt_String.thy ===== *)
theory Mqtt_String
  imports Message
begin

unbundle bit_operations_syntax

text \<open>
  MQTT strings (\<open>src/v3/packets/common/string.rs\<close>). A Rust \<open>str\<close> is its UTF-8 bytes;
  \<open>utf8_chars\<close> is what \<open>core::str::from_utf8\<close> checks and \<open>str::chars\<close> yields, and a
  \<open>char\<close> is its code point.
\<close>

section \<open>UTF-8\<close>

definition utf8_cont :: "u8 \<Rightarrow> bool" where
  "utf8_cont b \<longleftrightarrow> 0x80 \<le> unat b \<and> unat b < 0xC0"

fun utf8_chars :: "bytes \<Rightarrow> u32 list option" where
  "utf8_chars [] = Some []"
| "utf8_chars (b # bs) =
     (let n = unat b in
      if n < 0x80 then map_option ((#) (word_of_nat n)) (utf8_chars bs)
      else if n < 0xC2 then None
      else if n < 0xE0 then
        (case bs of
           c1 # r \<Rightarrow>
             let v = (n - 0xC0) * 64 + (unat c1 - 0x80) in
             if utf8_cont c1 then map_option ((#) (word_of_nat v)) (utf8_chars r) else None
         | _ \<Rightarrow> None)
      else if n < 0xF0 then
        (case bs of
           c1 # c2 # r \<Rightarrow>
             let v = (n - 0xE0) * 4096 + (unat c1 - 0x80) * 64 + (unat c2 - 0x80) in
             if utf8_cont c1 \<and> utf8_cont c2 \<and> 0x800 \<le> v \<and> \<not> (0xD800 \<le> v \<and> v \<le> 0xDFFF)
             then map_option ((#) (word_of_nat v)) (utf8_chars r) else None
         | _ \<Rightarrow> None)
      else if n < 0xF5 then
        (case bs of
           c1 # c2 # c3 # r \<Rightarrow>
             let v = (n - 0xF0) * 262144 + (unat c1 - 0x80) * 4096 + (unat c2 - 0x80) * 64 +
                     (unat c3 - 0x80) in
             if utf8_cont c1 \<and> utf8_cont c2 \<and> utf8_cont c3 \<and> 0x10000 \<le> v \<and> v \<le> 0x10FFFF
             then map_option ((#) (word_of_nat v)) (utf8_chars r) else None
         | _ \<Rightarrow> None)
      else None)"

definition utf8_valid :: "bytes \<Rightarrow> bool" where
  "utf8_valid bs \<longleftrightarrow> utf8_chars bs \<noteq> None"

definition str_chars :: "bytes \<Rightarrow> u32 list" where
  "str_chars bs = (case utf8_chars bs of None \<Rightarrow> [] | Some cs \<Rightarrow> cs)"

section \<open>Permitted characters\<close>

definition is_last_two_supplementary :: "u32 \<Rightarrow> bool" where
  "is_last_two_supplementary c =
     (let last_bits = c AND 0xFF
      in (last_bits = 0xFE \<or> last_bits = 0xFF) \<and> 0x01 \<le> drop_bit 16 c \<and> drop_bit 16 c \<le> 0x10)"

definition is_valid_char :: "u32 \<Rightarrow> bool" where
  "is_valid_char c =
     (if c = 0 \<or> (1 \<le> c \<and> c \<le> 0x1F) \<or> (0xFDD0 \<le> c \<and> c \<le> 0xFDEF) \<or> (0xFFFE \<le> c \<and> c \<le> 0xFFFF)
      then False else \<not> is_last_two_supplementary c)"

section \<open>The string type\<close>

record MqttStr =
  str_len :: u16
  str_data :: bytes

definition MqttStr_MAX_BYTES :: usize where "MqttStr_MAX_BYTES = 65535"

definition MqttStr_get_len :: "MqttStr \<Rightarrow> usize" where
  "MqttStr_get_len this = length (str_data this)"

definition MqttStr_is_empty :: "MqttStr \<Rightarrow> bool" where
  "MqttStr_is_empty this \<longleftrightarrow> length (str_data this) = 0"

definition MqttStr_as_str :: "MqttStr \<Rightarrow> bytes" where
  "MqttStr_as_str this = str_data this"

definition MqttStr_eq :: "MqttStr \<Rightarrow> bytes \<Rightarrow> bool" where
  "MqttStr_eq this other \<longleftrightarrow> MqttStr_as_str this = other"

definition MqttStr_validate_value :: "bytes \<Rightarrow> unit res" where
  "MqttStr_validate_value value =
     (if \<not> list_all is_valid_char (str_chars value)
      then Err (Error_new Invalid ''string contains invalid characters'') else Ok ())"

definition MqttStr_validate :: "crates \<Rightarrow> MqttStr \<Rightarrow> unit res" where
  "MqttStr_validate d this =
     debug_assert (debug_assertions d) (unat (str_len this) = length (str_data this))
       (if \<not> list_all is_valid_char (str_chars (str_data this))
        then Err (Error_new Invalid ''string contains invalid characters'') else Ok ())"

definition MqttStr_encode_len :: "bytes \<Rightarrow> usize res" where
  "MqttStr_encode_len value =
     ok_or (Error_new Overflow ''string length'') (checked_add 2 (length value))"

definition MqttStr_write_sync :: "crates \<Rightarrow> bytes \<Rightarrow> usize wr" where
  "MqttStr_write_sync d value =
     w_then (w_lift (MqttStr_validate_value value)) (\<lambda>_.
     w_map_err (\<lambda>error. Error_new (kind error) ''writing MQTT string'') (Buff_write_sync d value))"

primrec convert_error_kind :: "ConvertError \<Rightarrow> ErrorKind" where
  "convert_error_kind Alignment = NotEnoughSpace"
| "convert_error_kind Size = NotEnoughSpace"
| "convert_error_kind Validity = Invalid"

definition MqttStr_parse :: "crates \<Rightarrow> bytes \<Rightarrow> (MqttStr \<times> bytes) res" where
  "MqttStr_parse d buf =
     and_then (Buff_parse d buf) (\<lambda>(buff, rest).
     and_then (map_err (\<lambda>error. Error_new (convert_error_kind error) ''mqtt string'')
                 (zc_try_ref_from_bytes d 2 utf8_valid (Buff_as_bytes d buff))) (\<lambda>(len, data).
     let this = \<lparr>str_len = zc_u16_get d len, str_data = data\<rparr> in
     and_then (MqttStr_validate d this) (\<lambda>_.
     Ok (this, rest))))"

section \<open>Round trip\<close>

definition mqtt_str_ok :: "bytes \<Rightarrow> bool" where
  "mqtt_str_ok s \<longleftrightarrow> utf8_valid s \<and> list_all is_valid_char (str_chars s)"

definition str_of :: "bytes \<Rightarrow> MqttStr" where
  "str_of s = \<lparr>str_len = word_of_nat (length s), str_data = s\<rparr>"

lemma str_data_str_of [simp]: "str_data (str_of s) = s"
  by (simp add: str_of_def)

lemma MqttStr_as_str_of [simp]: "MqttStr_as_str (str_of s) = s"
  by (simp add: MqttStr_as_str_def)

lemma MqttStr_write_sync_emits [emit_intro]:
  assumes "mqtt_str_ok s" "length s \<le> 65535" "n = 2 + length s"
  shows "emits (MqttStr_write_sync d s) n (buff_bytes d s)"
  using assms unfolding MqttStr_write_sync_def
  by (auto simp: MqttStr_validate_value_def mqtt_str_ok_def intro!: emit_intro)

lemma MqttStr_write_sync_rejects_long:
  assumes "65535 < length s"
  shows "\<exists>e. rejects (MqttStr_write_sync d s) e \<and> kind e \<in> {Invalid, OutOfRange}"
proof (cases "list_all is_valid_char (str_chars s)")
  case True
  then have "MqttStr_write_sync d s =
      w_map_err (\<lambda>error. Error_new (kind error) ''writing MQTT string'') (Buff_write_sync d s)"
    by (simp add: MqttStr_write_sync_def MqttStr_validate_value_def)
  moreover have "rejects (Buff_write_sync d s) (Error_new OutOfRange ''buf len too big'')"
    by (rule Buff_write_sync_rejects [OF assms])
  ultimately have "rejects (MqttStr_write_sync d s) (Error_new OutOfRange ''writing MQTT string'')"
    by (simp add: rejects_def w_map_err_def)
  then show ?thesis by force
next
  case False
  then have "rejects (MqttStr_write_sync d s)
      (Error_new Invalid ''string contains invalid characters'')"
    by (simp add: MqttStr_write_sync_def MqttStr_validate_value_def rejects_lift)
  then show ?thesis by force
qed

lemma MqttStr_parse_iff:
  assumes "crates_ok d"
  shows "MqttStr_parse d buf = Ok (m, rest) \<longleftrightarrow>
    buf = zc_u16_as_bytes d (str_len m) @ str_data m @ rest \<and>
    length (str_data m) = unat (str_len m) \<and> mqtt_str_ok (str_data m)" (is "?L \<longleftrightarrow> ?R")
proof -
  have l: "length (zc_u16_as_bytes d x) = 2" for x using assms by simp
  have rt: "zc_u16_get d (zc_u16_as_bytes d x) = x" for x by (rule u16_round_trip [OF assms])
  show ?thesis
  proof
    assume ?L
    then obtain b where b: "Buff_parse d buf = Ok (b, rest)" "utf8_valid (buff_data b)"
      "m = \<lparr>str_len = buff_len b, str_data = buff_data b\<rparr>" "MqttStr_validate d m = Ok ()"
      using assms l rt
      by (auto simp: MqttStr_parse_def zerocopy_laws(5) Buff_as_bytes_def Let_def split: if_splits)
    then show ?R
      using assms by (auto simp: Buff_parse_iff MqttStr_validate_def mqtt_str_ok_def split: if_splits)
  next
    assume R: ?R
    let ?b = "\<lparr>buff_len = str_len m, buff_data = str_data m\<rparr>"
    have "Buff_parse d buf = Ok (?b, rest)" using R assms by (simp add: Buff_parse_iff)
    then show ?L
      using R assms l rt
      by (cases m) (simp add: MqttStr_parse_def zerocopy_laws(5) Buff_as_bytes_def Let_def
          MqttStr_validate_def mqtt_str_ok_def)
  qed
qed

lemma MqttStr_parse_bytes [parse_simp]:
  assumes "crates_ok d" "mqtt_str_ok s" "length s \<le> 65535"
  shows "MqttStr_parse d (buff_bytes d s @ rest) = Ok (str_of s, rest)"
  using assms by (simp add: MqttStr_parse_iff buff_bytes_def str_of_def unat_of_nat)

lemma MqttStr_parse_no_Panic:
  assumes "crates_ok d"
  shows "MqttStr_parse d buf \<noteq> Panic"
proof (cases "Buff_parse d buf")
  case (Ok p)
  then obtain b rest where b: "Buff_parse d buf = Ok (b, rest)" by (cases p) auto
  then have "length (buff_data b) = unat (buff_len b)" using assms by (simp add: Buff_parse_iff)
  with b assms u16_round_trip [OF assms] show ?thesis
    by (auto simp: MqttStr_parse_def zerocopy_laws(5) Buff_as_bytes_def Let_def MqttStr_validate_def
        split: if_splits)
qed (simp_all add: MqttStr_parse_def Buff_parse_no_Panic [OF assms])

interpretation mqtt_str: codec crates_ok MqttStr_parse
  "\<lambda>s. mqtt_str_ok s \<and> length s \<le> 65535" buff_bytes str_of
proof unfold_locales
  show "\<exists>pre. pre \<noteq> [] \<and> buf = pre @ rest"
    if "crates_ok d" "MqttStr_parse d buf = Ok (x, rest)" for d buf x rest
    using that by (intro exI [of _ "zc_u16_as_bytes d (str_len x) @ str_data x"])
      (simp add: MqttStr_parse_iff crate_law)
qed (simp add: MqttStr_parse_bytes)

section \<open>Correctness\<close>

text \<open>A string of permitted characters that fits in 65535 bytes is written with its length in
  front and read back unchanged.\<close>

lemma mqtt_string_round_trip:
  assumes "crates_ok d" "mqtt_str_ok s" "length s \<le> 65535"
  shows "\<exists>bs x. emits (MqttStr_write_sync d s) (2 + length s) bs \<and> length bs = 2 + length s \<and>
    MqttStr_parse d (bs @ rest) = Ok (x, rest) \<and> MqttStr_as_str x = s"
  using assms MqttStr_write_sync_emits [OF assms(2,3) refl, of d] MqttStr_parse_bytes [OF assms]
  by (intro exI [of _ "buff_bytes d s"] exI [of _ "str_of s"]) simp

text \<open>C27: The decoder of a string accepts exactly a length prefix followed by that many bytes of
  valid UTF-8 without a forbidden character, and it never panics.\<close>

theorem mqtt_string_decode:
  assumes "crates_ok d"
  shows "(MqttStr_parse d buf = Ok (m, rest) \<longleftrightarrow>
      buf = zc_u16_as_bytes d (str_len m) @ str_data m @ rest \<and>
      length (str_data m) = unat (str_len m) \<and> mqtt_str_ok (str_data m)) \<and>
    MqttStr_parse d buf \<noteq> Panic"
  using MqttStr_parse_iff [OF assms] MqttStr_parse_no_Panic [OF assms] by simp

theorem mqtt_string_decode_witness:
  "MqttStr_parse (std_crates True) [0, 1, 0x61, 9] = Ok (\<lparr>str_len = 1, str_data = [0x61]\<rparr>, [9])"
proof -
  have "mqtt_str_ok [0x61]" by code_simp
  then show ?thesis
    using mqtt_string_decode [OF std_crates_ok, of True "[0, 1, 0x61, 9]" "\<lparr>str_len = 1, str_data = [0x61]\<rparr>" "[9]"]
    by (simp add: std_crates_def)
qed

text \<open>
  The characters MQTT 3.1.1 (section 1.5.3) forbids or discourages: the null character, the control characters
  U+0001 to U+001F and U+007F to U+009F, and the Unicode noncharacters, the last two code points of
  every plane among them.
\<close>

definition discouraged :: "u32 \<Rightarrow> bool" where
  "discouraged c \<longleftrightarrow>
     c \<le> 0x1F \<or> (0x7F \<le> c \<and> c \<le> 0x9F) \<or> (0xFDD0 \<le> c \<and> c \<le> 0xFDEF) \<or>
     (c \<le> 0x10FFFF \<and> (c AND 0xFFFF = 0xFFFE \<or> c AND 0xFFFF = 0xFFFF))"

lemma low_bits_unat:
  "c AND 0xFFFF = 0xFFFE \<longleftrightarrow> unat c mod 65536 = 65534" "c AND 0xFFFF = 0xFFFF \<longleftrightarrow> unat c mod 65536 = 65535"
  "c AND 0xFF = 0xFE \<longleftrightarrow> unat c mod 256 = 254" "c AND 0xFF = 0xFF \<longleftrightarrow> unat c mod 256 = 255"
  "unat (drop_bit 16 c) = unat c div 65536"
  for c :: u32
proof -
  have "c AND 0xFFFF = take_bit 16 c" "c AND 0xFF = take_bit 8 c"
    by (simp_all add: take_bit_eq_mask mask_eq_exp_minus_1)
  then have u: "unat (c AND 0xFFFF) = unat c mod 65536" "unat (c AND 0xFF) = unat c mod 256"
    by (simp_all only: unsigned_take_bit_eq) (simp_all add: take_bit_eq_mod)
  show "c AND 0xFFFF = 0xFFFE \<longleftrightarrow> unat c mod 65536 = 65534" "c AND 0xFFFF = 0xFFFF \<longleftrightarrow> unat c mod 65536 = 65535"
    "c AND 0xFF = 0xFE \<longleftrightarrow> unat c mod 256 = 254" "c AND 0xFF = 0xFF \<longleftrightarrow> unat c mod 256 = 255"
    by (simp_all add: word_unat_eq_iff u)
  show "unat (drop_bit 16 c) = unat c div 65536" by (simp add: drop_bit_eq_div unat_div)
qed

lemma is_valid_char_unat:
  "is_valid_char c \<longleftrightarrow> \<not> (unat c \<le> 0x1F \<or> (0xFDD0 \<le> unat c \<and> unat c \<le> 0xFDEF) \<or>
     (0xFFFE \<le> unat c \<and> unat c \<le> 0xFFFF) \<or>
     (unat c mod 256 = 254 \<or> unat c mod 256 = 255) \<and> 1 \<le> unat c div 65536 \<and> unat c div 65536 \<le> 16)"
  unfolding is_valid_char_def is_last_two_supplementary_def Let_def low_bits_unat word_le_nat_alt
  by (auto simp: word_unat_eq_iff)

lemma discouraged_unat:
  "discouraged c \<longleftrightarrow> unat c \<le> 0x1F \<or> (0x7F \<le> unat c \<and> unat c \<le> 0x9F) \<or>
     (0xFDD0 \<le> unat c \<and> unat c \<le> 0xFDEF) \<or>
     (unat c \<le> 0x10FFFF \<and> (unat c mod 65536 = 65534 \<or> unat c mod 65536 = 65535))"
  unfolding discouraged_def low_bits_unat word_le_nat_alt by simp

text \<open>C40: The character check against the rule of MQTT, over all code points: it errs in two
  places and nowhere else. It accepts the control characters U+007F to U+009F, which are
  discouraged. It refuses every supplementary character whose low eight bits are those of the last two code
  points of a plane, such as U+101FE, although only those whose low sixteen bits are FFFE or FFFF
  are noncharacters.\<close>

theorem is_valid_char_against_rule:
  assumes "c \<le> 0x10FFFF"
  shows "(discouraged c \<and> is_valid_char c \<longleftrightarrow> 0x7F \<le> c \<and> c \<le> 0x9F) \<and>
    (\<not> discouraged c \<and> \<not> is_valid_char c \<longleftrightarrow>
      0x10000 \<le> c \<and> (c AND 0xFF = 0xFE \<or> c AND 0xFF = 0xFF) \<and> c AND 0xFFFF \<noteq> 0xFFFE \<and> c AND 0xFFFF \<noteq> 0xFFFF)"
proof -
  let ?u = "unat c"
  have u: "?u \<le> 0x10FFFF" using assms by (simp add: word_le_nat_alt)
  have low: "?u mod 256 = ?u mod 65536 mod 256" by (simp add: mod_mod_cancel)
  have plane: "?u div 65536 \<le> 16" "1 \<le> ?u div 65536 \<longleftrightarrow> 0x10000 \<le> ?u" using u by auto
  have small: "?u < 0x10000 \<Longrightarrow> ?u mod 65536 = ?u" by simp
  have last: "?u mod 65536 = 65534 \<or> ?u mod 65536 = 65535 \<Longrightarrow> ?u mod 256 = 254 \<or> ?u mod 256 = 255"
    using low by auto
  have "discouraged c \<and> is_valid_char c \<longleftrightarrow> 0x7F \<le> ?u \<and> ?u \<le> 0x9F"
    unfolding discouraged_unat is_valid_char_unat plane(2) using u plane(1) small last by auto
  moreover have "\<not> discouraged c \<and> \<not> is_valid_char c \<longleftrightarrow>
      0x10000 \<le> ?u \<and> (?u mod 256 = 254 \<or> ?u mod 256 = 255) \<and> ?u mod 65536 \<noteq> 65534 \<and> ?u mod 65536 \<noteq> 65535"
    unfolding discouraged_unat is_valid_char_unat plane(2) using u plane(1) small by auto
  ultimately show ?thesis unfolding low_bits_unat word_le_nat_alt by simp
qed

theorem is_valid_char_against_rule_witness:
  "discouraged 0x85 \<and> is_valid_char 0x85 \<and> \<not> discouraged 0x101FE \<and> \<not> is_valid_char 0x101FE"
  using is_valid_char_against_rule [of "0x85"] is_valid_char_against_rule [of "0x101FE"]
  by simp

end
