(* ===== verification/Topic.thy ===== *)
theory Topic
  imports Mqtt_String
begin

text \<open>
  Wildcards in topic filters (\<open>src/v3/packets/common/topic.rs\<close>). The code checks the bytes
  around every wildcard; the specification is about the levels of the filter, the parts
  between slashes.
\<close>

section \<open>The check\<close>

abbreviation slash :: u8 where "slash \<equiv> 0x2F"
abbreviation plus_sign :: u8 where "plus_sign \<equiv> 0x2B"
abbreviation hash_sign :: u8 where "hash_sign \<equiv> 0x23"

definition is_none_or :: "('a \<Rightarrow> bool) \<Rightarrow> 'a option \<Rightarrow> bool" where
  "is_none_or p m = (case m of None \<Rightarrow> True | Some x \<Rightarrow> p x)"

definition has_valid_wildcard :: "crates \<Rightarrow> bytes \<Rightarrow> bool" where
  "has_valid_wildcard d bytes =
     list_all (\<lambda>wild_idx.
       let is_valid_pre =
             is_none_or (\<lambda>c. c = slash)
               (Option.bind (checked_sub wild_idx 1) (\<lambda>idx. slice_get idx bytes));
           is_valid_next =
             is_none_or (\<lambda>c. c = slash \<and> bytes ! wild_idx = plus_sign)
               (Option.bind (checked_add wild_idx 1) (\<lambda>idx. slice_get idx bytes))
       in is_valid_pre \<and> is_valid_next)
     (memchr2_iter d plus_sign hash_sign bytes)"

section \<open>The specification\<close>

fun topic_levels :: "bytes \<Rightarrow> bytes list" where
  "topic_levels [] = [[]]"
| "topic_levels (c # cs) =
     (if c = slash then [] # topic_levels cs
      else case topic_levels cs of [] \<Rightarrow> [[c]] | l # ls \<Rightarrow> (c # l) # ls)"

definition plain_level :: "bytes \<Rightarrow> bool" where
  "plain_level l \<longleftrightarrow> plus_sign \<notin> set l \<and> hash_sign \<notin> set l"

fun filter_levels_ok :: "bytes list \<Rightarrow> bool" where
  "filter_levels_ok [] \<longleftrightarrow> True"
| "filter_levels_ok [l] \<longleftrightarrow> plain_level l \<or> l = [plus_sign] \<or> l = [hash_sign]"
| "filter_levels_ok (l # ls) \<longleftrightarrow> (plain_level l \<or> l = [plus_sign]) \<and> filter_levels_ok ls"

text \<open>The same check, byte by byte: \<open>st\<close> says that a level starts here.\<close>

fun wildcard_scan :: "bool \<Rightarrow> bytes \<Rightarrow> bool" where
  "wildcard_scan st [] \<longleftrightarrow> True"
| "wildcard_scan st (c # cs) \<longleftrightarrow>
     (c = plus_sign \<or> c = hash_sign \<longrightarrow>
        st \<and> (cs = [] \<or> (hd cs = slash \<and> c = plus_sign))) \<and>
     wildcard_scan (c = slash) cs"

section \<open>The check by position\<close>

definition wildcard_at :: "bool \<Rightarrow> bytes \<Rightarrow> nat \<Rightarrow> bool" where
  "wildcard_at st b i \<longleftrightarrow>
     (b ! i = plus_sign \<or> b ! i = hash_sign \<longrightarrow>
        (if i = 0 then st else b ! (i - 1) = slash) \<and>
        (Suc i < length b \<longrightarrow> b ! Suc i = slash \<and> b ! i = plus_sign))"

lemma wildcard_scan_at: "wildcard_scan st b \<longleftrightarrow> (\<forall>i<length b. wildcard_at st b i)"
proof (induction b arbitrary: st)
  case (Cons c cs)
  have zero: "wildcard_at st (c # cs) 0 \<longleftrightarrow>
      (c = plus_sign \<or> c = hash_sign \<longrightarrow> st \<and> (cs = [] \<or> (hd cs = slash \<and> c = plus_sign)))"
    by (cases cs) (auto simp: wildcard_at_def)
  have suc: "wildcard_at st (c # cs) (Suc i) \<longleftrightarrow> wildcard_at (c = slash) cs i" for i
    by (cases i) (simp_all add: wildcard_at_def)
  have "(\<forall>i<length (c # cs). wildcard_at st (c # cs) i) \<longleftrightarrow>
      wildcard_at st (c # cs) 0 \<and> (\<forall>i<length cs. wildcard_at (c = slash) cs i)"
    by (simp add: All_less_Suc2 suc)
  then show ?case by (simp only: wildcard_scan.simps Cons zero)
qed simp

lemma has_valid_wildcard_scan:
  assumes "crates_ok d" "length b \<le> usize_max"
  shows "has_valid_wildcard d b \<longleftrightarrow> wildcard_scan True b"
proof -
  have pre: "is_none_or (\<lambda>c. c = slash) (Option.bind (checked_sub i 1) (\<lambda>j. slice_get j b)) \<longleftrightarrow>
      (if i = 0 then True else b ! (i - 1) = slash)" if "i < length b" for i
    using that by (cases i) (auto simp: is_none_or_def checked_sub_def slice_get_def)
  have nxt: "is_none_or (\<lambda>c. c = slash \<and> b ! i = plus_sign)
        (Option.bind (checked_add i 1) (\<lambda>j. slice_get j b)) \<longleftrightarrow>
      (Suc i < length b \<longrightarrow> b ! Suc i = slash \<and> b ! i = plus_sign)" if "i < length b" for i
    using that assms(2) by (auto simp: is_none_or_def checked_add_def slice_get_def)
  have "has_valid_wildcard d b \<longleftrightarrow> (\<forall>i<length b. wildcard_at True b i)"
    using pre nxt
    by (auto simp: has_valid_wildcard_def memchr_laws [OF assms(1)] list_all_iff wildcard_at_def Let_def)
  then show ?thesis by (simp add: wildcard_scan_at)
qed

section \<open>The check by level\<close>

lemma wildcard_scan_False: "slash \<notin> set l \<Longrightarrow> wildcard_scan False l \<longleftrightarrow> plain_level l"
  by (induction l) (auto simp: plain_level_def)

lemma wildcard_scan_False_slash:
  "slash \<notin> set l \<Longrightarrow>
   wildcard_scan False (l @ slash # r) \<longleftrightarrow> plain_level l \<and> wildcard_scan True r"
  by (induction l) (auto simp: plain_level_def)

lemma wildcard_scan_last:
  assumes "slash \<notin> set l"
  shows "wildcard_scan True l \<longleftrightarrow> filter_levels_ok [l]"
proof (cases l)
  case (Cons c cs)
  with assms wildcard_scan_False [of cs] show ?thesis
    by (cases cs) (auto simp: plain_level_def)
qed (simp add: plain_level_def)

lemma wildcard_scan_level:
  assumes "slash \<notin> set l"
  shows "wildcard_scan True (l @ slash # r) \<longleftrightarrow>
    (plain_level l \<or> l = [plus_sign]) \<and> wildcard_scan True r"
proof (cases l)
  case (Cons c cs)
  with assms wildcard_scan_False_slash [of cs r] show ?thesis
    by (cases cs) (auto simp: plain_level_def)
qed (simp add: plain_level_def)

lemma topic_levels_split:
  "slash \<notin> set b \<Longrightarrow> topic_levels b = [b]"
  "slash \<notin> set b \<Longrightarrow> topic_levels (b @ slash # r) = b # topic_levels r"
  by (induction b) auto

lemma topic_levels_not_Nil [simp]: "topic_levels b \<noteq> []"
  by (cases b) (auto split: list.split)

lemma wildcard_scan_levels: "wildcard_scan True b \<longleftrightarrow> filter_levels_ok (topic_levels b)"
proof (induction b rule: length_induct)
  case (1 b)
  show ?case
  proof (cases "slash \<in> set b")
    case True
    then obtain l r where b: "b = l @ slash # r" "slash \<notin> set l"
      using split_list_first by fastforce
    with 1 have "wildcard_scan True r \<longleftrightarrow> filter_levels_ok (topic_levels r)" by simp
    with b show ?thesis
      by (cases "topic_levels r") (simp_all add: wildcard_scan_level topic_levels_split)
  qed (simp add: wildcard_scan_last topic_levels_split)
qed

lemma has_valid_wildcard_levels:
  "crates_ok d \<Longrightarrow> length b \<le> usize_max \<Longrightarrow>
   has_valid_wildcard d b \<longleftrightarrow> filter_levels_ok (topic_levels b)"
  by (simp add: has_valid_wildcard_scan wildcard_scan_levels)

section \<open>Correctness\<close>

text \<open>C21: The byte-level check of a topic filter is the MQTT rule about its levels: a single-level
  wildcard is a whole level, a multi-level wildcard is a whole level and the last one.\<close>

theorem has_valid_wildcard_iff_levels:
  assumes "crates_ok d" "length b \<le> usize_max"
  shows "has_valid_wildcard d b \<longleftrightarrow> filter_levels_ok (topic_levels b)"
  by (rule has_valid_wildcard_levels [OF assms])

theorem has_valid_wildcard_iff_levels_witness:
  "has_valid_wildcard (std_crates True) [0x61, slash, plus_sign, slash, hash_sign] \<and>
   \<not> has_valid_wildcard (std_crates True) [0x61, slash, hash_sign, slash, 0x62]"
  using has_valid_wildcard_iff_levels [OF std_crates_ok, of "[0x61, slash, plus_sign, slash, hash_sign]" True]
    has_valid_wildcard_iff_levels [OF std_crates_ok, of "[0x61, slash, hash_sign, slash, 0x62]" True]
  by (simp add: usize_max_def plain_level_def)

end
