(* ===== verification/Publish_Packet.thy ===== *)
theory Publish_Packet
  imports Fixed_Header Packet_Id Topic
begin

unbundle bit_operations_syntax

text \<open>
  The PUBLISH packet (\<open>src/v3/packets/publish/mod.rs\<close>) and its builder (\<open>builder.rs\<close>).
\<close>

section \<open>The builder\<close>

datatype PublishQos =
  PublishQos_AtMostOnce
| PublishQos_AtLeastOnce bool u16
| PublishQos_ExactlyOnce bool u16

record PublishBuilder =
  pb_flags :: TypeFlags
  pb_pkid :: "u16 option"
  pb_topic :: bytes
  pb_payload :: bytes

definition PublishBuilder_new :: "bytes \<Rightarrow> bytes \<Rightarrow> PublishBuilder" where
  "PublishBuilder_new topic payload =
     \<lparr>pb_flags = TypeFlags_empty, pb_pkid = None, pb_topic = topic, pb_payload = payload\<rparr>"

definition PublishBuilder_retain :: "crates \<Rightarrow> PublishBuilder \<Rightarrow> PublishBuilder" where
  "PublishBuilder_retain d this = this\<lparr>pb_flags := bf_bitor d (pb_flags this) PUBLISH_RETAIN\<rparr>"

definition PublishBuilder_qos :: "crates \<Rightarrow> PublishQos \<Rightarrow> PublishBuilder \<Rightarrow> PublishBuilder" where
  "PublishBuilder_qos d qos this0 =
     (let this = this0\<lparr>pb_flags := bf_bitand d (pb_flags this0)
                   (bf_not d TypeFlags_all (bf_bitor d PUBLISH_QOS_1 PUBLISH_QOS_2))\<rparr>
      in case qos of
        PublishQos_AtMostOnce \<Rightarrow> this
      | PublishQos_AtLeastOnce dup pk \<Rightarrow>
          let this = (if dup then this\<lparr>pb_flags := bf_bitor d (pb_flags this) PUBLISH_DUP\<rparr> else this);
              this = this\<lparr>pb_flags := bf_bitor d (pb_flags this) PUBLISH_QOS_1\<rparr>
          in this\<lparr>pb_pkid := Some pk\<rparr>
      | PublishQos_ExactlyOnce dup pk \<Rightarrow>
          let this = (if dup then this\<lparr>pb_flags := bf_bitor d (pb_flags this) PUBLISH_DUP\<rparr> else this);
              this = this\<lparr>pb_flags := bf_bitor d (pb_flags this) PUBLISH_QOS_2\<rparr>
          in this\<lparr>pb_pkid := Some pk\<rparr>)"

section \<open>The packet\<close>

record Publish =
  publish_fixed :: FixedHeader
  publish_topic :: MqttStr
  publish_packet_id :: "PacketId option"
  publish_payload :: bytes

definition contains_wildcard_char :: "crates \<Rightarrow> bytes \<Rightarrow> bool" where
  "contains_wildcard_char d topic \<longleftrightarrow> memchr2 d plus_sign hash_sign topic \<noteq> None"

definition Publish_validate_value :: "crates \<Rightarrow> PublishBuilder \<Rightarrow> unit res" where
  "Publish_validate_value d value =
     (if contains_wildcard_char d (pb_topic value)
      then Err (Error_new Invalid ''PUBLISH topic contains wildcard character'') else Ok ())"

definition Publish_validate :: "crates \<Rightarrow> Publish \<Rightarrow> unit res" where
  "Publish_validate d this =
     (if contains_wildcard_char d (MqttStr_as_str (publish_topic this))
      then Err (Error_new Invalid ''PUBLISH topic contains wildcard character'') else Ok ())"

definition Publish_encode_len :: "PublishBuilder \<Rightarrow> usize res" where
  "Publish_encode_len value =
     and_then (MqttStr_encode_len (pb_topic value)) (\<lambda>len.
     and_then (case pb_pkid value of
         None \<Rightarrow> Ok len
       | Some pk \<Rightarrow>
           and_then (PacketId_encode_len pk) (\<lambda>packet_id.
           ok_or (Error_new Overflow ''PUBLISH encode len'') (checked_add len packet_id))) (\<lambda>len.
     ok_or (Error_new Overflow ''PUBLISH encode len'') (checked_add len (length (pb_payload value)))))"

definition Publish_write_sync :: "crates \<Rightarrow> PublishBuilder \<Rightarrow> usize wr" where
  "Publish_write_sync d value =
     w_then (w_lift (Publish_validate_value d value)) (\<lambda>_.
     w_then (w_lift (Publish_encode_len value)) (\<lambda>rem_len.
     w_then (w_lift (FixedHeaderBuilder_remaining_length
               (FixedHeaderBuilder_with_flags Publish (pb_flags value)) rem_len)) (\<lambda>b.
     w_then (FixedHeaderBuilder_write_sync d b) (\<lambda>written.
     w_then (MqttStr_write_sync d (pb_topic value)) (\<lambda>n.
     w_then (w_lift (usize_add (debug_assertions d) written n)) (\<lambda>written.
     w_then (case pb_pkid value of
         None \<Rightarrow> w_lift (Ok written)
       | Some pk \<Rightarrow>
           w_then (PacketId_write_sync d pk) (\<lambda>n.
           w_lift (usize_add (debug_assertions d) written n))) (\<lambda>written.
     w_then (write_all ''while writing PUBLISH payload'' (pb_payload value)) (\<lambda>_.
     w_lift (usize_add (debug_assertions d) written (length (pb_payload value)))))))))))"

definition Publish_parse :: "crates \<Rightarrow> bytes \<Rightarrow> (Publish \<times> bytes) res" where
  "Publish_parse d buff =
     and_then (FixedHeaderSlice_parse d buff) (\<lambda>(fixed, rest).
     debug_assert (debug_assertions d) (FixedHeader_packet_type fixed = Ok Publish) (
     and_then (RemainingLength_read_len d (remaining_length fixed)) (\<lambda>rem_len.
     and_then (ok_or (Error_new NotEnoughSpace ''PUBLISH packet'') (split_at_checked rem_len rest))
       (\<lambda>(rest, rem).
     and_then (MqttStr_parse d rest) (\<lambda>(topic, rest).
     let has_pkid = bf_intersects d (FixedHeader_flags fixed)
                      (bf_bitor d PUBLISH_QOS_1 PUBLISH_QOS_2) in
     and_then (if has_pkid
               then and_then (PacketId_parse d rest) (\<lambda>(v, r). Ok (Some v, r))
               else Ok (None, rest)) (\<lambda>(packet_id, rest).
     let this = \<lparr>publish_fixed = fixed, publish_topic = topic,
                 publish_packet_id = packet_id, publish_payload = rest\<rparr> in
     and_then (Publish_validate d this) (\<lambda>_.
     Ok (this, rem))))))))"

section \<open>Encoding\<close>

abbreviation qos_bits :: TypeFlags where "qos_bits \<equiv> 0b0110"

definition pkid_bytes :: "crates \<Rightarrow> u16 option \<Rightarrow> bytes" where
  "pkid_bytes d k = opt_bytes (zc_u16_as_bytes d) k"

definition publish_size :: "PublishBuilder \<Rightarrow> nat" where
  "publish_size b =
     2 + length (pb_topic b) + (case pb_pkid b of None \<Rightarrow> 0 | Some _ \<Rightarrow> 2) + length (pb_payload b)"

definition publish_packet :: "crates \<Rightarrow> PublishBuilder \<Rightarrow> bytes" where
  "publish_packet d b =
     frame_header Publish (pb_flags b) (publish_size b) @
     buff_bytes d (pb_topic b) @ pkid_bytes d (pb_pkid b) @ pb_payload b"

definition publish_of :: "PublishBuilder \<Rightarrow> Publish" where
  "publish_of b =
     \<lparr>publish_fixed = header_of Publish (pb_flags b) (publish_size b),
      publish_topic = str_of (pb_topic b),
      publish_packet_id = map_option (\<lambda>k. \<lparr>pkid = k\<rparr>) (pb_pkid b),
      publish_payload = pb_payload b\<rparr>"

text \<open>
  A builder describes a sendable packet when its topic is a permitted topic name and the
  packet fits; it describes a packet the peer can read back when moreover the packet
  identifier is there exactly when the QoS is not 0.
\<close>

definition publish_sendable :: "PublishBuilder \<Rightarrow> bool" where
  "publish_sendable b \<longleftrightarrow>
     flags_ok Publish (pb_flags b) \<and> mqtt_str_ok (pb_topic b) \<and> plain_level (pb_topic b) \<and>
     length (pb_topic b) \<le> 65535 \<and> publish_size b \<le> max_remaining"

definition publish_consistent :: "PublishBuilder \<Rightarrow> bool" where
  "publish_consistent b \<longleftrightarrow>
     (pb_pkid b \<noteq> None \<longleftrightarrow> pb_flags b AND qos_bits \<noteq> 0) \<and> pb_pkid b \<noteq> Some 0"

lemma contains_wildcard_char_iff:
  "crates_ok d \<Longrightarrow> contains_wildcard_char d t \<longleftrightarrow> \<not> plain_level t"
  by (auto simp: contains_wildcard_char_def memchr_laws plain_level_def)

lemma length_pkid_bytes:
  "crates_ok d \<Longrightarrow> length (pkid_bytes d k) = (case k of None \<Rightarrow> 0 | Some _ \<Rightarrow> 2)"
  by (simp add: pkid_bytes_def split: option.split)

lemma length_publish_packet:
  "crates_ok d \<Longrightarrow> length (publish_packet d b) =
     length (frame_header Publish (pb_flags b) (publish_size b)) + publish_size b"
  by (simp add: publish_packet_def publish_size_def length_pkid_bytes)

lemma Publish_encode_len_eq:
  "publish_size b \<le> max_remaining \<Longrightarrow> Publish_encode_len b = Ok (publish_size b)"
  by (cases "pb_pkid b")
    (simp_all add: Publish_encode_len_def MqttStr_encode_len_def PacketId_encode_len_def
      checked_add_def publish_size_def usize_max_def)

lemma publish_sendableD:
  assumes "publish_sendable b"
  shows "flags_ok Publish (pb_flags b)" "mqtt_str_ok (pb_topic b)" "plain_level (pb_topic b)"
    "length (pb_topic b) \<le> 65535" "publish_size b \<le> max_remaining"
  using assms by (simp_all add: publish_sendable_def)

lemma publish_pkid_emits:
  assumes "crates_ok d" "a + length (pkid_bytes d k) \<le> usize_max"
  shows "emits (case k of
         None \<Rightarrow> w_lift (Ok a)
       | Some pk \<Rightarrow> w_then (PacketId_write_sync d pk)
           (\<lambda>n. w_lift (usize_add (debug_assertions d) a n)))
     (a + length (pkid_bytes d k)) (pkid_bytes d k)"
  using emits_option [of k "PacketId_write_sync d" "zc_u16_as_bytes d" a] assms PacketId_write_sync_emits
  by (simp add: pkid_bytes_def)

lemma Publish_write_sync_emits:
  assumes "crates_ok d" "publish_sendable b"
  shows "emits (Publish_write_sync d b) (length (publish_packet d b)) (publish_packet d b)"
proof -
  note b = publish_sendableD [OF assms(2)]
  let ?h = "length (frame_header Publish (pb_flags b) (publish_size b))"
  let ?t = "2 + length (pb_topic b)" and ?p = "length (pkid_bytes d (pb_pkid b))"
  have sz: "publish_size b = ?t + ?p + length (pb_payload b)"
    using assms(1) by (simp add: publish_size_def length_pkid_bytes split: option.split)
  have h: "?h \<le> 5" by (rule length_frame_header_bounds(2) [OF b(5)])
  have fits: "?h + ?t + ?p + length (pb_payload b) \<le> usize_max"
    using h b(5) sz by (simp add: usize_max_def)
  have v: "Publish_validate_value d b = Ok ()"
    using assms(1) b(3) by (simp add: Publish_validate_value_def contains_wildcard_char_iff)
  have tail: "emits (w_then (write_all ''while writing PUBLISH payload'' (pb_payload b))
      (\<lambda>_. w_lift (usize_add (debug_assertions d) (?h + ?t + ?p) (length (pb_payload b)))))
      (?h + ?t + ?p + length (pb_payload b)) (pb_payload b)"
    using fits by (intro emits_then [OF emits_write_all emits_lift]) (simp_all add: usize_add_eq)
  have opt: "?h + ?t + ?p \<le> usize_max" using fits by simp
  have total: "length (publish_packet d b) = ?h + ?t + ?p + length (pb_payload b)"
    using assms(1) by (simp add: length_publish_packet sz)
  have bytes: "publish_packet d b = frame_header Publish (pb_flags b) (publish_size b) @
      buff_bytes d (pb_topic b) @ pkid_bytes d (pb_pkid b) @ pb_payload b"
    by (simp add: publish_packet_def)
  show ?thesis
    unfolding Publish_write_sync_def v Publish_encode_len_eq [OF b(5)] w_then_lift_Ok
  proof (rule frame_header_then_emits [OF assms(1) b(1,5) _ bytes])
    show "emits (w_then (MqttStr_write_sync d (pb_topic b)) (\<lambda>n.
     w_then (w_lift (usize_add (debug_assertions d) ?h n)) (\<lambda>written.
     w_then (case pb_pkid b of
         None \<Rightarrow> w_lift (Ok written)
       | Some pk \<Rightarrow> w_then (PacketId_write_sync d pk) (\<lambda>n.
           w_lift (usize_add (debug_assertions d) written n))) (\<lambda>written.
     w_then (write_all ''while writing PUBLISH payload'' (pb_payload b)) (\<lambda>_.
     w_lift (usize_add (debug_assertions d) written (length (pb_payload b))))))))
     (length (publish_packet d b)) (buff_bytes d (pb_topic b) @ pkid_bytes d (pb_pkid b) @ pb_payload b)"
    proof (rule emits_count_then [OF MqttStr_write_sync_emits [OF b(2,4) refl] _ _ refl])
      show "emits (w_then (case pb_pkid b of
           None \<Rightarrow> w_lift (Ok (?h + ?t))
         | Some pk \<Rightarrow> w_then (PacketId_write_sync d pk) (\<lambda>n.
             w_lift (usize_add (debug_assertions d) (?h + ?t) n))) (\<lambda>written.
         w_then (write_all ''while writing PUBLISH payload'' (pb_payload b)) (\<lambda>_.
         w_lift (usize_add (debug_assertions d) written (length (pb_payload b))))))
        (length (publish_packet d b)) (pkid_bytes d (pb_pkid b) @ pb_payload b)"
        unfolding total
        by (rule emits_then [OF publish_pkid_emits [OF assms(1) opt] _ refl]) (rule tail)
    qed (use fits in simp)
  qed
qed


section \<open>Decoding\<close>

definition publish_body :: "crates \<Rightarrow> Publish \<Rightarrow> bytes" where
  "publish_body d p =
     zc_u16_as_bytes d (str_len (publish_topic p)) @ str_data (publish_topic p) @
     pkid_bytes d (map_option pkid (publish_packet_id p)) @ publish_payload p"

lemma Publish_parse_packet [parse_simp]:
  assumes "crates_ok d" "publish_sendable b" "publish_consistent b"
  shows "Publish_parse d (publish_packet d b @ rest) = Ok (publish_of b, rest)"
proof -
  note b = publish_sendableD [OF assms(2)]
  let ?body = "buff_bytes d (pb_topic b) @ pkid_bytes d (pb_pkid b) @ pb_payload b"
  have len: "length ?body = publish_size b"
    using assms(1) by (simp add: publish_size_def length_pkid_bytes split: option.split)
  have split: "split_at_checked (publish_size b) (?body @ rest) = Some (?body, rest)"
    using len [symmetric] by (simp add: split_at_checked_def)
  have hdr: "FixedHeaderSlice_parse d (publish_packet d b @ rest) =
      Ok (header_of Publish (pb_flags b) (publish_size b), ?body @ rest)"
    using FixedHeaderSlice_parse_header [OF assms(1) b(1,5)] by (simp add: publish_packet_def)
  have topic: "MqttStr_parse d ?body = Ok (str_of (pb_topic b), pkid_bytes d (pb_pkid b) @ pb_payload b)"
    by (rule MqttStr_parse_bytes [OF assms(1) b(2,4)])
  have qos: "bf_intersects d (pb_flags b) (bf_bitor d PUBLISH_QOS_1 PUBLISH_QOS_2) \<longleftrightarrow> pb_pkid b \<noteq> None"
    using assms(1,3) by (simp add: crate_law publish_consistent_def PUBLISH_QOS_1_def PUBLISH_QOS_2_def)
  have pkid: "(if pb_pkid b \<noteq> None
      then and_then (PacketId_parse d (pkid_bytes d (pb_pkid b) @ pb_payload b)) (\<lambda>(v, r). Ok (Some v, r))
      else Ok (None, pkid_bytes d (pb_pkid b) @ pb_payload b)) =
      Ok (map_option (\<lambda>k. \<lparr>pkid = k\<rparr>) (pb_pkid b), pb_payload b)"
    using assms(1,3) by (auto simp: pkid_bytes_def PacketId_parse_bytes publish_consistent_def)
  have plain: "Publish_validate d (publish_of b) = Ok ()"
    using assms(1) b(3)
    by (simp add: contains_wildcard_char_iff Publish_validate_def publish_of_def str_of_def MqttStr_as_str_def)
  show ?thesis
    using b(1,5) plain
    by (simp only: Publish_parse_def hdr and_then.simps prod.case header_of_simps debug_assert_True
        read_len_header_of split ok_or.simps topic Let_def qos pkid publish_of_def
        simp_thms)
qed

lemma Publish_parse_Ok:
  assumes "crates_ok d" "Publish_parse d buf = Ok (p, rem)"
  shows "framed (publish_fixed p) (publish_body d p)"
    and "buf = header_bytes (publish_fixed p) @ publish_body d p @ rem"
    and "debug_assertions d \<Longrightarrow> FixedHeader_packet_type (publish_fixed p) = Ok Publish"
    and "publish_packet_id p \<noteq> None \<longleftrightarrow> FixedHeader_flags (publish_fixed p) AND qos_bits \<noteq> 0"
    and "publish_packet_id p \<noteq> Some \<lparr>pkid = 0\<rparr>"
    and "mqtt_str_ok (str_data (publish_topic p))" "plain_level (str_data (publish_topic p))"
    and "unat (str_len (publish_topic p)) = length (str_data (publish_topic p))"
proof -
  from assms(2) obtain fixed rest n body topic rest' pk payload where
    fixed: "FixedHeaderSlice_parse d buf = Ok (fixed, rest)"
    and type: "debug_assertions d \<longrightarrow> FixedHeader_packet_type fixed = Ok Publish"
    and n: "RemainingLength_read_len d (remaining_length fixed) = Ok n"
    and split: "split_at_checked n rest = Some (body, rem)"
    and topic: "MqttStr_parse d body = Ok (topic, rest')"
    and pk: "(if bf_intersects d (FixedHeader_flags fixed) (bf_bitor d PUBLISH_QOS_1 PUBLISH_QOS_2)
        then and_then (PacketId_parse d rest') (\<lambda>(v, r). Ok (Some v, r)) else Ok (None, rest')) =
        (Ok (pk, payload) :: (PacketId option \<times> bytes) res)"
    and p: "p = \<lparr>publish_fixed = fixed, publish_topic = topic, publish_packet_id = pk,
        publish_payload = payload\<rparr>"
    and valid: "Publish_validate d p = Ok ()"
    by (auto simp: Publish_parse_def Let_def simp del: if_split)
  have pk': "rest' = pkid_bytes d (map_option pkid pk) @ payload \<and> pk \<noteq> Some \<lparr>pkid = 0\<rparr> \<and>
      (pk \<noteq> None \<longleftrightarrow> FixedHeader_flags fixed AND qos_bits \<noteq> 0)"
    using pk assms(1)
    by (auto simp: bitflags_laws PUBLISH_QOS_1_def PUBLISH_QOS_2_def pkid_bytes_def
        PacketId_parse_iff split: if_splits)
  then have "body = publish_body d p"
    using topic assms(1) by (simp add: MqttStr_parse_iff publish_body_def p)
  with FixedHeaderSlice_parse_split [OF assms(1) fixed n split]
  show "framed (publish_fixed p) (publish_body d p)"
    and "buf = header_bytes (publish_fixed p) @ publish_body d p @ rem" by (simp_all add: p)
  show "debug_assertions d \<Longrightarrow> FixedHeader_packet_type (publish_fixed p) = Ok Publish"
    using type by (simp add: p)
  show "publish_packet_id p \<noteq> None \<longleftrightarrow> FixedHeader_flags (publish_fixed p) AND qos_bits \<noteq> 0"
    and "publish_packet_id p \<noteq> Some \<lparr>pkid = 0\<rparr>" using pk' by (simp_all add: p)
  show "mqtt_str_ok (str_data (publish_topic p))"
    "unat (str_len (publish_topic p)) = length (str_data (publish_topic p))"
    using topic assms(1) by (simp_all add: MqttStr_parse_iff p)
  show "plain_level (str_data (publish_topic p))"
    using valid assms(1) by (auto simp: Publish_validate_def contains_wildcard_char_iff MqttStr_as_str_def
        split: if_splits)
qed

lemma Publish_parse_no_Panic:
  assumes "crates_ok d" "ControlPacketType_parse d b = Ok (Publish, f)"
  shows "Publish_parse d (b # bs) \<noteq> Panic"
proof (cases "FixedHeaderSlice_parse d (b # bs)")
  case (Ok p)
  then obtain h rest where p: "p = (h, rest)" by (cases p)
  with Ok FixedHeaderSlice_parse_type [OF assms] have "FixedHeader_packet_type h = Ok Publish" by simp
  moreover from FixedHeaderSlice_read_len [OF assms(1) Ok [unfolded p]]
  obtain n where "RemainingLength_read_len d (remaining_length h) = Ok n" by blast
  ultimately show ?thesis
    using Ok p assms(1) MqttStr_parse_no_Panic PacketId_parse_no_Panic
    by (auto simp: Publish_parse_def and_then_Panic_iff Let_def Publish_validate_def split: if_splits)
qed (use FixedHeaderSlice_parse_no_Panic [OF assms(1)] in \<open>simp_all add: Publish_parse_def\<close>)

section \<open>The builder makes sendable packets\<close>

definition qos_pkid :: "PublishQos \<Rightarrow> u16 option" where
  "qos_pkid q =
     (case q of PublishQos_AtMostOnce \<Rightarrow> None
      | PublishQos_AtLeastOnce _ k \<Rightarrow> Some k | PublishQos_ExactlyOnce _ k \<Rightarrow> Some k)"

definition qos_flag :: "PublishQos \<Rightarrow> TypeFlags" where
  "qos_flag q =
     (case q of PublishQos_AtMostOnce \<Rightarrow> 0
      | PublishQos_AtLeastOnce _ _ \<Rightarrow> PUBLISH_QOS_1 | PublishQos_ExactlyOnce _ _ \<Rightarrow> PUBLISH_QOS_2)"

lemmas publish_flag_defs =
  PUBLISH_QOS_1_def PUBLISH_QOS_2_def PUBLISH_DUP_def PUBLISH_RETAIN_def TypeFlags_all_def
  TypeFlags_empty_def

lemma PublishBuilder_qos_fields [simp]:
  "pb_pkid (PublishBuilder_qos d q b) = (if qos_pkid q = None then pb_pkid b else qos_pkid q)"
  "pb_topic (PublishBuilder_qos d q b) = pb_topic b"
  "pb_payload (PublishBuilder_qos d q b) = pb_payload b"
  by (cases q; simp add: PublishBuilder_qos_def Let_def qos_pkid_def)+

lemma PublishBuilder_retain_fields [simp]:
  "pb_pkid (PublishBuilder_retain d b) = pb_pkid b"
  "pb_topic (PublishBuilder_retain d b) = pb_topic b"
  "pb_payload (PublishBuilder_retain d b) = pb_payload b"
  by (simp_all add: PublishBuilder_retain_def)

section \<open>The codec\<close>

interpretation publish: codec crates_ok Publish_parse
  "\<lambda>b. publish_sendable b \<and> publish_consistent b" publish_packet publish_of
proof unfold_locales
  show "\<exists>pre. pre \<noteq> [] \<and> buf = pre @ rest"
    if "crates_ok d" "Publish_parse d buf = Ok (x, rest)" for d buf x rest
    using Publish_parse_Ok(2) [OF that]
    by (intro exI [of _ "header_bytes (publish_fixed x) @ publish_body d x"]) simp
qed (simp add: Publish_parse_packet)

section \<open>Correctness\<close>

definition sample_publish :: PublishBuilder where
  "sample_publish =
     \<lparr>pb_flags = 0b1010, pb_pkid = Some 10, pb_topic = [0x61, slash, 0x62], pb_payload = [42]\<rparr>"

lemma sample_publish_ok: "publish_sendable sample_publish" "publish_consistent sample_publish"
proof -
  have "mqtt_str_ok [0x61, slash, 0x62]" by code_simp
  then show "publish_sendable sample_publish" "publish_consistent sample_publish"
    by (simp_all add: publish_sendable_def publish_consistent_def sample_publish_def flags_ok_def
        TypeFlags_all_def plain_level_def publish_size_def)
qed

lemma publish_round_trip_aux:
  assumes "crates_ok d" "publish_sendable b" "publish_consistent b"
  shows "\<exists>p. Publish_parse d (publish_packet d b @ rest) = Ok (p, rest) \<and>
    MqttStr_as_str (publish_topic p) = pb_topic b \<and> publish_payload p = pb_payload b \<and>
    map_option pkid (publish_packet_id p) = pb_pkid b \<and>
    FixedHeader_flags (publish_fixed p) = pb_flags b"
  using Publish_parse_packet [OF assms] publish_sendableD(1) [OF assms(2)]
  by (intro exI [of _ "publish_of b"]) (simp add: publish_of_def option.map_comp o_def option.map_ident)

text \<open>C16: A PUBLISH with a permitted topic name that fits the size limit, whose packet identifier is
  there exactly when the QoS is not 0, is put on the wire whole with its length reported, and read
  back by the peer: topic, identifier, payload and flags are those of the builder.\<close>

theorem publish_round_trip:
  assumes "crates_ok d" "publish_sendable b" "publish_consistent b"
  shows "\<exists>p. emits (Publish_write_sync d b) (length (publish_packet d b)) (publish_packet d b) \<and>
    Publish_parse d (publish_packet d b @ rest) = Ok (p, rest) \<and>
    MqttStr_as_str (publish_topic p) = pb_topic b \<and> publish_payload p = pb_payload b \<and>
    map_option pkid (publish_packet_id p) = pb_pkid b \<and>
    FixedHeader_flags (publish_fixed p) = pb_flags b"
  using Publish_write_sync_emits [OF assms(1,2)] publish_round_trip_aux [OF assms] by blast

theorem publish_round_trip_witness:
  "\<exists>p. Publish_parse (std_crates True) [0x3A, 8, 0, 3, 0x61, 0x2F, 0x62, 0, 10, 42, 5] = Ok (p, [5]) \<and>
     publish_payload p = [42] \<and> map_option pkid (publish_packet_id p) = Some 10"
proof -
  have "publish_packet (std_crates True) sample_publish = [0x3A, 8, 0, 3, 0x61, 0x2F, 0x62, 0, 10, 42]"
    by code_simp
  with publish_round_trip [OF std_crates_ok sample_publish_ok, of True "[5]"] show ?thesis
    by (auto simp: sample_publish_def)
qed

text \<open>C17: A buffer that parses as a PUBLISH is, byte for byte, its header and the encoding of the
  value that was returned. The topic has no wildcard and only permitted characters, and a
  non-zero packet identifier is there exactly when one of the two QoS bits is set.\<close>

theorem publish_parse_sound:
  assumes "crates_ok d" "Publish_parse d buf = Ok (p, rem)"
  shows "framed (publish_fixed p) (publish_body d p) \<and>
    buf = header_bytes (publish_fixed p) @ publish_body d p @ rem \<and>
    mqtt_str_ok (MqttStr_as_str (publish_topic p)) \<and> plain_level (MqttStr_as_str (publish_topic p)) \<and>
    (publish_packet_id p \<noteq> None \<longleftrightarrow> FixedHeader_flags (publish_fixed p) AND qos_bits \<noteq> 0) \<and>
    publish_packet_id p \<noteq> Some \<lparr>pkid = 0\<rparr>"
  using Publish_parse_Ok [OF assms] by (simp add: MqttStr_as_str_def)

theorem publish_parse_sound_witness:
  "framed (publish_fixed (publish_of sample_publish))
     (publish_body (std_crates True) (publish_of sample_publish))"
proof -
  have "Publish_parse (std_crates True) (publish_packet (std_crates True) sample_publish @ []) =
      Ok (publish_of sample_publish, [])"
    by (rule Publish_parse_packet [OF std_crates_ok sample_publish_ok])
  from publish_parse_sound [OF std_crates_ok this] show ?thesis by blast
qed

text \<open>A packet identifier on a packet with QoS 0: the packet is written, and the peer reads the two
  identifier bytes as the start of the payload.\<close>

lemma publish_pkid_in_payload:
  assumes "crates_ok d" "pb_pkid b = Some k" "pb_flags b AND qos_bits = 0" "publish_sendable b"
  shows "\<exists>p. Publish_parse d (publish_packet d b @ rest) = Ok (p, rest) \<and> publish_packet_id p = None \<and>
    publish_topic p = str_of (pb_topic b) \<and> FixedHeader_flags (publish_fixed p) = pb_flags b \<and>
    publish_payload p = zc_u16_as_bytes d k @ pb_payload b"
proof -
  let ?c = "b\<lparr>pb_pkid := None, pb_payload := zc_u16_as_bytes d k @ pb_payload b\<rparr>"
  have same: "publish_packet d ?c = publish_packet d b" "publish_size ?c = publish_size b"
    using assms(1,2) by (simp_all add: publish_packet_def publish_size_def pkid_bytes_def)
  then have c: "publish_sendable ?c" "publish_consistent ?c"
    using assms(3,4) by (simp_all add: publish_sendable_def publish_consistent_def)
  from Publish_parse_packet [OF assms(1) c, of rest] same(1) publish_sendableD(1) [OF c(1)] show ?thesis
    by (intro exI [of _ "publish_of ?c"]) (simp add: publish_of_def)
qed

text \<open>A run of the builder: \<open>new\<close> and then any calls of \<open>retain\<close> and \<open>qos\<close>. The specification
  reads off the calls what the packet has to say.\<close>

datatype builder_call = Call_retain | Call_qos PublishQos

primrec publish_call :: "crates \<Rightarrow> builder_call \<Rightarrow> PublishBuilder \<Rightarrow> PublishBuilder" where
  "publish_call d Call_retain b = PublishBuilder_retain d b"
| "publish_call d (Call_qos q) b = PublishBuilder_qos d q b"

definition publish_built :: "crates \<Rightarrow> bytes \<Rightarrow> bytes \<Rightarrow> builder_call list \<Rightarrow> PublishBuilder" where
  "publish_built d t m cs = fold (publish_call d) cs (PublishBuilder_new t m)"

definition qos_dup :: "PublishQos \<Rightarrow> bool" where
  "qos_dup q = (case q of PublishQos_AtMostOnce \<Rightarrow> False
     | PublishQos_AtLeastOnce dup _ \<Rightarrow> dup | PublishQos_ExactlyOnce dup _ \<Rightarrow> dup)"

definition call_qos :: "builder_call list \<Rightarrow> PublishQos list" where
  "call_qos cs = concat (map (\<lambda>c. case c of Call_retain \<Rightarrow> [] | Call_qos q \<Rightarrow> [q]) cs)"

definition last_qos :: "builder_call list \<Rightarrow> PublishQos" where
  "last_qos cs = (if call_qos cs = [] then PublishQos_AtMostOnce else last (call_qos cs))"

definition last_pkid :: "builder_call list \<Rightarrow> u16 option" where
  "last_pkid cs = fold (\<lambda>q k. if qos_pkid q = None then k else qos_pkid q) (call_qos cs) None"

definition call_flags :: "builder_call list \<Rightarrow> TypeFlags" where
  "call_flags cs =
     (if Call_retain \<in> set cs then PUBLISH_RETAIN else 0) OR qos_flag (last_qos cs) OR
     (if list_ex qos_dup (call_qos cs) then PUBLISH_DUP else 0)"

lemma call_qos_append [simp]: "call_qos (cs @ [Call_retain]) = call_qos cs" "call_qos (cs @ [Call_qos q]) = call_qos cs @ [q]"
  by (simp_all add: call_qos_def)

lemma publish_built_snoc [simp]: "publish_built d t m (cs @ [c]) = publish_call d c (publish_built d t m cs)"
  by (simp add: publish_built_def)

lemma publish_built_fields [simp]:
  "pb_topic (publish_built d t m cs) = t" "pb_payload (publish_built d t m cs) = m"
  "pb_pkid (publish_built d t m cs) = last_pkid cs"
proof (induction cs rule: rev_induct)
  case Nil
  { case 1 show ?case by (simp add: publish_built_def PublishBuilder_new_def) }
  { case 2 show ?case by (simp add: publish_built_def PublishBuilder_new_def) }
  { case 3 show ?case by (simp add: publish_built_def PublishBuilder_new_def last_pkid_def call_qos_def) }
next
  case (snoc c cs)
  { case 1 from snoc show ?case by (cases c) simp_all }
  { case 2 from snoc show ?case by (cases c) simp_all }
  { case 3 from snoc show ?case by (cases c) (simp_all add: last_pkid_def) }
qed

lemma PublishBuilder_qos_flags_eq:
  assumes "crates_ok d"
  shows "pb_flags (PublishBuilder_qos d q b) =
    (pb_flags b AND 0b1001) OR qos_flag q OR (if qos_dup q then PUBLISH_DUP else 0)"
  using assms
  by (cases q) (simp_all add: PublishBuilder_qos_def bitflags_laws Let_def qos_flag_def qos_dup_def publish_flag_defs
      or.assoc or.commute or.left_commute)

lemma flags_but_qos:
  "((if r then PUBLISH_RETAIN else 0) OR qos_flag p OR (if e then PUBLISH_DUP else 0)) AND 0b1001 =
    (if r then PUBLISH_RETAIN else 0) OR (if e then PUBLISH_DUP else 0)"
  "((if r then PUBLISH_RETAIN else 0) OR qos_flag p OR (if e then PUBLISH_DUP else 0)) AND qos_bits = qos_flag p"
  "((if r then PUBLISH_RETAIN else 0) OR qos_flag p OR (if e then PUBLISH_DUP else 0)) AND NOT TypeFlags_all = 0"
  by (cases r; cases e; cases p; simp add: qos_flag_def publish_flag_defs)+

lemma flags_join:
  "((if r then PUBLISH_RETAIN else 0) OR (if e then PUBLISH_DUP else 0)) OR qos_flag p OR (if f then PUBLISH_DUP else 0) =
    (if r then PUBLISH_RETAIN else 0) OR qos_flag p OR (if e \<or> f then PUBLISH_DUP else 0)"
  by (cases r; cases e; cases f; cases p; simp add: qos_flag_def publish_flag_defs)

lemma publish_built_flags:
  assumes "crates_ok d"
  shows "pb_flags (publish_built d t m cs) = call_flags cs"
proof (induction cs rule: rev_induct)
  case Nil
  show ?case by (simp add: publish_built_def PublishBuilder_new_def call_flags_def last_qos_def call_qos_def
        qos_flag_def TypeFlags_empty_def)
next
  case (snoc c cs)
  show ?case
  proof (cases c)
    case Call_retain
    with snoc assms show ?thesis
      by (simp add: PublishBuilder_retain_def bitflags_laws call_flags_def last_qos_def or.assoc or.commute or.left_commute)
  next
    case (Call_qos q)
    have "call_flags cs AND 0b1001 = (if Call_retain \<in> set cs then PUBLISH_RETAIN else 0) OR
        (if list_ex qos_dup (call_qos cs) then PUBLISH_DUP else 0)"
      by (simp only: call_flags_def flags_but_qos)
    moreover have "call_flags (cs @ [c]) = (if Call_retain \<in> set cs then PUBLISH_RETAIN else 0) OR qos_flag q OR
        (if list_ex qos_dup (call_qos cs) \<or> qos_dup q then PUBLISH_DUP else 0)"
      using Call_qos by (simp add: call_flags_def last_qos_def)
    ultimately show ?thesis
      using Call_qos by (simp only: publish_built_snoc publish_call.simps PublishBuilder_qos_flags_eq [OF assms] snoc
          flags_join)
  qed
qed

lemma last_pkid_of_qos: "last_qos cs \<noteq> PublishQos_AtMostOnce \<Longrightarrow> last_pkid cs = qos_pkid (last_qos cs)"
proof (induction cs rule: rev_induct)
  case (snoc c cs)
  then show ?case
    by (cases c) (auto simp: last_qos_def last_pkid_def qos_pkid_def split: PublishQos.splits)
qed (simp add: last_qos_def call_qos_def)

lemma last_pkid_nonzero:
  "list_all (\<lambda>q. qos_pkid q \<noteq> Some 0) (call_qos cs) \<Longrightarrow> last_pkid cs \<noteq> Some 0"
proof (induction cs rule: rev_induct)
  case (snoc c cs)
  then show ?case by (cases c) (auto simp: last_pkid_def)
qed (simp add: last_pkid_def call_qos_def)

lemma publish_built_sendable:
  assumes "crates_ok d" "mqtt_str_ok t" "plain_level t" "length t \<le> 65535" "4 + length t + length m \<le> max_remaining"
  shows "publish_sendable (publish_built d t m cs)"
  using assms
  by (auto simp: publish_sendable_def publish_built_flags call_flags_def flags_ok_def flags_but_qos publish_size_def
      split: option.split)

text \<open>C18: The builder of a PUBLISH, with any calls in any order, for a permitted topic and a payload that
  fits. The packet is put on the wire whole, and what the peer reads is what the calls said: RETAIN
  exactly when \<open>retain\<close> was called, the QoS and its packet identifier of the last \<open>qos\<close>
  call (0 when there was none), topic and payload unchanged. Two things outlive the
  call that set them: DUP is set as soon as one \<open>qos\<close> call asked for it, and a packet identifier stays when QoS 0
  is set after a higher QoS; the peer then reads its two bytes as the start of the payload.\<close>

theorem publish_builder_consistent:
  assumes "crates_ok d" "mqtt_str_ok t" "plain_level t" "length t \<le> 65535" "4 + length t + length m \<le> max_remaining"
    and "list_all (\<lambda>q. qos_pkid q \<noteq> Some 0) (call_qos cs)"
  shows "\<exists>n pkt p. emits (Publish_write_sync d (publish_built d t m cs)) n pkt \<and> n = length pkt \<and>
    Publish_parse d (pkt @ rest) = Ok (p, rest) \<and> MqttStr_as_str (publish_topic p) = t \<and>
    FixedHeader_flags (publish_fixed p) =
      (if Call_retain \<in> set cs then PUBLISH_RETAIN else 0) OR qos_flag (last_qos cs) OR
      (if list_ex qos_dup (call_qos cs) then PUBLISH_DUP else 0) \<and>
    map_option pkid (publish_packet_id p) = qos_pkid (last_qos cs) \<and>
    publish_payload p =
      (case last_pkid cs of
         Some k \<Rightarrow> if last_qos cs = PublishQos_AtMostOnce then zc_u16_as_bytes d k @ m else m
       | None \<Rightarrow> m)"
proof -
  let ?b = "publish_built d t m cs"
  note ok = publish_built_sendable [OF assms(1-5), of cs] and flags = publish_built_flags [OF assms(1), of t m cs]
  have bits: "pb_flags ?b AND qos_bits = qos_flag (last_qos cs)" by (simp only: flags call_flags_def flags_but_qos)
  have zero: "qos_flag q = 0 \<longleftrightarrow> q = PublishQos_AtMostOnce" for q
    by (cases q) (simp_all add: qos_flag_def publish_flag_defs)
  note emits = Publish_write_sync_emits [OF assms(1) ok]
  show ?thesis
  proof (cases "last_qos cs = PublishQos_AtMostOnce \<and> last_pkid cs \<noteq> None")
    case True
    then obtain k where k: "pb_pkid ?b = Some k" "pb_flags ?b AND qos_bits = 0" using bits zero by auto
    from publish_pkid_in_payload [OF assms(1) k ok, of rest] obtain p where
      "Publish_parse d (publish_packet d ?b @ rest) = Ok (p, rest)" "publish_packet_id p = None"
      "publish_topic p = str_of t" "FixedHeader_flags (publish_fixed p) = call_flags cs"
      "publish_payload p = zc_u16_as_bytes d k @ m" by (auto simp: flags)
    with True k emits show ?thesis
      by (intro exI [of _ "length (publish_packet d ?b)"] exI [of _ "publish_packet d ?b"] exI [of _ p])
        (simp add: call_flags_def qos_pkid_def)
  next
    case False
    have pkid: "last_pkid cs = qos_pkid (last_qos cs)"
      using False last_pkid_of_qos [of cs]
      by (cases "last_qos cs = PublishQos_AtMostOnce") (simp_all add: qos_pkid_def)
    then have "publish_consistent ?b"
      using bits zero last_pkid_nonzero [OF assms(6)]
      by (auto simp: publish_consistent_def qos_pkid_def split: PublishQos.splits)
    from publish_round_trip_aux [OF assms(1) ok this, of rest] obtain p where
      "Publish_parse d (publish_packet d ?b @ rest) = Ok (p, rest)" "MqttStr_as_str (publish_topic p) = t"
      "publish_payload p = m" "map_option pkid (publish_packet_id p) = last_pkid cs"
      "FixedHeader_flags (publish_fixed p) = call_flags cs" by (auto simp: flags)
    with False pkid emits show ?thesis
      by (intro exI [of _ "length (publish_packet d ?b)"] exI [of _ "publish_packet d ?b"] exI [of _ p])
        (auto simp: call_flags_def split: option.split)
  qed
qed

text \<open>DUP of the first call stays, and so does the identifier 7, which becomes the start of the payload.\<close>

theorem publish_builder_consistent_witness:
  "\<exists>n pkt p. emits (Publish_write_sync (std_crates True) (publish_built (std_crates True) [0x61] [42]
      [Call_qos (PublishQos_ExactlyOnce True 7), Call_retain, Call_qos PublishQos_AtMostOnce])) n pkt \<and>
    Publish_parse (std_crates True) pkt = Ok (p, []) \<and>
    FixedHeader_flags (publish_fixed p) = 0b1001 \<and> publish_payload p = [0, 7, 42]"
proof -
  let ?cs = "[Call_qos (PublishQos_ExactlyOnce True 7), Call_retain, Call_qos PublishQos_AtMostOnce]"
  have "mqtt_str_ok [0x61]" "zc_u16_as_bytes (std_crates True) 7 = [0, 7]" by code_simp+
  moreover have "call_qos ?cs = [PublishQos_ExactlyOnce True 7, PublishQos_AtMostOnce]" by (simp add: call_qos_def)
  moreover from this have "last_qos ?cs = PublishQos_AtMostOnce" "last_pkid ?cs = Some 7"
    by (simp_all add: last_qos_def last_pkid_def qos_pkid_def)
  ultimately show ?thesis
    using publish_builder_consistent [OF std_crates_ok, of "[0x61]" "[42]" ?cs True "[]"]
    by (auto simp: plain_level_def qos_pkid_def qos_flag_def qos_dup_def publish_flag_defs)
qed

end
