(* ===== verification/Publish_Acks.thy ===== *)
theory Publish_Acks
  imports Fixed_Header Packet_Id
begin

text \<open>
  The packets that carry only a packet identifier: PUBACK, PUBREC, PUBREL and PUBCOMP
  (\<open>src/v3/packets/publish/{ack,rec,rel,comp}.rs\<close>) and UNSUBACK
  (\<open>src/v3/packets/unsubscribe/ack.rs\<close>). The five files repeat one shape; it is stated
  once, as \<open>pkid_write\<close> and \<open>pkid_parse\<close>, and each packet's operations are shown to be
  instances of it.
\<close>

section \<open>PubAck\<close>

record PubAck =
  puback_pkid :: PacketId

definition PubAck_validate_value :: "u16 \<Rightarrow> unit res" where
  "PubAck_validate_value value = Ok ()"

definition PubAck_validate :: "PubAck \<Rightarrow> unit res" where
  "PubAck_validate this = Ok ()"

definition PubAck_encode_len :: "u16 \<Rightarrow> usize res" where
  "PubAck_encode_len value = PacketId_encode_len value"

definition PubAck_write_sync :: "crates \<Rightarrow> u16 \<Rightarrow> usize wr" where
  "PubAck_write_sync d value =
     w_then (w_lift (PubAck_encode_len value)) (\<lambda>len.
     w_then (w_lift (FixedHeaderBuilder_remaining_length (FixedHeaderBuilder_new PubAck) len)) (\<lambda>b.
     w_then (FixedHeaderBuilder_write_sync d b) (\<lambda>written.
     w_then (PacketId_write_sync d value) (\<lambda>n.
     w_lift (usize_add (debug_assertions d) written n)))))"

definition PubAck_parse :: "crates \<Rightarrow> bytes \<Rightarrow> (PubAck \<times> bytes) res" where
  "PubAck_parse d buf =
     and_then (FixedHeaderArray_parse d 1 buf) (\<lambda>(fixed, rest).
     debug_assert (debug_assertions d) (FixedHeader_packet_type fixed = Ok PubAck) (
     and_then (PacketId_parse d rest) (\<lambda>(pkid, rest).
     let this = \<lparr>puback_pkid = pkid\<rparr> in
     and_then (PubAck_validate this) (\<lambda>_.
     Ok (this, rest)))))"

section \<open>PubRec\<close>

record PubRec =
  pubrec_pkid :: PacketId

definition PubRec_validate_value :: "u16 \<Rightarrow> unit res" where
  "PubRec_validate_value value = Ok ()"

definition PubRec_validate :: "PubRec \<Rightarrow> unit res" where
  "PubRec_validate this = Ok ()"

definition PubRec_encode_len :: "u16 \<Rightarrow> usize res" where
  "PubRec_encode_len value = PacketId_encode_len value"

definition PubRec_write_sync :: "crates \<Rightarrow> u16 \<Rightarrow> usize wr" where
  "PubRec_write_sync d value =
     w_then (w_lift (PubRec_encode_len value)) (\<lambda>len.
     w_then (w_lift (FixedHeaderBuilder_remaining_length (FixedHeaderBuilder_new PubRec) len)) (\<lambda>b.
     w_then (FixedHeaderBuilder_write_sync d b) (\<lambda>written.
     w_then (PacketId_write_sync d value) (\<lambda>n.
     w_lift (usize_add (debug_assertions d) written n)))))"

definition PubRec_parse :: "crates \<Rightarrow> bytes \<Rightarrow> (PubRec \<times> bytes) res" where
  "PubRec_parse d buf =
     and_then (FixedHeaderArray_parse d 1 buf) (\<lambda>(fixed, rest).
     debug_assert (debug_assertions d) (FixedHeader_packet_type fixed = Ok PubRec) (
     and_then (PacketId_parse d rest) (\<lambda>(pkid, rest).
     let this = \<lparr>pubrec_pkid = pkid\<rparr> in
     and_then (PubRec_validate this) (\<lambda>_.
     Ok (this, rest)))))"

section \<open>PubRel\<close>

record PubRel =
  pubrel_pkid :: PacketId

definition PubRel_validate_value :: "u16 \<Rightarrow> unit res" where
  "PubRel_validate_value value = Ok ()"

definition PubRel_validate :: "PubRel \<Rightarrow> unit res" where
  "PubRel_validate this = Ok ()"

definition PubRel_encode_len :: "u16 \<Rightarrow> usize res" where
  "PubRel_encode_len value = PacketId_encode_len value"

definition PubRel_write_sync :: "crates \<Rightarrow> u16 \<Rightarrow> usize wr" where
  "PubRel_write_sync d value =
     w_then (w_lift (PubRel_encode_len value)) (\<lambda>len.
     w_then (w_lift (FixedHeaderBuilder_remaining_length (FixedHeaderBuilder_new PubRel) len)) (\<lambda>b.
     w_then (FixedHeaderBuilder_write_sync d b) (\<lambda>written.
     w_then (PacketId_write_sync d value) (\<lambda>n.
     w_lift (usize_add (debug_assertions d) written n)))))"

definition PubRel_parse :: "crates \<Rightarrow> bytes \<Rightarrow> (PubRel \<times> bytes) res" where
  "PubRel_parse d buf =
     and_then (FixedHeaderArray_parse d 1 buf) (\<lambda>(fixed, rest).
     debug_assert (debug_assertions d) (FixedHeader_packet_type fixed = Ok PubRel) (
     and_then (PacketId_parse d rest) (\<lambda>(pkid, rest).
     let this = \<lparr>pubrel_pkid = pkid\<rparr> in
     and_then (PubRel_validate this) (\<lambda>_.
     Ok (this, rest)))))"

section \<open>PubComp\<close>

record PubComp =
  pubcomp_pkid :: PacketId

definition PubComp_validate_value :: "u16 \<Rightarrow> unit res" where
  "PubComp_validate_value value = Ok ()"

definition PubComp_validate :: "PubComp \<Rightarrow> unit res" where
  "PubComp_validate this = Ok ()"

definition PubComp_encode_len :: "u16 \<Rightarrow> usize res" where
  "PubComp_encode_len value = PacketId_encode_len value"

definition PubComp_write_sync :: "crates \<Rightarrow> u16 \<Rightarrow> usize wr" where
  "PubComp_write_sync d value =
     w_then (w_lift (PubComp_encode_len value)) (\<lambda>len.
     w_then (w_lift (FixedHeaderBuilder_remaining_length (FixedHeaderBuilder_new PubComp) len)) (\<lambda>b.
     w_then (FixedHeaderBuilder_write_sync d b) (\<lambda>written.
     w_then (PacketId_write_sync d value) (\<lambda>n.
     w_lift (usize_add (debug_assertions d) written n)))))"

definition PubComp_parse :: "crates \<Rightarrow> bytes \<Rightarrow> (PubComp \<times> bytes) res" where
  "PubComp_parse d buf =
     and_then (FixedHeaderArray_parse d 1 buf) (\<lambda>(fixed, rest).
     debug_assert (debug_assertions d) (FixedHeader_packet_type fixed = Ok PubComp) (
     and_then (PacketId_parse d rest) (\<lambda>(pkid, rest).
     let this = \<lparr>pubcomp_pkid = pkid\<rparr> in
     and_then (PubComp_validate this) (\<lambda>_.
     Ok (this, rest)))))"

section \<open>UnsubAck\<close>

record UnsubAck =
  unsuback_pkid :: PacketId

definition UnsubAck_validate_value :: "u16 \<Rightarrow> unit res" where
  "UnsubAck_validate_value value = Ok ()"

definition UnsubAck_validate :: "UnsubAck \<Rightarrow> unit res" where
  "UnsubAck_validate this = Ok ()"

definition UnsubAck_encode_len :: "u16 \<Rightarrow> usize res" where
  "UnsubAck_encode_len value = PacketId_encode_len value"

definition UnsubAck_write_sync :: "crates \<Rightarrow> u16 \<Rightarrow> usize wr" where
  "UnsubAck_write_sync d value =
     w_then (w_lift (UnsubAck_encode_len value)) (\<lambda>len.
     w_then (w_lift (FixedHeaderBuilder_remaining_length (FixedHeaderBuilder_new UnsubAck) len)) (\<lambda>b.
     w_then (FixedHeaderBuilder_write_sync d b) (\<lambda>written.
     w_then (PacketId_write_sync d value) (\<lambda>n.
     w_lift (usize_add (debug_assertions d) written n)))))"

definition UnsubAck_parse :: "crates \<Rightarrow> bytes \<Rightarrow> (UnsubAck \<times> bytes) res" where
  "UnsubAck_parse d buf =
     and_then (FixedHeaderArray_parse d 1 buf) (\<lambda>(fixed, rest).
     debug_assert (debug_assertions d) (FixedHeader_packet_type fixed = Ok UnsubAck) (
     and_then (PacketId_parse d rest) (\<lambda>(pkid, rest).
     let this = \<lparr>unsuback_pkid = pkid\<rparr> in
     and_then (UnsubAck_validate this) (\<lambda>_.
     Ok (this, rest)))))"

section \<open>The shared shape\<close>

definition pkid_write :: "crates \<Rightarrow> ControlPacketType \<Rightarrow> u16 \<Rightarrow> usize wr" where
  "pkid_write d t value =
     w_then (w_lift (FixedHeaderBuilder_remaining_length (FixedHeaderBuilder_new t) 2)) (\<lambda>b.
     w_then (FixedHeaderBuilder_write_sync d b) (\<lambda>written.
     w_then (PacketId_write_sync d value) (\<lambda>n.
     w_lift (usize_add (debug_assertions d) written n))))"

definition pkid_parse :: "crates \<Rightarrow> ControlPacketType \<Rightarrow> bytes \<Rightarrow> (PacketId \<times> bytes) res" where
  "pkid_parse d t buf =
     and_then (FixedHeaderArray_parse d 1 buf) (\<lambda>(fixed, rest).
     debug_assert (debug_assertions d) (FixedHeader_packet_type fixed = Ok t)
       (PacketId_parse d rest))"

text \<open>The four bytes of such a packet.\<close>

definition pkid_packet :: "ControlPacketType \<Rightarrow> crates \<Rightarrow> u16 \<Rightarrow> bytes" where
  "pkid_packet t d k = frame_header t (default_flags t) 2 @ zc_u16_as_bytes d k"

lemma length_pkid_packet: "crates_ok d \<Longrightarrow> length (pkid_packet t d k) = 4"
  by (simp add: pkid_packet_def frame_header_short)

lemma pkid_write_emits:
  assumes "crates_ok d"
  shows "emits (pkid_write d t k) 4 (pkid_packet t d k)"
proof -
  have "usize_add (debug_assertions d) (length (frame_header t (default_flags t) 2)) 2 =
      (Ok 4 :: usize res)"
    by (simp add: frame_header_short usize_add_def usize_max_def)
  then show ?thesis
    unfolding pkid_write_def pkid_packet_def
    by (intro frame_header_new_then_emits [OF assms]) (auto intro!: emit_intro)
qed

lemma pkid_parse_iff:
  assumes "crates_ok d"
  shows "pkid_parse d t buf = Ok (p, rest) \<longleftrightarrow>
    (\<exists>t' f l. flags_ok t' f \<and> \<not> has_continue_flag l \<and> (debug_assertions d \<longrightarrow> t' = t) \<and>
       buf = encode_type_and_flags t' f # l # zc_u16_as_bytes d (pkid p) @ rest \<and> pkid p \<noteq> 0)"
    (is "_ \<longleftrightarrow> ?R")
proof
  assume ?R
  then obtain t' f l where R: "flags_ok t' f" "\<not> has_continue_flag l" "debug_assertions d \<longrightarrow> t' = t"
    "buf = encode_type_and_flags t' f # l # zc_u16_as_bytes d (pkid p) @ rest" "pkid p \<noteq> 0" by blast
  let ?h = "\<lparr>type_and_flags = encode_type_and_flags t' f, remaining_length = \<lparr>rl_len = [l]\<rparr>\<rparr>"
  have "FixedHeaderArray_parse d 1 buf = Ok (?h, zc_u16_as_bytes d (pkid p) @ rest)"
    using R assms by (auto simp: FixedHeaderArray_parse_simps)
  moreover have "FixedHeader_packet_type ?h = Ok t'" using R(1) by simp
  ultimately show "pkid_parse d t buf = Ok (p, rest)"
    using R assms by (simp add: pkid_parse_def PacketId_parse_iff)
next
  assume "pkid_parse d t buf = Ok (p, rest)"
  then show ?R
    using assms by (auto simp: pkid_parse_def FixedHeaderArray_parse_simps PacketId_parse_iff) blast
qed

lemma pkid_parse_packet [parse_simp]:
  assumes "crates_ok d" "k \<noteq> 0"
  shows "pkid_parse d t (pkid_packet t d k @ rest) = Ok (\<lparr>pkid = k\<rparr>, rest)"
  using assms by (simp add: pkid_parse_def pkid_packet_def parse_simp)

lemma pkid_parse_no_Panic:
  assumes "crates_ok d" "ControlPacketType_parse d b = Ok (t, f)"
  shows "pkid_parse d t (b # bs) \<noteq> Panic"
proof (cases "FixedHeaderArray_parse d 1 (b # bs)")
  case (Ok p)
  with FixedHeaderArray_parse_type [OF assms] have "FixedHeader_packet_type (fst p) = Ok t"
    by (cases p) simp
  with Ok assms(1) show ?thesis
    by (cases p) (simp add: pkid_parse_def PacketId_parse_no_Panic)
qed (use FixedHeaderArray_parse_no_Panic [OF assms(1)] in \<open>simp_all add: pkid_parse_def\<close>)

lemma pkid_parse_front:
  assumes "crates_ok d" "pkid_parse d t buf = Ok (p, rest)"
  shows "\<exists>pre. pre \<noteq> [] \<and> buf = pre @ rest"
  using assms by (fastforce simp: pkid_parse_iff)

lemma PubAck_write_sync_eq: "PubAck_write_sync d k = pkid_write d PubAck k"
  by (simp add: PubAck_write_sync_def PubAck_encode_len_def PacketId_encode_len_def pkid_write_def)

lemma PubAck_parse_eq:
  "PubAck_parse d buf = and_then (pkid_parse d PubAck buf) (\<lambda>(p, rest). Ok (\<lparr>puback_pkid = p\<rparr>, rest))"
  by (cases "FixedHeaderArray_parse d 1 buf")
    (auto simp: PubAck_parse_def pkid_parse_def PubAck_validate_def Let_def debug_assert_def
      split: prod.splits intro!: arg_cong2 [where f = and_then])

lemma PubRec_write_sync_eq: "PubRec_write_sync d k = pkid_write d PubRec k"
  by (simp add: PubRec_write_sync_def PubRec_encode_len_def PacketId_encode_len_def pkid_write_def)

lemma PubRec_parse_eq:
  "PubRec_parse d buf = and_then (pkid_parse d PubRec buf) (\<lambda>(p, rest). Ok (\<lparr>pubrec_pkid = p\<rparr>, rest))"
  by (cases "FixedHeaderArray_parse d 1 buf")
    (auto simp: PubRec_parse_def pkid_parse_def PubRec_validate_def Let_def debug_assert_def
      split: prod.splits intro!: arg_cong2 [where f = and_then])

lemma PubRel_write_sync_eq: "PubRel_write_sync d k = pkid_write d PubRel k"
  by (simp add: PubRel_write_sync_def PubRel_encode_len_def PacketId_encode_len_def pkid_write_def)

lemma PubRel_parse_eq:
  "PubRel_parse d buf = and_then (pkid_parse d PubRel buf) (\<lambda>(p, rest). Ok (\<lparr>pubrel_pkid = p\<rparr>, rest))"
  by (cases "FixedHeaderArray_parse d 1 buf")
    (auto simp: PubRel_parse_def pkid_parse_def PubRel_validate_def Let_def debug_assert_def
      split: prod.splits intro!: arg_cong2 [where f = and_then])

lemma PubComp_write_sync_eq: "PubComp_write_sync d k = pkid_write d PubComp k"
  by (simp add: PubComp_write_sync_def PubComp_encode_len_def PacketId_encode_len_def pkid_write_def)

lemma PubComp_parse_eq:
  "PubComp_parse d buf = and_then (pkid_parse d PubComp buf) (\<lambda>(p, rest). Ok (\<lparr>pubcomp_pkid = p\<rparr>, rest))"
  by (cases "FixedHeaderArray_parse d 1 buf")
    (auto simp: PubComp_parse_def pkid_parse_def PubComp_validate_def Let_def debug_assert_def
      split: prod.splits intro!: arg_cong2 [where f = and_then])

lemma UnsubAck_write_sync_eq: "UnsubAck_write_sync d k = pkid_write d UnsubAck k"
  by (simp add: UnsubAck_write_sync_def UnsubAck_encode_len_def PacketId_encode_len_def pkid_write_def)

lemma UnsubAck_parse_eq:
  "UnsubAck_parse d buf = and_then (pkid_parse d UnsubAck buf) (\<lambda>(p, rest). Ok (\<lparr>unsuback_pkid = p\<rparr>, rest))"
  by (cases "FixedHeaderArray_parse d 1 buf")
    (auto simp: UnsubAck_parse_def pkid_parse_def UnsubAck_validate_def Let_def debug_assert_def
      split: prod.splits intro!: arg_cong2 [where f = and_then])

lemmas pkid_packet_eqs =
  PubAck_write_sync_eq PubAck_parse_eq
  PubRec_write_sync_eq PubRec_parse_eq
  PubRel_write_sync_eq PubRel_parse_eq
  PubComp_write_sync_eq PubComp_parse_eq
  UnsubAck_write_sync_eq UnsubAck_parse_eq

section \<open>The codecs\<close>

interpretation puback: codec crates_ok PubAck_parse "\<lambda>k. k \<noteq> 0" "pkid_packet PubAck"
  "\<lambda>k. \<lparr>puback_pkid = \<lparr>pkid = k\<rparr>\<rparr>"
  by unfold_locales (auto simp: pkid_packet_eqs pkid_parse_packet dest: pkid_parse_front)

interpretation pubrec: codec crates_ok PubRec_parse "\<lambda>k. k \<noteq> 0" "pkid_packet PubRec"
  "\<lambda>k. \<lparr>pubrec_pkid = \<lparr>pkid = k\<rparr>\<rparr>"
  by unfold_locales (auto simp: pkid_packet_eqs pkid_parse_packet dest: pkid_parse_front)

interpretation pubrel: codec crates_ok PubRel_parse "\<lambda>k. k \<noteq> 0" "pkid_packet PubRel"
  "\<lambda>k. \<lparr>pubrel_pkid = \<lparr>pkid = k\<rparr>\<rparr>"
  by unfold_locales (auto simp: pkid_packet_eqs pkid_parse_packet dest: pkid_parse_front)

interpretation pubcomp: codec crates_ok PubComp_parse "\<lambda>k. k \<noteq> 0" "pkid_packet PubComp"
  "\<lambda>k. \<lparr>pubcomp_pkid = \<lparr>pkid = k\<rparr>\<rparr>"
  by unfold_locales (auto simp: pkid_packet_eqs pkid_parse_packet dest: pkid_parse_front)

interpretation unsuback: codec crates_ok UnsubAck_parse "\<lambda>k. k \<noteq> 0" "pkid_packet UnsubAck"
  "\<lambda>k. \<lparr>unsuback_pkid = \<lparr>pkid = k\<rparr>\<rparr>"
  by unfold_locales (auto simp: pkid_packet_eqs pkid_parse_packet dest: pkid_parse_front)

section \<open>Correctness\<close>

text \<open>C29: PUBACK, PUBREC, PUBREL, PUBCOMP and UNSUBACK with a non-zero identifier are four bytes long
  on the wire and are read back with that identifier, whatever follows them.\<close>

theorem pkid_packets_round_trip:
  assumes "crates_ok d" "k \<noteq> 0"
  shows "emits (PubAck_write_sync d k) 4 (pkid_packet PubAck d k) \<and>
      PubAck_parse d (pkid_packet PubAck d k @ rest) = Ok (\<lparr>puback_pkid = \<lparr>pkid = k\<rparr>\<rparr>, rest) \<and>
    emits (PubRec_write_sync d k) 4 (pkid_packet PubRec d k) \<and>
      PubRec_parse d (pkid_packet PubRec d k @ rest) = Ok (\<lparr>pubrec_pkid = \<lparr>pkid = k\<rparr>\<rparr>, rest) \<and>
    emits (PubRel_write_sync d k) 4 (pkid_packet PubRel d k) \<and>
      PubRel_parse d (pkid_packet PubRel d k @ rest) = Ok (\<lparr>pubrel_pkid = \<lparr>pkid = k\<rparr>\<rparr>, rest) \<and>
    emits (PubComp_write_sync d k) 4 (pkid_packet PubComp d k) \<and>
      PubComp_parse d (pkid_packet PubComp d k @ rest) = Ok (\<lparr>pubcomp_pkid = \<lparr>pkid = k\<rparr>\<rparr>, rest) \<and>
    emits (UnsubAck_write_sync d k) 4 (pkid_packet UnsubAck d k) \<and>
      UnsubAck_parse d (pkid_packet UnsubAck d k @ rest) = Ok (\<lparr>unsuback_pkid = \<lparr>pkid = k\<rparr>\<rparr>, rest)"
  unfolding PubAck_write_sync_eq PubRec_write_sync_eq PubRel_write_sync_eq PubComp_write_sync_eq
    UnsubAck_write_sync_eq
  by (intro conjI pkid_write_emits assms puback.parse_enc pubrec.parse_enc pubrel.parse_enc
      pubcomp.parse_enc unsuback.parse_enc)

theorem pkid_packets_round_trip_witness:
  "emits (PubRel_write_sync (std_crates True) 10) 4 [0x62, 2, 0, 10]"
proof -
  have "pkid_packet PubRel (std_crates True) 10 = [0x62, 2, 0, 10]" by code_simp
  with pkid_packets_round_trip [OF std_crates_ok, of 10 True "[]"] show ?thesis by simp
qed

end
