(* ===== verification/Ping.thy ===== *)
theory Ping
  imports Fixed_Header
begin

text \<open>
  The packets that are only a fixed header: PINGREQ, PINGRESP
  (\<open>src/v3/packets/ping/mod.rs\<close>, \<open>resp.rs\<close>) and DISCONNECT
  (\<open>src/v3/packets/disconnect.rs\<close>). Their values are unit structs.
\<close>

section \<open>Definitions\<close>

definition PingReq_encode_len :: "usize res" where
  "PingReq_encode_len = Ok 0"

definition PingReq_write_sync :: "crates \<Rightarrow> usize wr" where
  "PingReq_write_sync d = FixedHeaderBuilder_write_sync d (FixedHeaderBuilder_new PingReq)"

definition PingReq_parse :: "crates \<Rightarrow> bytes \<Rightarrow> (unit \<times> bytes) res" where
  "PingReq_parse d buf =
     and_then (FixedHeaderArray_parse d 1 buf) (\<lambda>(fixed, rest).
     debug_assert (debug_assertions d) (FixedHeader_packet_type fixed = Ok PingReq)
       (Ok ((), rest)))"

definition PingResp_encode_len :: "usize res" where
  "PingResp_encode_len = Ok 0"

definition PingResp_write_sync :: "crates \<Rightarrow> usize wr" where
  "PingResp_write_sync d = FixedHeaderBuilder_write_sync d (FixedHeaderBuilder_new PingResp)"

definition PingResp_parse :: "crates \<Rightarrow> bytes \<Rightarrow> (unit \<times> bytes) res" where
  "PingResp_parse d buf =
     and_then (FixedHeaderArray_parse d 1 buf) (\<lambda>(fixed, rest).
     debug_assert (debug_assertions d) (FixedHeader_packet_type fixed = Ok PingResp)
       (Ok ((), rest)))"

definition Disconnect_encode_len :: "usize res" where
  "Disconnect_encode_len = Ok 0"

definition Disconnect_write_sync :: "crates \<Rightarrow> usize wr" where
  "Disconnect_write_sync d = FixedHeaderBuilder_write_sync d (FixedHeaderBuilder_new Disconnect)"

definition Disconnect_parse :: "crates \<Rightarrow> bytes \<Rightarrow> (unit \<times> bytes) res" where
  "Disconnect_parse d buf =
     and_then (FixedHeaderArray_parse d 1 buf) (\<lambda>(fixed, rest).
     debug_assert (debug_assertions d) (FixedHeader_packet_type fixed = Ok Disconnect)
       (Ok ((), rest)))"

section \<open>The shared shape\<close>

definition unit_parse :: "ControlPacketType \<Rightarrow> crates \<Rightarrow> bytes \<Rightarrow> (unit \<times> bytes) res" where
  "unit_parse t d buf =
     and_then (FixedHeaderArray_parse d 1 buf) (\<lambda>(fixed, rest).
     debug_assert (debug_assertions d) (FixedHeader_packet_type fixed = Ok t) (Ok ((), rest)))"

definition unit_packet :: "ControlPacketType \<Rightarrow> bytes" where
  "unit_packet t = [encode_type_and_flags t (default_flags t), 0]"

lemma unit_parse_eqs:
  "PingReq_parse = unit_parse PingReq"
  "PingResp_parse = unit_parse PingResp"
  "Disconnect_parse = unit_parse Disconnect"
  by (simp_all add: fun_eq_iff unit_parse_def PingReq_parse_def PingResp_parse_def
      Disconnect_parse_def)

lemma unit_packet_header: "unit_packet t = frame_header t (default_flags t) 0"
  by (simp add: unit_packet_def frame_header_short)

lemma unit_write_emits:
  "crates_ok d \<Longrightarrow> emits (FixedHeaderBuilder_write_sync d (FixedHeaderBuilder_new t)) 2 (unit_packet t)"
  using frame_header_new_emits [of d t]
  by (simp add: unit_packet_def frame_header_short numeral_2_eq_2)

lemma unit_parse_packet [parse_simp]:
  "crates_ok d \<Longrightarrow> unit_parse t d (unit_packet t @ rest) = Ok ((), rest)"
  by (simp add: unit_parse_def unit_packet_header parse_simp)

lemma unit_parse_no_Panic:
  assumes "crates_ok d" "ControlPacketType_parse d b = Ok (t, f)"
  shows "unit_parse t d (b # bs) \<noteq> Panic"
proof (cases "FixedHeaderArray_parse d 1 (b # bs)")
  case (Ok p)
  with FixedHeaderArray_parse_type [OF assms] have "FixedHeader_packet_type (fst p) = Ok t"
    by (cases p) simp
  with Ok show ?thesis by (cases p) (simp add: unit_parse_def)
qed (use FixedHeaderArray_parse_no_Panic [OF assms(1)] in \<open>simp_all add: unit_parse_def\<close>)

lemma unit_codec:
  "codec crates_ok (unit_parse t) (\<lambda>_. True) (\<lambda>_ _. unit_packet t) (\<lambda>_. ())"
proof unfold_locales
  show "\<exists>pre. pre \<noteq> [] \<and> buf = pre @ rest"
    if "crates_ok d" "unit_parse t d buf = Ok (x, rest)" for d buf x rest
    using that by (auto simp: unit_parse_def FixedHeaderArray_parse_simps)
qed (simp add: unit_parse_packet)

interpretation pingreq: codec crates_ok PingReq_parse "\<lambda>_. True" "\<lambda>_ _. unit_packet PingReq" "\<lambda>_. ()"
  unfolding unit_parse_eqs by (rule unit_codec)

interpretation pingresp: codec crates_ok PingResp_parse "\<lambda>_. True" "\<lambda>_ _. unit_packet PingResp" "\<lambda>_. ()"
  unfolding unit_parse_eqs by (rule unit_codec)

interpretation disconnect: codec crates_ok Disconnect_parse "\<lambda>_. True"
  "\<lambda>_ _. unit_packet Disconnect" "\<lambda>_. ()"
  unfolding unit_parse_eqs by (rule unit_codec)

end
