(* ===== verification/Cursor.thy ===== *)
theory Cursor
  imports Std_Io
begin

text \<open>
  Cursors over the elements encoded in a buffer. \<open>subscribe/iter.rs\<close> and
  \<open>unsubscribe/iter.rs\<close> repeat one shape, \<open>cursor_read\<close> below; what is shown of it here holds
  for every decoder. The loops of \<open>std\<close> over an iterator (\<open>for\<close>, \<open>try_for_each\<close>,
  \<open>try_fold\<close>) are \<open>cursor_try_fold\<close>: the iterator decides when to stop, so the loop may run
  for ever and not returning is the value \<open>None\<close>.
\<close>

section \<open>Loops over slices and iterators\<close>

primrec try_fold :: "('a \<Rightarrow> 'o \<Rightarrow> ('a, 'e) result) \<Rightarrow> 'a \<Rightarrow> 'o list \<Rightarrow> ('a, 'e) result" where
  "try_fold f a [] = Ok a"
| "try_fold f a (x # xs) = and_then (f a x) (\<lambda>a. try_fold f a xs)"

primrec w_try_fold :: "('a \<Rightarrow> 'o \<Rightarrow> 'a wr) \<Rightarrow> 'a \<Rightarrow> 'o list \<Rightarrow> 'a wr" where
  "w_try_fold f a [] = w_lift (Ok a)"
| "w_try_fold f a (x # xs) = w_then (f a x) (\<lambda>a. w_try_fold f a xs)"

lemma try_fold_collect: "try_fold (\<lambda>acc x. Ok (acc @ [x])) a xs = Ok (a @ xs)"
  by (induction xs arbitrary: a) simp_all

record cursor =
  cur_bytes :: bytes
  cur_pos :: usize

text \<open>
  One call of \<open>next\<close>: \<open>Ok (None, _)\<close> is the end of the iteration, \<open>Err e\<close> is the item
  \<open>Some(Err(e))\<close>.
\<close>

type_synonym 'o nxt = "cursor \<Rightarrow> ('o option \<times> cursor) res"

partial_function (option) cursor_try_fold ::
    "'o nxt \<Rightarrow> ('a \<Rightarrow> 'o \<Rightarrow> 'a res) \<Rightarrow> 'a \<Rightarrow> cursor \<Rightarrow> 'a res option" where
  "cursor_try_fold nxt f a c =
     (case nxt c of
        Ok (None, c') \<Rightarrow> Some (Ok a)
      | Ok (Some x, c') \<Rightarrow>
          (case f a x of
             Ok a' \<Rightarrow> cursor_try_fold nxt f a' c'
           | Err e \<Rightarrow> Some (Err e)
           | Panic \<Rightarrow> Some Panic)
      | Err e \<Rightarrow> Some (Err e)
      | Panic \<Rightarrow> Some Panic)"

declare cursor_try_fold.simps [code]

text \<open>The wrapping cursor that panics on an error.\<close>

definition cursor_expect :: "'o nxt \<Rightarrow> 'o nxt" where
  "cursor_expect nxt c = (case nxt c of Ok r \<Rightarrow> Ok r | Err e \<Rightarrow> Panic | Panic \<Rightarrow> Panic)"

section \<open>Reading one element\<close>

definition cursor_read :: "bool \<Rightarrow> (bytes \<Rightarrow> ('o \<times> bytes) res) \<Rightarrow> 'o nxt" where
  "cursor_read dbg parse c =
     debug_assert dbg (cur_pos c \<le> length (cur_bytes c))
       (case Option.bind (slice_from (cur_pos c) (cur_bytes c))
               (\<lambda>bs. if bs \<noteq> [] then Some bs else None) of
          None \<Rightarrow> Ok (None, c)
        | Some bs \<Rightarrow>
            and_then (parse bs) (\<lambda>(topic, rest).
            debug_assert dbg (length rest < length bs) (
            and_then (usize_add dbg (cur_pos c) (length bs - length rest)) (\<lambda>pos.
            Ok (Some topic, c\<lparr>cur_pos := pos\<rparr>)))))"

section \<open>What the loops compute\<close>

text \<open>\<open>decodes parse bs xs\<close>: the buffer is a sequence of encoded elements, and nothing else.\<close>

inductive decodes :: "(bytes \<Rightarrow> ('o \<times> bytes) res) \<Rightarrow> bytes \<Rightarrow> 'o list \<Rightarrow> bool" for parse where
  decodes_Nil: "decodes parse [] []"
| decodes_Cons: "bs \<noteq> [] \<Longrightarrow> parse bs = Ok (x, rest) \<Longrightarrow> decodes parse rest xs \<Longrightarrow>
    decodes parse bs (x # xs)"

inductive_simps decodes_Nil_left: "decodes parse [] xs"
inductive_simps decodes_Cons_right: "decodes parse bs (x # xs)"
inductive_simps decodes_Nil_right: "decodes parse bs []"

lemma decodes_unique: "decodes parse bs xs \<Longrightarrow> decodes parse bs ys \<Longrightarrow> xs = ys"
proof (induction arbitrary: ys rule: decodes.induct)
  case (decodes_Cons bs x rest xs)
  from decodes_Cons.prems decodes_Cons.hyps(1,2) obtain zs
    where "ys = x # zs" "decodes parse rest zs" by (cases rule: decodes.cases) auto
  with decodes_Cons.IH show ?case by simp
qed (simp add: decodes_Nil_left)

lemma cursor_read_end:
  "cur_pos c = length (cur_bytes c) \<Longrightarrow> cursor_read dbg parse c = Ok (None, c)"
  by (simp add: cursor_read_def slice_from_def)

context decoder
begin

text \<open>The position never leaves the buffer, and each element moves it forward.\<close>

lemma cursor_read_step:
  assumes "lawful d" "cur_pos c < length (cur_bytes c)" "length (cur_bytes c) \<le> usize_max"
  shows "cursor_read dbg (parse d) c =
    and_then (parse d (drop (cur_pos c) (cur_bytes c))) (\<lambda>(x, rest).
      Ok (Some x, c\<lparr>cur_pos := length (cur_bytes c) - length rest\<rparr>))"
proof (cases "parse d (drop (cur_pos c) (cur_bytes c))")
  case (Ok p)
  then obtain x rest where p: "p = (x, rest)" by (cases p)
  from parse_shorter [OF assms(1) Ok [unfolded p]] assms(2)
  have "length rest < length (cur_bytes c) - cur_pos c" by simp
  with Ok p assms(2,3) show ?thesis
    by (simp add: cursor_read_def slice_from_def usize_add_eq)
qed (use assms(2) in \<open>simp_all add: cursor_read_def slice_from_def\<close>)

lemma drop_after:
  assumes "lawful d" "parse d (drop n bs) = Ok (x, rest)"
  shows "drop (length bs - length rest) bs = rest" "length bs - length rest \<le> length bs"
    "n < length bs - length rest"
proof -
  obtain pre where pre: "pre \<noteq> []" "drop n bs = pre @ rest" using parse_front [OF assms] by blast
  then have l: "length bs - n = length pre + length rest" by (metis length_append length_drop)
  moreover have "length pre \<noteq> 0" using pre(1) by simp
  ultimately show "n < length bs - length rest" by linarith
  have "drop (length pre) (drop n bs) = rest" using pre(2) by simp
  then have "drop (length pre + n) bs = rest" by simp
  moreover have "length bs - length rest = length pre + n" using l \<open>length pre \<noteq> 0\<close> by linarith
  ultimately show "drop (length bs - length rest) bs = rest" by simp
qed simp

text \<open>On a sequence of elements the loop is a fold over the list of their values.\<close>

lemma cursor_try_fold_decodes:
  assumes "lawful d" "length bs \<le> usize_max" "pos \<le> length bs"
    and "decodes (parse d) (drop pos bs) xs"
  shows "cursor_try_fold (cursor_read dbg (parse d)) f a \<lparr>cur_bytes = bs, cur_pos = pos\<rparr> =
    Some (try_fold f a xs)"
  using assms(3,4)
proof (induction xs arbitrary: a pos)
  case Nil
  then show ?case
    by (subst cursor_try_fold.simps) (simp add: decodes_Nil_right cursor_read_end)
next
  case (Cons x xs)
  then obtain rest where x: "parse d (drop pos bs) = Ok (x, rest)" "decodes (parse d) rest xs"
    and pos: "pos < length bs" by (auto simp: decodes_Cons_right)
  note after = drop_after [OF assms(1) x(1)]
  have "cursor_read dbg (parse d) \<lparr>cur_bytes = bs, cur_pos = pos\<rparr> =
      Ok (Some x, \<lparr>cur_bytes = bs, cur_pos = length bs - length rest\<rparr>)"
    using cursor_read_step [OF assms(1), of "\<lparr>cur_bytes = bs, cur_pos = pos\<rparr>"] pos assms(2) x(1)
    by simp
  with Cons.IH [OF after(2)] after(1) x(2) show ?case
    by (subst cursor_try_fold.simps) (simp split: result.split)
qed

text \<open>On any buffer the loop ends; it panics only where the decoder or the body does.\<close>

lemma cursor_try_fold_total:
  assumes "lawful d" "length bs \<le> usize_max" "pos \<le> length bs"
    and "\<And>b. parse d b \<noteq> Panic" "\<And>a x. f a x \<noteq> Panic"
  shows "\<exists>r. cursor_try_fold (cursor_read dbg (parse d)) f a \<lparr>cur_bytes = bs, cur_pos = pos\<rparr> = Some r \<and>
    r \<noteq> Panic"
  using assms(3)
proof (induction "length bs - pos" arbitrary: a pos rule: less_induct)
  case less
  let ?c = "\<lparr>cur_bytes = bs, cur_pos = pos\<rparr>"
  show ?case
  proof (cases "pos = length bs")
    case True
    then show ?thesis by (subst cursor_try_fold.simps) (simp add: cursor_read_end)
  next
    case False
    with less.prems cursor_read_step [OF assms(1), of ?c] assms(2)
    have step: "cursor_read dbg (parse d) ?c = and_then (parse d (drop pos bs)) (\<lambda>(x, rest).
        Ok (Some x, \<lparr>cur_bytes = bs, cur_pos = length bs - length rest\<rparr>))" by simp
    show ?thesis
    proof (cases "parse d (drop pos bs)")
      case (Ok p)
      then obtain x rest where x: "parse d (drop pos bs) = Ok (x, rest)" by (cases p) simp
      note after = drop_after [OF assms(1) x]
      have "length bs - (length bs - length rest) < length bs - pos" using after(2,3) by linarith
      note IH = less.hyps [OF this after(2)]
      from assms(5) IH show ?thesis
        by (cases "f a x") (subst cursor_try_fold.simps, simp add: step x)+
    qed (use assms(4) in \<open>subst cursor_try_fold.simps, simp add: step\<close>)+
  qed
qed

text \<open>And where it succeeds, the buffer was a sequence of elements.\<close>

lemma cursor_try_fold_Ok:
  assumes "lawful d" "length bs \<le> usize_max" "pos \<le> length bs"
    and "cursor_try_fold (cursor_read dbg (parse d)) f a \<lparr>cur_bytes = bs, cur_pos = pos\<rparr> = Some (Ok r)"
  shows "\<exists>xs. decodes (parse d) (drop pos bs) xs \<and> try_fold f a xs = Ok r"
  using assms(3,4)
proof (induction "length bs - pos" arbitrary: a pos rule: less_induct)
  case less
  let ?c = "\<lparr>cur_bytes = bs, cur_pos = pos\<rparr>"
  show ?case
  proof (cases "pos = length bs")
    case True
    with less.prems(2) show ?thesis
      by (subst (asm) cursor_try_fold.simps)
        (auto simp: cursor_read_end intro!: exI [of _ "[]"] decodes_Nil)
  next
    case False
    with less.prems cursor_read_step [OF assms(1), of ?c] assms(2)
    have step: "cursor_read dbg (parse d) ?c = and_then (parse d (drop pos bs)) (\<lambda>(x, rest).
        Ok (Some x, \<lparr>cur_bytes = bs, cur_pos = length bs - length rest\<rparr>))" by simp
    from less.prems(2) obtain x rest a' where x: "parse d (drop pos bs) = Ok (x, rest)" "f a x = Ok a'"
      and rec: "cursor_try_fold (cursor_read dbg (parse d)) f a'
          \<lparr>cur_bytes = bs, cur_pos = length bs - length rest\<rparr> = Some (Ok r)"
      by (subst (asm) cursor_try_fold.simps)
        (cases "parse d (drop pos bs)"; auto simp: step split: result.splits prod.splits)
    note after = drop_after [OF assms(1) x(1)]
    have "length bs - (length bs - length rest) < length bs - pos" using after(2,3) by linarith
    from less.hyps [OF this after(2) rec] obtain xs
      where "decodes (parse d) rest xs" "try_fold f a' xs = Ok r" using after(1) by auto
    with x False less.prems(1) show ?thesis
      by (intro exI [of _ "x # xs"]) (auto intro: decodes_Cons)
  qed
qed

end

lemma cursor_expect_Ok: "nxt c = Ok x \<Longrightarrow> cursor_expect nxt c = Ok x"
  by (simp add: cursor_expect_def)

text \<open>Where the loop succeeds, the cursor that panics on an error yields the same.\<close>

lemma cursor_try_fold_expect:
  fixes r :: 'a
  assumes "cursor_try_fold nxt f a c = Some (Ok r)"
  shows "cursor_try_fold (\<lambda>c. cursor_expect nxt c) f a c = Some (Ok r)"
proof -
  have "nxt = nxt \<longrightarrow> Ok r = (Ok r :: 'a res) \<longrightarrow> cursor_try_fold (\<lambda>c. cursor_expect nxt c) f a c = Some (Ok r)"
  proof (rule cursor_try_fold.raw_induct [OF _ assms, where P = "\<lambda>nxt' f' a' c' x.
      nxt' = nxt \<longrightarrow> x = Ok r \<longrightarrow> cursor_try_fold (\<lambda>c. cursor_expect nxt c) f' a' c' = Some (Ok r)"])
    fix rec nxt' f' a' c' x
    assume IH: "\<And>n f a c x. rec n f a c = Some x \<Longrightarrow> n = nxt \<longrightarrow> x = Ok r \<longrightarrow>
        cursor_try_fold (\<lambda>c. cursor_expect nxt c) f a c = Some (Ok r)"
      and step: "(case nxt' c' of
        Ok (None, c') \<Rightarrow> Some (Ok a')
      | Ok (Some x, c') \<Rightarrow> (case f' a' x of
             Ok a' \<Rightarrow> rec nxt' f' a' c' | Err e \<Rightarrow> Some (Err e) | Panic \<Rightarrow> Some Panic)
      | Err e \<Rightarrow> Some (Err e) | Panic \<Rightarrow> Some Panic) = Some x"
    show "nxt' = nxt \<longrightarrow> x = Ok r \<longrightarrow> cursor_try_fold (\<lambda>c. cursor_expect nxt c) f' a' c' = Some (Ok r)"
      using step IH
      by (subst cursor_try_fold.simps)
        (auto simp: cursor_expect_Ok split: result.splits option.splits prod.splits)
  qed
  then show ?thesis by simp
qed

context codec
begin

lemma decodes_enc:
  "lawful d \<Longrightarrow> list_all ok vs \<Longrightarrow> decodes (parse d) (concat (map (enc d) vs)) (map view vs)"
  by (induction vs) (auto intro!: decodes_Nil decodes_Cons simp: parse_enc enc_nonempty)

end

section \<open>Writing the elements of a slice\<close>

lemma w_try_fold_emits:
  assumes "\<And>x. x \<in> set xs \<Longrightarrow> emits (g x) (length (enc x)) (enc x)"
    and "a + length (concat (map enc xs)) \<le> usize_max"
  shows "emits (w_try_fold (\<lambda>acc x. w_then (g x) (\<lambda>n. w_lift (usize_add dbg acc n))) a xs)
    (a + length (concat (map enc xs))) (concat (map enc xs))"
  using assms
proof (induction xs arbitrary: a)
  case (Cons x xs)
  have x: "emits (w_then (g x) (\<lambda>n. w_lift (usize_add dbg a n))) (a + length (enc x)) (enc x)"
    by (rule emits_count) (use Cons.prems in auto)
  have "emits (w_try_fold (\<lambda>acc x. w_then (g x) (\<lambda>n. w_lift (usize_add dbg acc n)))
      (a + length (enc x)) xs) (a + length (enc x) + length (concat (map enc xs))) (concat (map enc xs))"
    by (rule Cons.IH) (use Cons.prems in auto)
  with x show ?case by (auto intro!: emits_then [OF x] simp: add.assoc)
qed (simp add: emits_lift)

end
