(* ===== verification/Filter_List.thy ===== *)
theory Filter_List
  imports Fixed_Header Packet_Id Cursor
begin

text \<open>
  The shape SUBSCRIBE and UNSUBSCRIBE share: a fixed header, a packet identifier and a list of
  encoded filters that fills the rest of the frame. The two packets differ in the element and
  in what their validation asks of it; here these are parameters, and the locale
  \<open>filter_codec\<close> states what is needed of them.
\<close>

section \<open>Decoding\<close>

definition filters_parse ::
    "crates \<Rightarrow> ControlPacketType \<Rightarrow> bytes \<Rightarrow> ((PacketId \<times> bytes) \<times> bytes) res" where
  "filters_parse d t buf =
     and_then (FixedHeaderSlice_parse d buf) (\<lambda>(fixed, rest).
     debug_assert (debug_assertions d) (FixedHeader_packet_type fixed = Ok t) (
     and_then (RemainingLength_read_len d (remaining_length fixed)) (\<lambda>rem_len.
     and_then (ok_or (Error_new NotEnoughSpace ''SUBSCRIBE packet'') (split_at_checked rem_len rest))
       (\<lambda>(packet, rest).
     and_then (PacketId_parse d packet) (\<lambda>(pk, packet).
     Ok ((pk, packet), rest))))))"

definition filters_decode ::
    "crates \<Rightarrow> ControlPacketType \<Rightarrow> (crates \<Rightarrow> bytes \<Rightarrow> ('o \<times> bytes) res) \<Rightarrow> ('o \<Rightarrow> unit res) \<Rightarrow> bytes \<Rightarrow>
     ((PacketId \<times> bytes) \<times> bytes) res option" where
  "filters_decode d t parse check buf =
     (case filters_parse d t buf of
        Ok ((pk, bs), rest) \<Rightarrow>
          map_option (\<lambda>r. and_then r (\<lambda>_. Ok ((pk, bs), rest)))
            (cursor_try_fold (cursor_read (debug_assertions d) (parse d)) (\<lambda>_. check) ()
              \<lparr>cur_bytes = bs, cur_pos = 0\<rparr>)
      | Err e \<Rightarrow> Some (Err e)
      | Panic \<Rightarrow> Some Panic)"

definition filters_packet ::
    "ControlPacketType \<Rightarrow> crates \<Rightarrow> u16 \<Rightarrow> bytes \<Rightarrow> bytes" where
  "filters_packet t d k bs =
     frame_header t (default_flags t) (2 + length bs) @ zc_u16_as_bytes d k @ bs"

lemma length_filters_packet:
  "crates_ok d \<Longrightarrow> length (filters_packet t d k bs) =
     length (frame_header t (default_flags t) (2 + length bs)) + 2 + length bs"
  by (simp add: filters_packet_def)

lemma filters_parse_Ok:
  assumes "crates_ok d" "filters_parse d t buf = Ok ((pk, bs), rest)"
  shows "\<exists>h. framed h (zc_u16_as_bytes d (pkid pk) @ bs) \<and> (debug_assertions d \<longrightarrow> FixedHeader_packet_type h = Ok t) \<and>
      buf = header_bytes h @ zc_u16_as_bytes d (pkid pk) @ bs @ rest"
    and "pkid pk \<noteq> 0" and "length bs \<le> max_remaining"
proof -
  from assms(2) obtain h r n packet where h: "FixedHeaderSlice_parse d buf = Ok (h, r)"
    "debug_assertions d \<longrightarrow> FixedHeader_packet_type h = Ok t"
    "RemainingLength_read_len d (remaining_length h) = Ok n"
    "split_at_checked n r = Some (packet, rest)" "PacketId_parse d packet = Ok (pk, bs)"
    by (auto simp: filters_parse_def)
  from h(5) assms(1) have packet: "packet = zc_u16_as_bytes d (pkid pk) @ bs" "pkid pk \<noteq> 0"
    by (simp_all add: PacketId_parse_iff)
  have f: "framed h packet" "buf = header_bytes h @ packet @ rest"
    using FixedHeaderSlice_parse_split [OF assms(1) h(1,3,4)] by simp_all
  show "\<exists>h. framed h (zc_u16_as_bytes d (pkid pk) @ bs) \<and> (debug_assertions d \<longrightarrow> FixedHeader_packet_type h = Ok t) \<and>
      buf = header_bytes h @ zc_u16_as_bytes d (pkid pk) @ bs @ rest"
    using f h(2) packet(1) by auto
  show "pkid pk \<noteq> 0" by (rule packet(2))
  show "length bs \<le> max_remaining" using framed_bound [OF f(1)] packet(1) by simp
qed

lemma filters_parse_packet [parse_simp]:
  assumes "crates_ok d" "k \<noteq> 0" "2 + length bs \<le> max_remaining"
  shows "filters_parse d t (filters_packet t d k bs @ rest) = Ok ((\<lparr>pkid = k\<rparr>, bs), rest)"
proof -
  have "split_at_checked (2 + length bs) ((zc_u16_as_bytes d k @ bs) @ rest) =
      Some (zc_u16_as_bytes d k @ bs, rest)"
    by (rule split_at_checked_append) (simp add: assms(1))
  moreover have "FixedHeaderSlice_parse d (filters_packet t d k bs @ rest) =
      Ok (header_of t (default_flags t) (2 + length bs), (zc_u16_as_bytes d k @ bs) @ rest)"
    using FixedHeaderSlice_parse_header [OF assms(1) flags_ok_default assms(3)]
    by (simp add: filters_packet_def)
  ultimately show ?thesis
    using assms
    by (simp only: filters_parse_def and_then.simps prod.case header_of_simps flags_ok_default
        debug_assert_True read_len_header_of ok_or.simps PacketId_parse_bytes simp_thms)
qed

lemma filters_parse_no_Panic:
  assumes "crates_ok d" "ControlPacketType_parse d b = Ok (t, f)"
  shows "filters_parse d t (b # bs) \<noteq> Panic"
proof (cases "FixedHeaderSlice_parse d (b # bs)")
  case (Ok p)
  then obtain h rest where p: "p = (h, rest)" by (cases p)
  with Ok have h: "FixedHeaderSlice_parse d (b # bs) = Ok (h, rest)" by simp
  from FixedHeaderSlice_read_len [OF assms(1) h] obtain n
    where "RemainingLength_read_len d (remaining_length h) = Ok n" by blast
  with h FixedHeaderSlice_parse_type [OF assms h] assms(1) PacketId_parse_no_Panic show ?thesis
    by (auto simp: filters_parse_def and_then_Panic_iff)
qed (use FixedHeaderSlice_parse_no_Panic [OF assms(1)] in \<open>simp_all add: filters_parse_def\<close>)

section \<open>The list of filters\<close>

locale filter_codec = codec crates_ok parse ok enc view
  for parse :: "crates \<Rightarrow> bytes \<Rightarrow> ('o \<times> bytes) res" and ok :: "'v \<Rightarrow> bool"
    and enc :: "crates \<Rightarrow> 'v \<Rightarrow> bytes" and view :: "'v \<Rightarrow> 'o" +
  fixes check :: "crates \<Rightarrow> 'o \<Rightarrow> unit res"
  assumes parse_no_Panic: "crates_ok d \<Longrightarrow> parse d b \<noteq> Panic"
    and check_no_Panic: "crates_ok d \<Longrightarrow> check d x \<noteq> Panic"
    and check_view: "crates_ok d \<Longrightarrow> ok v \<Longrightarrow> check d (view v) = Ok ()"
begin

lemma check_all: "crates_ok d \<Longrightarrow> list_all ok vs \<Longrightarrow> try_fold (\<lambda>_. check d) () (map view vs) = Ok ()"
  by (induction vs) (simp_all add: check_view)

lemma filters_decode_enc:
  assumes "crates_ok d" "k \<noteq> 0" "list_all ok vs" "2 + length (concat (map (enc d) vs)) \<le> max_remaining"
  shows "filters_decode d t parse (check d) (filters_packet t d k (concat (map (enc d) vs)) @ rest) =
    Some (Ok ((\<lparr>pkid = k\<rparr>, concat (map (enc d) vs)), rest))"
proof -
  have "length (concat (map (enc d) vs)) \<le> usize_max" using assms(4) by (simp add: usize_max_def)
  from cursor_try_fold_decodes [OF assms(1) this, of 0 "map view vs" _ "\<lambda>_. check d" "()"] decodes_enc [OF assms(1,3)]
  show ?thesis
    using assms by (simp add: filters_decode_def filters_parse_packet check_all)
qed

lemma filters_decode_total:
  assumes "crates_ok d"
  shows "\<exists>r. filters_decode d t parse (check d) buf = Some r \<and>
    (r = Panic \<longrightarrow> filters_parse d t buf = Panic)"
proof (cases "filters_parse d t buf")
  case (Ok p)
  then obtain pk bs rest where p: "filters_parse d t buf = Ok ((pk, bs), rest)"
    by (cases p; cases "fst p") auto
  have "length bs \<le> usize_max"
    using filters_parse_Ok(3) [OF assms p] by (simp add: usize_max_def)
  from cursor_try_fold_total [OF assms this, of 0 "\<lambda>_. check d"] parse_no_Panic check_no_Panic assms
  obtain r where "cursor_try_fold (cursor_read (debug_assertions d) (parse d)) (\<lambda>_. check d) ()
      \<lparr>cur_bytes = bs, cur_pos = 0\<rparr> = Some r" "r \<noteq> Panic" by blast
  with p show ?thesis by (cases r) (simp_all add: filters_decode_def)
qed (simp_all add: filters_decode_def)

lemma filters_decode_Ok:
  assumes "crates_ok d" "filters_decode d t parse (check d) buf = Some (Ok ((pk, bs), rest))"
  shows "filters_parse d t buf = Ok ((pk, bs), rest)"
    and "\<exists>xs. decodes (parse d) bs xs \<and> try_fold (\<lambda>_. check d) () xs = Ok ()"
proof -
  from assms(2) show p: "filters_parse d t buf = Ok ((pk, bs), rest)"
    by (auto simp: filters_decode_def split: result.splits prod.splits)
  have "length bs \<le> usize_max"
    using filters_parse_Ok(3) [OF assms(1) p] by (simp add: usize_max_def)
  moreover have "cursor_try_fold (cursor_read (debug_assertions d) (parse d)) (\<lambda>_. check d) ()
      \<lparr>cur_bytes = bs, cur_pos = 0\<rparr> = Some (Ok ())"
    using assms(2) p by (auto simp: filters_decode_def)
  ultimately show "\<exists>xs. decodes (parse d) bs xs \<and> try_fold (\<lambda>_. check d) () xs = Ok ()"
    using cursor_try_fold_Ok [OF assms(1), of bs 0] by simp
qed

lemma filters_decode_front:
  assumes "crates_ok d" "filters_decode d t parse (check d) buf = Some (Ok ((pk, bs), rest))"
  shows "\<exists>pre. pre \<noteq> [] \<and> buf = pre @ rest"
proof -
  obtain h where "buf = header_bytes h @ zc_u16_as_bytes d (pkid pk) @ bs @ rest"
    using filters_parse_Ok(1) [OF assms(1) filters_decode_Ok(1) [OF assms]] by blast
  then show ?thesis by (intro exI [of _ "header_bytes h @ zc_u16_as_bytes d (pkid pk) @ bs"]) simp
qed

end

section \<open>Encoding\<close>

lemma filters_encode_len:
  assumes "\<And>x. x \<in> set vs \<Longrightarrow> elen x = Ok (length (enc x))"
    and "a + length (concat (map enc vs)) \<le> usize_max"
  shows "try_fold (\<lambda>len x. and_then (elen x) (\<lambda>topic. ok_or e (checked_add topic len))) a vs =
    Ok (a + length (concat (map enc vs)))"
  using assms
proof (induction vs arbitrary: a)
  case (Cons v vs)
  then have "elen v = Ok (length (enc v))" "checked_add (length (enc v)) a = Some (a + length (enc v))"
    by (simp_all add: checked_add_def add.commute)
  moreover have "try_fold (\<lambda>len x. and_then (elen x) (\<lambda>topic. ok_or e (checked_add topic len)))
      (a + length (enc v)) vs = Ok (a + length (enc v) + length (concat (map enc vs)))"
    using Cons by simp
  ultimately show ?case by (simp only: try_fold.simps and_then.simps ok_or.simps) simp
qed simp

lemma filters_write_emits:
  assumes "crates_ok d" "2 + length (concat (map enc vs)) \<le> max_remaining"
    and "\<And>x. x \<in> set vs \<Longrightarrow> emits (g x) (length (enc x)) (enc x)"
  shows "emits
    (w_then (w_lift (FixedHeaderBuilder_remaining_length (FixedHeaderBuilder_new t)
        (2 + length (concat (map enc vs))))) (\<lambda>b.
     w_then (FixedHeaderBuilder_write_sync d b) (\<lambda>written.
     w_then (PacketId_write_sync d k) (\<lambda>n.
     w_then (w_lift (usize_add (debug_assertions d) written n)) (\<lambda>written.
     w_try_fold (\<lambda>acc filter.
       w_then (g filter) (\<lambda>n. w_lift (usize_add (debug_assertions d) acc n))) written vs)))))
    (length (filters_packet t d k (concat (map enc vs)))) (filters_packet t d k (concat (map enc vs)))"
proof -
  let ?bs = "concat (map enc vs)"
  let ?h = "length (frame_header t (default_flags t) (2 + length ?bs))"
  have fits: "?h + 2 + length ?bs \<le> usize_max"
    using length_frame_header_bounds(2) [OF assms(2), of t "default_flags t"] assms(2)
    by (simp add: usize_max_def)
  note loop = w_try_fold_emits [where g = g and enc = enc and dbg = "debug_assertions d", OF assms(3) fits]
  show ?thesis
    unfolding filters_packet_def length_append length_u16_as_bytes [OF assms(1)]
  proof (rule frame_header_new_then_emits [OF assms(1,2) _ refl], rule emits_count_then [OF PacketId_write_sync_emits _ _ refl])
    show "emits (w_try_fold (\<lambda>acc filter.
       w_then (g filter) (\<lambda>n. w_lift (usize_add (debug_assertions d) acc n))) (?h + 2) vs)
       (?h + (2 + length ?bs)) ?bs"
      using loop by (simp only: add.assoc)
  qed (use fits in simp)
qed

end
