(* ===== verification/Subscribe_Packet.thy ===== *)
theory Subscribe_Packet
  imports Filter_List Topic
begin

text \<open>
  The SUBSCRIBE packet: the requested QoS and the topic filter (\<open>subscribe/topic.rs\<close>), the
  cursor over the filters (\<open>iter.rs\<close>), the builder (\<open>builder.rs\<close>) and the packet
  (\<open>mod.rs\<close>, all under \<open>src/v3/packets/subscribe/\<close>).
\<close>

section \<open>Topic filters\<close>

datatype RequestedQos = Requested_AtMostOnce | Requested_AtLeastOnce | Requested_ExactlyOnce

primrec RequestedQos_as_byte :: "RequestedQos \<Rightarrow> u8" where
  "RequestedQos_as_byte Requested_AtMostOnce = 0b00000000"
| "RequestedQos_as_byte Requested_AtLeastOnce = 0b00000001"
| "RequestedQos_as_byte Requested_ExactlyOnce = 0b00000010"

definition RequestedQos_from_byte :: "u8 \<Rightarrow> RequestedQos option" where
  "RequestedQos_from_byte b =
     (if b = 0b00000000 then Some Requested_AtMostOnce
      else if b = 0b00000001 then Some Requested_AtLeastOnce
      else if b = 0b00000010 then Some Requested_ExactlyOnce else None)"

text \<open>The bit patterns the enum admits, as the derived \<open>TryFromBytes\<close> checks them.\<close>

definition RequestedQos_valid :: "bytes \<Rightarrow> bool" where
  "RequestedQos_valid bs \<longleftrightarrow> list_all (\<lambda>b. RequestedQos_from_byte b \<noteq> None) bs"

record SubscribeFilter =
  sf_topic :: bytes
  sf_qos :: RequestedQos

record TopicFilter =
  tf_topic :: MqttStr
  tf_qos :: RequestedQos

definition TopicFilter_eq :: "TopicFilter \<Rightarrow> SubscribeFilter \<Rightarrow> bool" where
  "TopicFilter_eq this other \<longleftrightarrow>
     sf_topic other = MqttStr_as_str (tf_topic this) \<and> sf_qos other = tf_qos this"

definition TopicFilter_validate_value :: "crates \<Rightarrow> SubscribeFilter \<Rightarrow> unit res" where
  "TopicFilter_validate_value d value =
     (if \<not> has_valid_wildcard d (sf_topic value)
      then Err (Error_new Invalid ''SUBSCRIBE topic filter'') else Ok ())"

definition TopicFilter_validate :: "crates \<Rightarrow> TopicFilter \<Rightarrow> unit res" where
  "TopicFilter_validate d this =
     and_then (MqttStr_validate d (tf_topic this)) (\<lambda>_.
     if \<not> has_valid_wildcard d (MqttStr_as_str (tf_topic this))
     then Err (Error_new Invalid ''SUBSCRIBE topic filter'') else Ok ())"

definition TopicFilter_encode_len :: "SubscribeFilter \<Rightarrow> usize res" where
  "TopicFilter_encode_len value =
     and_then (MqttStr_encode_len (sf_topic value)) (\<lambda>len.
     ok_or (Error_new Overflow ''SUBSCRIBE topic filter'') (checked_add len 1))"

definition TopicFilter_write_sync :: "crates \<Rightarrow> SubscribeFilter \<Rightarrow> usize wr" where
  "TopicFilter_write_sync d value =
     w_then (w_lift (TopicFilter_validate_value d value)) (\<lambda>_.
     w_then (MqttStr_write_sync d (sf_topic value)) (\<lambda>topic.
     w_then (write_all ''while writing SUBSCRIBE topic filter''
               [RequestedQos_as_byte (sf_qos value)]) (\<lambda>_.
     w_lift (usize_add (debug_assertions d) topic 1))))"

definition TopicFilter_parse :: "crates \<Rightarrow> bytes \<Rightarrow> (TopicFilter \<times> bytes) res" where
  "TopicFilter_parse d buf =
     and_then (MqttStr_parse d buf) (\<lambda>(topic, buf).
     and_then (map_err (\<lambda>error. Error_new (convert_error_kind error) ''SUBSCRIBE topic filter QoS'')
                 (zc_try_ref_from_prefix d 1 RequestedQos_valid buf)) (\<lambda>(q, bs).
     and_then (expect (RequestedQos_from_byte (q ! 0))) (\<lambda>qos.
     Ok (\<lparr>tf_topic = topic, tf_qos = qos\<rparr>, bs))))"

section \<open>The cursor\<close>

definition RawSubscribeCursor_read :: "crates \<Rightarrow> TopicFilter nxt" where
  "RawSubscribeCursor_read d this =
     debug_assert (debug_assertions d) (cur_pos this \<le> length (cur_bytes this))
       (case Option.bind (slice_from (cur_pos this) (cur_bytes this))
               (\<lambda>bs. if bs \<noteq> [] then Some bs else None) of
          None \<Rightarrow> Ok (None, this)
        | Some bs \<Rightarrow>
            and_then (TopicFilter_parse d bs) (\<lambda>(topic, rest).
            debug_assert (debug_assertions d) (length rest < length bs) (
            and_then (usize_add (debug_assertions d) (cur_pos this) (length bs - length rest)) (\<lambda>pos.
            Ok (Some topic, this\<lparr>cur_pos := pos\<rparr>)))))"

definition SubscriberCursor_next :: "crates \<Rightarrow> TopicFilter nxt" where
  "SubscriberCursor_next d this = cursor_expect (RawSubscribeCursor_read d) this"

section \<open>The packet\<close>

record SubscribeBuilder =
  sb_pkid :: u16
  sb_filters :: "SubscribeFilter list"

definition SubscribeBuilder_new :: "u16 \<Rightarrow> SubscribeFilter list \<Rightarrow> SubscribeBuilder" where
  "SubscribeBuilder_new pk topic_filters = \<lparr>sb_pkid = pk, sb_filters = topic_filters\<rparr>"

definition SubscribeBuilder_with_topic :: "u16 \<Rightarrow> SubscribeFilter \<Rightarrow> SubscribeBuilder" where
  "SubscribeBuilder_with_topic pk topic = SubscribeBuilder_new pk [topic]"

record Subscribe =
  subscribe_pkid :: PacketId
  subscribe_filters :: bytes

text \<open>
  The items that the iterator returned by \<open>filters\<close> yields, collected; an item that is an
  error panics.
\<close>

definition Subscribe_filters :: "crates \<Rightarrow> Subscribe \<Rightarrow> TopicFilter list res option" where
  "Subscribe_filters d this =
     cursor_try_fold (SubscriberCursor_next d) (\<lambda>acc filter. Ok (acc @ [filter])) []
       \<lparr>cur_bytes = subscribe_filters this, cur_pos = 0\<rparr>"

definition Subscribe_validate_value :: "crates \<Rightarrow> SubscribeBuilder \<Rightarrow> unit res" where
  "Subscribe_validate_value d value =
     and_then (try_fold (\<lambda>_. TopicFilter_validate_value d) () (sb_filters value)) (\<lambda>_. Ok ())"

definition Subscribe_validate :: "crates \<Rightarrow> Subscribe \<Rightarrow> unit res option" where
  "Subscribe_validate d this =
     cursor_try_fold (RawSubscribeCursor_read d) (\<lambda>_ _. Ok ()) ()
       \<lparr>cur_bytes = subscribe_filters this, cur_pos = 0\<rparr>"

definition Subscribe_encode_len :: "SubscribeBuilder \<Rightarrow> usize res" where
  "Subscribe_encode_len value =
     and_then (PacketId_encode_len (sb_pkid value)) (\<lambda>len.
     try_fold (\<lambda>len filter.
       and_then (TopicFilter_encode_len filter) (\<lambda>topic.
       ok_or (Error_new Overflow ''SUBSCRIBE packet len'') (checked_add topic len)))
       len (sb_filters value))"

definition Subscribe_write_sync :: "crates \<Rightarrow> SubscribeBuilder \<Rightarrow> usize wr" where
  "Subscribe_write_sync d value =
     w_then (w_lift (Subscribe_validate_value d value)) (\<lambda>_.
     w_then (w_lift (Subscribe_encode_len value)) (\<lambda>rem_len.
     w_then (w_lift (FixedHeaderBuilder_remaining_length (FixedHeaderBuilder_new Subscribe) rem_len))
       (\<lambda>b.
     w_then (FixedHeaderBuilder_write_sync d b) (\<lambda>written.
     w_then (PacketId_write_sync d (sb_pkid value)) (\<lambda>n.
     w_then (w_lift (usize_add (debug_assertions d) written n)) (\<lambda>written.
     w_try_fold (\<lambda>acc filter.
       w_then (TopicFilter_write_sync d filter) (\<lambda>n.
       w_lift (usize_add (debug_assertions d) acc n))) written (sb_filters value)))))))"

text \<open>The loop in \<open>validate\<close> could run for ever; then \<open>parse\<close> does, and its value is \<open>None\<close>.\<close>

definition Subscribe_parse :: "crates \<Rightarrow> bytes \<Rightarrow> (Subscribe \<times> bytes) res option" where
  "Subscribe_parse d buf =
     (case
        and_then (FixedHeaderSlice_parse d buf) (\<lambda>(fixed, rest).
        debug_assert (debug_assertions d) (FixedHeader_packet_type fixed = Ok Subscribe) (
        and_then (RemainingLength_read_len d (remaining_length fixed)) (\<lambda>rem_len.
        and_then (ok_or (Error_new NotEnoughSpace ''SUBSCRIBE packet'') (split_at_checked rem_len rest))
          (\<lambda>(packet, rest).
        and_then (PacketId_parse d packet) (\<lambda>(pk, packet).
        Ok (\<lparr>subscribe_pkid = pk, subscribe_filters = packet\<rparr>, rest))))))
      of
        Ok (this, rest) \<Rightarrow>
          map_option (\<lambda>r. and_then r (\<lambda>_. Ok (this, rest))) (Subscribe_validate d this)
      | Err e \<Rightarrow> Some (Err e)
      | Panic \<Rightarrow> Some Panic)"

section \<open>Topic filters: round trip\<close>

lemma RequestedQos_from_byte_iff: "RequestedQos_from_byte b = Some q \<longleftrightarrow> b = RequestedQos_as_byte q"
  by (cases q) (auto simp: RequestedQos_from_byte_def)

definition filter_bytes :: "crates \<Rightarrow> SubscribeFilter \<Rightarrow> bytes" where
  "filter_bytes d f = buff_bytes d (sf_topic f) @ [RequestedQos_as_byte (sf_qos f)]"

definition filter_of :: "SubscribeFilter \<Rightarrow> TopicFilter" where
  "filter_of f = \<lparr>tf_topic = str_of (sf_topic f), tf_qos = sf_qos f\<rparr>"

text \<open>A filter the client may send: a permitted string whose wildcards are whole levels.\<close>

definition filter_ok :: "SubscribeFilter \<Rightarrow> bool" where
  "filter_ok f \<longleftrightarrow>
     mqtt_str_ok (sf_topic f) \<and> length (sf_topic f) \<le> 65535 \<and>
     filter_levels_ok (topic_levels (sf_topic f))"

lemma TopicFilter_validate_value_ok:
  "crates_ok d \<Longrightarrow> filter_ok f \<Longrightarrow> TopicFilter_validate_value d f = Ok ()"
  by (simp add: TopicFilter_validate_value_def filter_ok_def has_valid_wildcard_levels usize_max_def)

lemma TopicFilter_encode_len_eq:
  "crates_ok d \<Longrightarrow> filter_ok f \<Longrightarrow> TopicFilter_encode_len f = Ok (length (filter_bytes d f))"
  by (simp add: TopicFilter_encode_len_def MqttStr_encode_len_def checked_add_def filter_ok_def
      usize_max_def filter_bytes_def)

lemma TopicFilter_write_sync_emits:
  assumes "crates_ok d" "filter_ok f"
  shows "emits (TopicFilter_write_sync d f) (length (filter_bytes d f)) (filter_bytes d f)"
proof -
  from assms(2) have f: "mqtt_str_ok (sf_topic f)" "length (sf_topic f) \<le> 65535"
    by (simp_all add: filter_ok_def)
  have l: "length (filter_bytes d f) = 2 + length (sf_topic f) + 1"
    using assms(1) by (simp add: filter_bytes_def)
  have tail: "emits (w_then (write_all m bs) (\<lambda>_. w_lift (usize_add dbg (2 + length (sf_topic f)) 1)))
      (2 + length (sf_topic f) + 1) bs" for m bs dbg
    using f(2) by (intro emits_then [OF emits_write_all emits_lift]) (simp_all add: usize_add_def usize_max_def)
  show ?thesis
    unfolding TopicFilter_write_sync_def TopicFilter_validate_value_ok [OF assms] w_then_lift_Ok l
    unfolding filter_bytes_def
    by (rule emits_then [OF MqttStr_write_sync_emits [OF f refl] _ refl]) (rule tail)
qed

lemma TopicFilter_parse_iff:
  assumes "crates_ok d"
  shows "TopicFilter_parse d buf = Ok (x, rest) \<longleftrightarrow>
    MqttStr_parse d buf = Ok (tf_topic x, RequestedQos_as_byte (tf_qos x) # rest)" (is "?L \<longleftrightarrow> ?R")
proof
  assume ?L
  then obtain buf' where "MqttStr_parse d buf = Ok (tf_topic x, buf')" "buf' \<noteq> []"
    "RequestedQos_from_byte (hd buf') = Some (tf_qos x)" "rest = tl buf'"
    using assms
    by (auto simp: TopicFilter_parse_def zerocopy_laws(4) hd_conv_nth drop_Suc split: if_splits)
  then show ?R by (cases buf') (auto simp: RequestedQos_from_byte_iff)
next
  assume ?R
  then show ?L
    using assms RequestedQos_from_byte_iff [of "RequestedQos_as_byte (tf_qos x)" "tf_qos x"]
    by (cases x) (simp add: TopicFilter_parse_def zerocopy_laws(4) RequestedQos_valid_def)
qed

lemma TopicFilter_parse_no_Panic:
  assumes "crates_ok d"
  shows "TopicFilter_parse d buf \<noteq> Panic"
proof
  assume "TopicFilter_parse d buf = Panic"
  then obtain q where "RequestedQos_valid [q]" "RequestedQos_from_byte q = None"
    using assms MqttStr_parse_no_Panic [OF assms]
    by (auto simp: TopicFilter_parse_def and_then_Panic_iff zerocopy_laws(4) take_Suc neq_Nil_conv
        expect_Panic_iff split: if_splits)
  then show False by (simp add: RequestedQos_valid_def)
qed

section \<open>The cursor and the packet\<close>

lemma RawSubscribeCursor_read_eq:
  "RawSubscribeCursor_read d = cursor_read (debug_assertions d) (TopicFilter_parse d)"
  by (rule ext) (simp add: RawSubscribeCursor_read_def cursor_read_def)

interpretation topic_filter: filter_codec TopicFilter_parse filter_ok filter_bytes filter_of
  "\<lambda>_ _. Ok ()"
proof unfold_locales
  show "\<exists>pre. pre \<noteq> [] \<and> buf = pre @ rest"
    if "crates_ok d" "TopicFilter_parse d buf = Ok (x, rest)" for d buf x rest
    using that mqtt_str.parse_front [OF that(1)]
    by (fastforce simp: TopicFilter_parse_iff)
  show "TopicFilter_parse d (filter_bytes d v @ rest) = Ok (filter_of v, rest)"
    if "crates_ok d" "filter_ok v" for d v rest
    using that by (simp add: TopicFilter_parse_iff filter_bytes_def filter_of_def filter_ok_def
        MqttStr_parse_bytes)
qed (simp_all add: TopicFilter_parse_no_Panic)

lemma Subscribe_parse_eq:
  "Subscribe_parse d buf =
     map_option (\<lambda>r. and_then r (\<lambda>((pk, bs), rest).
         Ok (\<lparr>subscribe_pkid = pk, subscribe_filters = bs\<rparr>, rest)))
       (filters_decode d Subscribe TopicFilter_parse (\<lambda>_. Ok ()) buf)"
proof -
  have front: "and_then (FixedHeaderSlice_parse d buf) (\<lambda>(fixed, rest).
        debug_assert (debug_assertions d) (FixedHeader_packet_type fixed = Ok Subscribe) (
        and_then (RemainingLength_read_len d (remaining_length fixed)) (\<lambda>rem_len.
        and_then (ok_or (Error_new NotEnoughSpace ''SUBSCRIBE packet'') (split_at_checked rem_len rest))
          (\<lambda>(packet, rest).
        and_then (PacketId_parse d packet) (\<lambda>(pk, packet).
        Ok (\<lparr>subscribe_pkid = pk, subscribe_filters = packet\<rparr>, rest)))))) =
      and_then (filters_parse d Subscribe buf) (\<lambda>((pk, bs), rest).
        Ok (\<lparr>subscribe_pkid = pk, subscribe_filters = bs\<rparr>, rest))"
    by (simp add: filters_parse_def and_then_assoc and_then_debug_assert split_def)
  show ?thesis
    unfolding Subscribe_parse_def front filters_decode_def Subscribe_validate_def
    by (cases "filters_parse d Subscribe buf")
      (auto simp: RawSubscribeCursor_read_eq option.map_comp o_def and_then_assoc split: prod.splits)
qed

definition subscribe_ok :: "crates \<Rightarrow> SubscribeBuilder \<Rightarrow> bool" where
  "subscribe_ok d b \<longleftrightarrow>
     sb_pkid b \<noteq> 0 \<and> list_all filter_ok (sb_filters b) \<and>
     2 + length (concat (map (filter_bytes d) (sb_filters b))) \<le> max_remaining"

definition subscribe_packet :: "crates \<Rightarrow> SubscribeBuilder \<Rightarrow> bytes" where
  "subscribe_packet d b =
     filters_packet Subscribe d (sb_pkid b) (concat (map (filter_bytes d) (sb_filters b)))"

lemma Subscribe_encode_len_eq:
  assumes "crates_ok d" "subscribe_ok d b"
  shows "Subscribe_encode_len b = Ok (2 + length (concat (map (filter_bytes d) (sb_filters b))))"
  unfolding Subscribe_encode_len_def PacketId_encode_len_def and_then.simps
  by (rule filters_encode_len)
    (use assms in \<open>auto simp: subscribe_ok_def list_all_iff usize_max_def intro: TopicFilter_encode_len_eq\<close>)

lemma Subscribe_validate_value_ok:
  assumes "crates_ok d" "list_all filter_ok (sb_filters b)"
  shows "Subscribe_validate_value d b = Ok ()"
proof -
  have "try_fold (\<lambda>_. TopicFilter_validate_value d) () fs = Ok ()" if "list_all filter_ok fs" for fs
    using that by (induction fs) (simp_all add: TopicFilter_validate_value_ok assms(1))
  with assms(2) show ?thesis by (simp add: Subscribe_validate_value_def)
qed

lemma Subscribe_write_sync_emits:
  assumes "crates_ok d" "subscribe_ok d b"
  shows "emits (Subscribe_write_sync d b) (length (subscribe_packet d b)) (subscribe_packet d b)"
proof -
  from assms(2) have b: "list_all filter_ok (sb_filters b)"
    "2 + length (concat (map (filter_bytes d) (sb_filters b))) \<le> max_remaining"
    by (simp_all add: subscribe_ok_def)
  show ?thesis
    unfolding Subscribe_write_sync_def Subscribe_encode_len_eq [OF assms]
      Subscribe_validate_value_ok [OF assms(1) b(1)] w_then_lift_Ok subscribe_packet_def
    by (rule filters_write_emits [OF assms(1) b(2)])
      (use b(1) assms(1) in \<open>auto simp: list_all_iff intro: TopicFilter_write_sync_emits\<close>)
qed

text \<open>A filter that is not permitted stops the packet before anything is written.\<close>

lemma Subscribe_write_sync_bad_wildcard:
  assumes "crates_ok d" "f \<in> set (sb_filters b)" "length (sf_topic f) \<le> usize_max"
    and "\<not> filter_levels_ok (topic_levels (sf_topic f))"
  shows "rejects (Subscribe_write_sync d b) (Error_new Invalid ''SUBSCRIBE topic filter'')"
proof -
  have bad: "TopicFilter_validate_value d f = Err (Error_new Invalid ''SUBSCRIBE topic filter'')"
    using assms by (simp add: TopicFilter_validate_value_def has_valid_wildcard_levels)
  have "try_fold (\<lambda>_. TopicFilter_validate_value d) () fs =
      Err (Error_new Invalid ''SUBSCRIBE topic filter'')" if "f \<in> set fs" for fs
    using that
    by (induction fs) (auto simp: bad, auto simp: TopicFilter_validate_value_def)
  with assms(2) show ?thesis
    by (simp add: Subscribe_write_sync_def Subscribe_validate_value_def rejects_lift)
qed

lemma Subscribe_parse_packet [parse_simp]:
  assumes "crates_ok d" "subscribe_ok d b"
  shows "Subscribe_parse d (subscribe_packet d b @ rest) =
    Some (Ok (\<lparr>subscribe_pkid = \<lparr>pkid = sb_pkid b\<rparr>,
               subscribe_filters = concat (map (filter_bytes d) (sb_filters b))\<rparr>, rest))"
  using assms topic_filter.filters_decode_enc [OF assms(1), of "sb_pkid b" "sb_filters b"]
  by (simp add: Subscribe_parse_eq subscribe_ok_def subscribe_packet_def)

text \<open>The iterator of a packet that was parsed yields its filters and does not panic.\<close>

lemma Subscribe_filters_decodes:
  assumes "crates_ok d" "length (subscribe_filters p) \<le> usize_max"
    and "decodes (TopicFilter_parse d) (subscribe_filters p) xs"
  shows "Subscribe_filters d p = Some (Ok xs)"
proof -
  have "cursor_try_fold (RawSubscribeCursor_read d) (\<lambda>acc x. Ok (acc @ [x])) []
      \<lparr>cur_bytes = subscribe_filters p, cur_pos = 0\<rparr> = Some (Ok xs)"
    unfolding RawSubscribeCursor_read_eq
    using topic_filter.cursor_try_fold_decodes [OF assms(1,2), of 0 xs _ "\<lambda>acc x. Ok (acc @ [x])" "[]"]
      assms(3)
    by (simp add: try_fold_collect)
  then show ?thesis
    unfolding Subscribe_filters_def SubscriberCursor_next_def [abs_def]
    by (rule cursor_try_fold_expect)
qed

lemma Subscribe_parse_Ok:
  assumes "crates_ok d" "Subscribe_parse d buf = Some (Ok (p, rest))"
  shows "filters_parse d Subscribe buf = Ok ((subscribe_pkid p, subscribe_filters p), rest)"
    and "\<exists>xs. decodes (TopicFilter_parse d) (subscribe_filters p) xs"
proof -
  from assms(2) have *: "filters_decode d Subscribe TopicFilter_parse (\<lambda>_. Ok ()) buf =
      Some (Ok ((subscribe_pkid p, subscribe_filters p), rest))"
    by (auto simp: Subscribe_parse_eq)
  from topic_filter.filters_decode_Ok [OF assms(1) *]
  show "filters_parse d Subscribe buf = Ok ((subscribe_pkid p, subscribe_filters p), rest)"
    and "\<exists>xs. decodes (TopicFilter_parse d) (subscribe_filters p) xs" by blast+
qed

lemma Subscribe_parse_total:
  assumes "crates_ok d"
  shows "\<exists>r. Subscribe_parse d buf = Some r \<and> (r = Panic \<longrightarrow> filters_parse d Subscribe buf = Panic)"
  using topic_filter.filters_decode_total [OF assms, of Subscribe buf]
  by (auto simp: Subscribe_parse_eq and_then_Panic_iff)

section \<open>Correctness\<close>

text \<open>A SUBSCRIBE with permitted filters is written whole, is read back by the peer, and iterating
  over the filters of the parsed packet yields exactly the filters of the builder, in order.\<close>

lemma subscribe_round_trip:
  assumes "crates_ok d" "subscribe_ok d b"
  shows "\<exists>p. emits (Subscribe_write_sync d b) (length (subscribe_packet d b)) (subscribe_packet d b) \<and>
    Subscribe_parse d (subscribe_packet d b @ rest) = Some (Ok (p, rest)) \<and>
    pkid (subscribe_pkid p) = sb_pkid b \<and>
    Subscribe_filters d p = Some (Ok (map filter_of (sb_filters b)))"
proof -
  let ?bs = "concat (map (filter_bytes d) (sb_filters b))"
  from assms(2) have "list_all filter_ok (sb_filters b)" "length ?bs \<le> usize_max"
    by (simp_all add: subscribe_ok_def usize_max_def)
  with topic_filter.decodes_enc [OF assms(1)] Subscribe_filters_decodes [OF assms(1)]
  have "Subscribe_filters d \<lparr>subscribe_pkid = \<lparr>pkid = sb_pkid b\<rparr>, subscribe_filters = ?bs\<rparr> =
      Some (Ok (map filter_of (sb_filters b)))" by simp
  with Subscribe_write_sync_emits [OF assms] Subscribe_parse_packet [OF assms] show ?thesis by simp
qed

definition sample_subscribe :: SubscribeBuilder where
  "sample_subscribe =
     SubscribeBuilder_new 10 [\<lparr>sf_topic = [0x61, slash, plus_sign], sf_qos = Requested_AtLeastOnce\<rparr>,
       \<lparr>sf_topic = [hash_sign], sf_qos = Requested_AtMostOnce\<rparr>]"

lemma sample_subscribe_ok: "subscribe_ok (std_crates True) sample_subscribe"
proof -
  have "mqtt_str_ok [0x61, slash, plus_sign]" "mqtt_str_ok [hash_sign]" by code_simp+
  then show ?thesis
    by (simp add: sample_subscribe_def subscribe_ok_def SubscribeBuilder_new_def filter_ok_def
        plain_level_def filter_bytes_def)
qed

text \<open>Parsing a SUBSCRIBE ends on every buffer, the loop over its filters included, and when the
  first byte is that of a SUBSCRIBE it does not panic. When it succeeded, the body is a sequence of
  encoded filters and nothing else, and the iterator over them, which panics on an invalid one,
  yields them all without panicking.\<close>

lemma subscribe_parse_sound:
  assumes "crates_ok d"
  shows "(\<exists>r. Subscribe_parse d buf = Some r) \<and>
    (ControlPacketType_parse d b = Ok (Subscribe, f) \<longrightarrow> Subscribe_parse d (b # bs) \<noteq> Some Panic) \<and>
    (Subscribe_parse d buf = Some (Ok (p, rest)) \<longrightarrow>
      (\<exists>h xs. framed h (zc_u16_as_bytes d (pkid (subscribe_pkid p)) @ subscribe_filters p) \<and>
        buf = header_bytes h @ zc_u16_as_bytes d (pkid (subscribe_pkid p)) @ subscribe_filters p @ rest \<and>
        pkid (subscribe_pkid p) \<noteq> 0 \<and> decodes (TopicFilter_parse d) (subscribe_filters p) xs \<and>
        Subscribe_filters d p = Some (Ok xs)))"
proof (intro conjI impI)
  show "\<exists>r. Subscribe_parse d buf = Some r" using Subscribe_parse_total [OF assms] by blast
  show "Subscribe_parse d (b # bs) \<noteq> Some Panic" if "ControlPacketType_parse d b = Ok (Subscribe, f)"
    using Subscribe_parse_total [OF assms] filters_parse_no_Panic [OF assms that] by (metis option.inject)
  assume p: "Subscribe_parse d buf = Some (Ok (p, rest))"
  note ok = Subscribe_parse_Ok [OF assms p]
  obtain xs where xs: "decodes (TopicFilter_parse d) (subscribe_filters p) xs" using ok(2) by blast
  have "length (subscribe_filters p) \<le> usize_max"
    using filters_parse_Ok(3) [OF assms ok(1)] by (simp add: usize_max_def)
  from Subscribe_filters_decodes [OF assms this xs] xs filters_parse_Ok(1,2) [OF assms ok(1)]
  show "\<exists>h xs. framed h (zc_u16_as_bytes d (pkid (subscribe_pkid p)) @ subscribe_filters p) \<and>
        buf = header_bytes h @ zc_u16_as_bytes d (pkid (subscribe_pkid p)) @ subscribe_filters p @ rest \<and>
        pkid (subscribe_pkid p) \<noteq> 0 \<and> decodes (TopicFilter_parse d) (subscribe_filters p) xs \<and>
        Subscribe_filters d p = Some (Ok xs)" by blast
qed

text \<open>One filter with a misplaced wildcard makes the whole SUBSCRIBE fail before a byte is written.\<close>

lemma subscribe_bad_wildcard:
  assumes "crates_ok d" "f \<in> set (sb_filters b)" "length (sf_topic f) \<le> usize_max"
    and "\<not> filter_levels_ok (topic_levels (sf_topic f))"
  shows "rejects (Subscribe_write_sync d b) (Error_new Invalid ''SUBSCRIBE topic filter'')"
  by (rule Subscribe_write_sync_bad_wildcard [OF assms])

end
