(* ===== verification/Sub_Ack.thy ===== *)
theory Sub_Ack
  imports Fixed_Header Packet_Id
begin

text \<open>
  The SUBACK packet (\<open>src/v3/packets/subscribe/ack.rs\<close>): a packet identifier and one return
  code for each filter of the SUBSCRIBE.
\<close>

section \<open>Return codes\<close>

datatype SubAckCode = Qos0 | Qos1 | Qos2 | Failure

primrec u8_from_SubAckCode :: "SubAckCode \<Rightarrow> u8" where
  "u8_from_SubAckCode Qos0 = 0b00000000"
| "u8_from_SubAckCode Qos1 = 0b00000001"
| "u8_from_SubAckCode Qos2 = 0b00000010"
| "u8_from_SubAckCode Failure = 0b10000000"

definition SubAckCode_try_from :: "u8 \<Rightarrow> SubAckCode res" where
  "SubAckCode_try_from value =
     (if value = 0b00000000 then Ok Qos0
      else if value = 0b00000001 then Ok Qos1
      else if value = 0b00000010 then Ok Qos2
      else if value = 0b10000000 then Ok Failure
      else Err (Error_new OutOfRange ''SUBACK return code''))"

text \<open>The bit patterns the slice of codes admits, and the codes they are.\<close>

primrec SubAckCode_read :: "bytes \<Rightarrow> SubAckCode list res" where
  "SubAckCode_read [] = Ok []"
| "SubAckCode_read (b # bs) =
     and_then (SubAckCode_try_from b) (\<lambda>c. and_then (SubAckCode_read bs) (\<lambda>cs. Ok (c # cs)))"

definition SubAckCode_valid :: "bytes \<Rightarrow> bool" where
  "SubAckCode_valid bs \<longleftrightarrow>
     list_all (\<lambda>b. case SubAckCode_try_from b of Ok _ \<Rightarrow> True | _ \<Rightarrow> False) bs"

section \<open>The packet\<close>

record SubAckBuilder =
  sab_pkid :: u16
  sab_return_codes :: "SubAckCode list"

record SubAck =
  suback_pkid :: PacketId
  suback_return_codes :: "SubAckCode list"

definition SubAck_validate_value :: "SubAckBuilder \<Rightarrow> unit res" where
  "SubAck_validate_value value = Ok ()"

definition SubAck_validate :: "SubAck \<Rightarrow> unit res" where
  "SubAck_validate this = and_then (PacketId_validate (suback_pkid this)) (\<lambda>_. Ok ())"

definition SubAck_encode_len :: "SubAckBuilder \<Rightarrow> usize res" where
  "SubAck_encode_len value =
     and_then (PacketId_encode_len (sab_pkid value)) (\<lambda>len.
     ok_or (Error_new Overflow ''SUBACK encode len'')
       (checked_add len (length (sab_return_codes value))))"

definition SubAck_write_sync :: "crates \<Rightarrow> SubAckBuilder \<Rightarrow> usize wr" where
  "SubAck_write_sync d value =
     w_then (w_lift (SubAck_encode_len value)) (\<lambda>remaining_length.
     w_then (w_lift (FixedHeaderBuilder_remaining_length (FixedHeaderBuilder_new SubAck)
               remaining_length)) (\<lambda>b.
     w_then (FixedHeaderBuilder_write_sync d b) (\<lambda>written.
     w_then (PacketId_write_sync d (sab_pkid value)) (\<lambda>n.
     w_then (w_lift (usize_add (debug_assertions d) written n)) (\<lambda>written.
     let bytes = map u8_from_SubAckCode (sab_return_codes value) in
     w_then (write_all ''while writing SUBACK return codes'' bytes) (\<lambda>_.
     w_lift (usize_add (debug_assertions d) written (length bytes))))))))"

primrec suback_convert_error :: "ConvertError \<Rightarrow> Error" where
  "suback_convert_error Alignment = Error_new Invalid ''SUBACK return code alignment''"
| "suback_convert_error Size = Error_new NotEnoughSpace ''SUBACK not enought space''"
| "suback_convert_error Validity = Error_new Invalid ''SUBACK return code is reserved''"

definition SubAck_parse :: "crates \<Rightarrow> bytes \<Rightarrow> (SubAck \<times> bytes) res" where
  "SubAck_parse d buf =
     and_then (FixedHeaderSlice_parse d buf) (\<lambda>(fixed, rest).
     debug_assert (debug_assertions d) (FixedHeader_packet_type fixed = Ok SubAck) (
     and_then (RemainingLength_read_len d (remaining_length fixed)) (\<lambda>rem_len.
     and_then (ok_or (Error_new Overflow ''SUBACK remaining length'')
                 (map_option (\<lambda>len. len div 1) (checked_sub rem_len 2))) (\<lambda>codes_count.
     and_then (map_err suback_convert_error
                 (zc_try_ref_from_prefix_with_elems d 2 SubAckCode_valid rest codes_count))
       (\<lambda>((pk, codes), rest).
     and_then (SubAckCode_read codes) (\<lambda>return_codes.
     let this = \<lparr>suback_pkid = \<lparr>pkid = zc_u16_get d pk\<rparr>, suback_return_codes = return_codes\<rparr> in
     and_then (SubAck_validate this) (\<lambda>_.
     Ok (this, rest))))))))"

section \<open>Round trip\<close>

definition suback_packet :: "crates \<Rightarrow> SubAckBuilder \<Rightarrow> bytes" where
  "suback_packet d b =
     frame_header SubAck (default_flags SubAck) (2 + length (sab_return_codes b)) @
     zc_u16_as_bytes d (sab_pkid b) @ map u8_from_SubAckCode (sab_return_codes b)"

definition suback_of :: "SubAckBuilder \<Rightarrow> SubAck" where
  "suback_of b = \<lparr>suback_pkid = \<lparr>pkid = sab_pkid b\<rparr>, suback_return_codes = sab_return_codes b\<rparr>"

definition suback_ok :: "SubAckBuilder \<Rightarrow> bool" where
  "suback_ok b \<longleftrightarrow> sab_pkid b \<noteq> 0 \<and> 2 + length (sab_return_codes b) \<le> max_remaining"

lemma SubAckCode_try_from_iff: "SubAckCode_try_from b = Ok c \<longleftrightarrow> b = u8_from_SubAckCode c"
  by (cases c) (auto simp: SubAckCode_try_from_def)

lemma SubAckCode_read_iff: "SubAckCode_read bs = Ok cs \<longleftrightarrow> bs = map u8_from_SubAckCode cs"
  by (induction bs arbitrary: cs) (auto simp: SubAckCode_try_from_iff)

lemma SubAckCode_valid_iff: "SubAckCode_valid bs \<longleftrightarrow> (\<exists>cs. bs = map u8_from_SubAckCode cs)"
proof -
  have "(case SubAckCode_try_from b of Ok _ \<Rightarrow> True | _ \<Rightarrow> False) \<longleftrightarrow> (\<exists>c. b = u8_from_SubAckCode c)" for b
    using SubAckCode_try_from_iff [of b] by (cases "SubAckCode_try_from b") fastforce+
  then have "SubAckCode_valid bs \<longleftrightarrow> list_all (\<lambda>b. \<exists>c. b = u8_from_SubAckCode c) bs"
    by (simp add: SubAckCode_valid_def)
  also have "\<dots> \<longleftrightarrow> (\<exists>cs. bs = map u8_from_SubAckCode cs)"
    by (induction bs) (auto simp: Cons_eq_map_conv)
  finally show ?thesis .
qed

lemma SubAck_write_sync_emits:
  assumes "crates_ok d" "suback_ok b"
  shows "emits (SubAck_write_sync d b) (length (suback_packet d b)) (suback_packet d b)"
proof -
  let ?n = "2 + length (sab_return_codes b)"
  let ?h = "length (frame_header SubAck (default_flags SubAck) ?n)"
  let ?bs = "map u8_from_SubAckCode (sab_return_codes b)"
  from assms(2) have n: "?n \<le> max_remaining" by (simp add: suback_ok_def)
  have fits: "?h + 2 + length ?bs \<le> usize_max"
    using length_frame_header_bounds(2) [OF n, of SubAck "default_flags SubAck"] n
    by (simp add: usize_max_def)
  have e: "SubAck_encode_len b = Ok ?n"
    using n by (simp add: SubAck_encode_len_def PacketId_encode_len_def checked_add_def usize_max_def)
  have tail: "emits (w_then (write_all m ?bs) (\<lambda>_. w_lift (usize_add (debug_assertions d) (?h + 2) (length ?bs))))
      (?h + 2 + length ?bs) ?bs" for m
    using fits by (intro emits_then [OF emits_write_all emits_lift]) (simp_all add: usize_add_eq)
  have total: "length (suback_packet d b) = ?h + 2 + length ?bs"
    using assms(1) by (simp add: suback_packet_def)
  show ?thesis
    unfolding SubAck_write_sync_def e w_then_lift_Ok Let_def total
    unfolding suback_packet_def
    by (rule frame_header_new_then_emits [OF assms(1) n _ refl],
        rule emits_count_then [OF PacketId_write_sync_emits _ _ refl])
      (use fits tail in simp_all)
qed

lemma SubAck_parse_Ok:
  assumes "crates_ok d" "SubAck_parse d buf = Ok (a, rest)"
  shows "\<exists>h. framed h (zc_u16_as_bytes d (pkid (suback_pkid a)) @ map u8_from_SubAckCode (suback_return_codes a)) \<and>
       (debug_assertions d \<longrightarrow> FixedHeader_packet_type h = Ok SubAck) \<and>
       buf = header_bytes h @ zc_u16_as_bytes d (pkid (suback_pkid a)) @
         map u8_from_SubAckCode (suback_return_codes a) @ rest"
    and "pkid (suback_pkid a) \<noteq> 0"
proof -
  from assms obtain h r n cs where h': "FixedHeaderSlice_parse d buf = Ok (h, r)"
    "debug_assertions d \<longrightarrow> FixedHeader_packet_type h = Ok SubAck"
    "RemainingLength_read_len d (remaining_length h) = Ok n" "2 \<le> n" "\<not> length r < 2 + (n - 2)"
    "SubAckCode_read (take (n - 2) (drop 2 r)) = Ok cs"
    "a = \<lparr>suback_pkid = \<lparr>pkid = zc_u16_get d (take 2 r)\<rparr>, suback_return_codes = cs\<rparr>"
    "SubAck_validate a = Ok ()" "rest = drop (2 + (n - 2)) r"
    by (auto simp: SubAck_parse_def zerocopy_laws(6) checked_sub_def Let_def split: if_splits)
  have "2 + (n - 2) = n" using h'(4) by simp
  with h'(5,9) have n: "n \<le> length r" "rest = drop n r" by simp_all
  note h = h'(1-4) n(1) h'(6-8) n(2)
  then have pre: "take 2 r = zc_u16_as_bytes d (pkid (suback_pkid a))"
    using assms(1) by (cases r; cases "tl r") (auto simp: u16_as_bytes_get numeral_2_eq_2)
  have codes: "take (n - 2) (drop 2 r) = map u8_from_SubAckCode (suback_return_codes a)"
    using h(6,7) by (simp add: SubAckCode_read_iff)
  have "take n r = take 2 r @ take (n - 2) (drop 2 r)"
    using h(4) by (metis le_add_diff_inverse take_add)
  with pre codes have body: "take n r = zc_u16_as_bytes d (pkid (suback_pkid a)) @
      map u8_from_SubAckCode (suback_return_codes a)" by simp
  have "split_at_checked n r = Some (take n r, rest)" using h(5,9) by (simp add: split_at_checked_def)
  from FixedHeaderSlice_parse_split [OF assms(1) h(1,3) this] h(2) body
  show "\<exists>h. framed h (zc_u16_as_bytes d (pkid (suback_pkid a)) @ map u8_from_SubAckCode (suback_return_codes a)) \<and>
       (debug_assertions d \<longrightarrow> FixedHeader_packet_type h = Ok SubAck) \<and>
       buf = header_bytes h @ zc_u16_as_bytes d (pkid (suback_pkid a)) @
         map u8_from_SubAckCode (suback_return_codes a) @ rest" by auto
  show "pkid (suback_pkid a) \<noteq> 0"
    using h(8) by (auto simp: SubAck_validate_def PacketId_validate_def split: if_splits)
qed

lemma SubAck_parse_packet [parse_simp]:
  assumes "crates_ok d" "suback_ok b"
  shows "SubAck_parse d (suback_packet d b @ rest) = Ok (suback_of b, rest)"
proof -
  let ?n = "2 + length (sab_return_codes b)"
  let ?k = "zc_u16_as_bytes d (sab_pkid b)" and ?cs = "map u8_from_SubAckCode (sab_return_codes b)"
  from assms(2) have b: "?n \<le> max_remaining" "sab_pkid b \<noteq> 0" by (simp_all add: suback_ok_def)
  have hdr: "FixedHeaderSlice_parse d (suback_packet d b @ rest) =
      Ok (header_of SubAck (default_flags SubAck) ?n, ?k @ ?cs @ rest)"
    using FixedHeaderSlice_parse_header [OF assms(1) flags_ok_default b(1)] by (simp add: suback_packet_def)
  have "SubAckCode_valid ?cs" by (auto simp: SubAckCode_valid_iff)
  then have ref: "zc_try_ref_from_prefix_with_elems d 2 SubAckCode_valid (?k @ ?cs @ rest)
      (length (sab_return_codes b)) = Ok ((?k, ?cs), rest)"
    using assms(1) by (simp add: zerocopy_laws(6))
  have codes: "SubAckCode_read ?cs = Ok (sab_return_codes b)" by (simp add: SubAckCode_read_iff)
  have valid: "SubAck_validate (suback_of b) = Ok ()"
    using b(2) by (simp add: SubAck_validate_def PacketId_validate_def suback_of_def)
  have count: "map_option (\<lambda>len. len div 1) (checked_sub ?n 2) = Some (length (sab_return_codes b))"
    by (simp add: checked_sub_def)
  show ?thesis
    using b valid
    by (simp only: SubAck_parse_def hdr and_then.simps prod.case header_of_simps flags_ok_default
        debug_assert_True read_len_header_of count ok_or.simps ref map_err.simps codes Let_def
        u16_round_trip [OF assms(1)] suback_of_def simp_thms)
qed

lemma SubAck_parse_no_Panic:
  assumes "crates_ok d" "ControlPacketType_parse d b = Ok (SubAck, f)"
  shows "SubAck_parse d (b # bs) \<noteq> Panic"
proof (cases "FixedHeaderSlice_parse d (b # bs)")
  case (Ok p)
  then obtain h r where h: "FixedHeaderSlice_parse d (b # bs) = Ok (h, r)" by (cases p) simp
  from FixedHeaderSlice_read_len [OF assms(1) h] obtain n
    where "RemainingLength_read_len d (remaining_length h) = Ok n" by blast
  moreover have "SubAckCode_read cs \<noteq> Panic" for cs
    by (induction cs) (auto simp: and_then_Panic_iff SubAckCode_try_from_def split: if_splits)
  ultimately show ?thesis
    using h FixedHeaderSlice_parse_type [OF assms h] assms(1)
    by (auto simp: SubAck_parse_def and_then_Panic_iff zerocopy_laws(6) Let_def SubAck_validate_def
        PacketId_validate_def split: if_splits)
qed (use FixedHeaderSlice_parse_no_Panic [OF assms(1)] in \<open>simp_all add: SubAck_parse_def\<close>)

interpretation suback: codec crates_ok SubAck_parse suback_ok suback_packet suback_of
proof unfold_locales
  show "\<exists>pre. pre \<noteq> [] \<and> buf = pre @ rest"
    if "crates_ok d" "SubAck_parse d buf = Ok (x, rest)" for d buf x rest
    using SubAck_parse_Ok(1) [OF that] by (metis append.assoc append_is_Nil_conv header_bytes_not_Nil)
qed (rule SubAck_parse_packet)

section \<open>Correctness\<close>

text \<open>A SUBACK with a non-zero identifier is written whole and read back by the client: the
  identifier and the return codes are those of the builder, one code per filter and in order.\<close>

lemma suback_round_trip:
  assumes "crates_ok d" "suback_ok b"
  shows "\<exists>a. emits (SubAck_write_sync d b) (length (suback_packet d b)) (suback_packet d b) \<and>
    SubAck_parse d (suback_packet d b @ rest) = Ok (a, rest) \<and> pkid (suback_pkid a) = sab_pkid b \<and>
    suback_return_codes a = sab_return_codes b"
  using SubAck_write_sync_emits [OF assms] suback.parse_enc [OF assms]
  by (intro exI [of _ "suback_of b"]) (simp add: suback_of_def)

text \<open>A buffer that parses as a SUBACK is its header, the identifier and the return codes it
  returned, byte for byte. A reserved return code makes the packet invalid: the bytes after the
  identifier are only ever 0, 1, 2 and 128.\<close>

lemma suback_parse_sound:
  assumes "crates_ok d" "SubAck_parse d buf = Ok (a, rest)"
  shows "\<exists>h cs. framed h (zc_u16_as_bytes d (pkid (suback_pkid a)) @ cs) \<and>
    buf = header_bytes h @ zc_u16_as_bytes d (pkid (suback_pkid a)) @ cs @ rest \<and>
    map SubAckCode_try_from cs = map Ok (suback_return_codes a) \<and> set cs \<subseteq> {0, 1, 2, 0x80} \<and>
    pkid (suback_pkid a) \<noteq> 0"
proof -
  let ?cs = "map u8_from_SubAckCode (suback_return_codes a)"
  have "u8_from_SubAckCode c \<in> {0, 1, 2, 0x80}" for c by (cases c) simp_all
  then have "set ?cs \<subseteq> {0, 1, 2, 0x80}" by auto
  moreover have "map SubAckCode_try_from ?cs = map Ok (suback_return_codes a)"
    by (simp add: SubAckCode_try_from_iff)
  ultimately show ?thesis using SubAck_parse_Ok [OF assms] by (metis append.assoc)
qed

end
