(* ===== verification/Unsubscribe_Packet.thy ===== *)
theory Unsubscribe_Packet
  imports Filter_List Topic
begin

text \<open>
  The UNSUBSCRIBE packet: the cursor over its topic filters (\<open>iter.rs\<close>), the builder
  (\<open>builder.rs\<close>) and the packet (\<open>mod.rs\<close>, all under \<open>src/v3/packets/unsubscribe/\<close>).
  The builder is generic over the collection of filters; here it is the list of the strings
  that iterating over the collection yields.
\<close>

section \<open>The cursor\<close>

definition RawUnsubscribeCursor_read :: "crates \<Rightarrow> MqttStr nxt" where
  "RawUnsubscribeCursor_read d this =
     debug_assert (debug_assertions d) (cur_pos this \<le> length (cur_bytes this))
       (case Option.bind (slice_from (cur_pos this) (cur_bytes this))
               (\<lambda>bs. if bs \<noteq> [] then Some bs else None) of
          None \<Rightarrow> Ok (None, this)
        | Some bs \<Rightarrow>
            and_then (MqttStr_parse d bs) (\<lambda>(topic, rest).
            debug_assert (debug_assertions d) (length rest < length bs) (
            and_then (usize_add (debug_assertions d) (cur_pos this) (length bs - length rest)) (\<lambda>pos.
            Ok (Some topic, this\<lparr>cur_pos := pos\<rparr>)))))"

definition UnsubscribeCursor_next :: "crates \<Rightarrow> MqttStr nxt" where
  "UnsubscribeCursor_next d this = cursor_expect (RawUnsubscribeCursor_read d) this"

section \<open>The packet\<close>

record UnsubscribeBuilder =
  ub_pkid :: u16
  ub_filters :: "bytes list"

definition UnsubscribeBuilder_new :: "u16 \<Rightarrow> bytes list \<Rightarrow> UnsubscribeBuilder" where
  "UnsubscribeBuilder_new pk topic_filters = \<lparr>ub_pkid = pk, ub_filters = topic_filters\<rparr>"

definition UnsubscribeBuilder_with_topic :: "u16 \<Rightarrow> bytes \<Rightarrow> UnsubscribeBuilder" where
  "UnsubscribeBuilder_with_topic pk topic = UnsubscribeBuilder_new pk [topic]"

record Unsubscribe =
  unsubscribe_pkid :: PacketId
  unsubscribe_filters :: bytes

definition Unsubscribe_filters :: "crates \<Rightarrow> Unsubscribe \<Rightarrow> MqttStr list res option" where
  "Unsubscribe_filters d this =
     cursor_try_fold (UnsubscribeCursor_next d) (\<lambda>acc filter. Ok (acc @ [filter])) []
       \<lparr>cur_bytes = unsubscribe_filters this, cur_pos = 0\<rparr>"

definition Unsubscribe_validate_value :: "crates \<Rightarrow> UnsubscribeBuilder \<Rightarrow> unit res" where
  "Unsubscribe_validate_value d value =
     and_then (try_fold (\<lambda>_ filter.
        if \<not> has_valid_wildcard d filter
        then Err (Error_new Invalid ''UNSUBSCRIBE topic filter'') else Ok ()) () (ub_filters value))
     (\<lambda>_. Ok ())"

definition Unsubscribe_validate :: "crates \<Rightarrow> Unsubscribe \<Rightarrow> unit res option" where
  "Unsubscribe_validate d this =
     cursor_try_fold (RawUnsubscribeCursor_read d) (\<lambda>_ topic.
       if \<not> has_valid_wildcard d (MqttStr_as_str topic)
       then Err (Error_new Invalid ''UNSUBSCRIBE topic filter'') else Ok ()) ()
       \<lparr>cur_bytes = unsubscribe_filters this, cur_pos = 0\<rparr>"

definition Unsubscribe_encode_len :: "UnsubscribeBuilder \<Rightarrow> usize res" where
  "Unsubscribe_encode_len value =
     and_then (PacketId_encode_len (ub_pkid value)) (\<lambda>len.
     try_fold (\<lambda>len filter.
       and_then (MqttStr_encode_len filter) (\<lambda>topic.
       ok_or (Error_new Overflow ''UNSUBSCRIBE packet len'') (checked_add topic len)))
       len (ub_filters value))"

definition Unsubscribe_write_sync :: "crates \<Rightarrow> UnsubscribeBuilder \<Rightarrow> usize wr" where
  "Unsubscribe_write_sync d value =
     w_then (w_lift (Unsubscribe_validate_value d value)) (\<lambda>_.
     w_then (w_lift (Unsubscribe_encode_len value)) (\<lambda>rem_len.
     w_then (w_lift (FixedHeaderBuilder_remaining_length (FixedHeaderBuilder_new Unsubscribe) rem_len))
       (\<lambda>b.
     w_then (FixedHeaderBuilder_write_sync d b) (\<lambda>written.
     w_then (PacketId_write_sync d (ub_pkid value)) (\<lambda>n.
     w_then (w_lift (usize_add (debug_assertions d) written n)) (\<lambda>written.
     w_try_fold (\<lambda>acc filter.
       w_then (MqttStr_write_sync d filter) (\<lambda>n.
       w_lift (usize_add (debug_assertions d) acc n))) written (ub_filters value)))))))"

definition Unsubscribe_parse :: "crates \<Rightarrow> bytes \<Rightarrow> (Unsubscribe \<times> bytes) res option" where
  "Unsubscribe_parse d buf =
     (case
        and_then (FixedHeaderSlice_parse d buf) (\<lambda>(fixed, rest).
        debug_assert (debug_assertions d) (FixedHeader_packet_type fixed = Ok Unsubscribe) (
        and_then (RemainingLength_read_len d (remaining_length fixed)) (\<lambda>rem_len.
        and_then (ok_or (Error_new NotEnoughSpace ''SUBSCRIBE packet'') (split_at_checked rem_len rest))
          (\<lambda>(packet, rest).
        and_then (PacketId_parse d packet) (\<lambda>(pk, packet).
        Ok (\<lparr>unsubscribe_pkid = pk, unsubscribe_filters = packet\<rparr>, rest))))))
      of
        Ok (this, rest) \<Rightarrow>
          map_option (\<lambda>r. and_then r (\<lambda>_. Ok (this, rest))) (Unsubscribe_validate d this)
      | Err e \<Rightarrow> Some (Err e)
      | Panic \<Rightarrow> Some Panic)"

section \<open>The filters\<close>

definition topic_check :: "crates \<Rightarrow> MqttStr \<Rightarrow> unit res" where
  "topic_check d topic =
     (if \<not> has_valid_wildcard d (MqttStr_as_str topic)
      then Err (Error_new Invalid ''UNSUBSCRIBE topic filter'') else Ok ())"

definition topic_ok :: "bytes \<Rightarrow> bool" where
  "topic_ok s \<longleftrightarrow> mqtt_str_ok s \<and> length s \<le> 65535 \<and> filter_levels_ok (topic_levels s)"

lemma topic_ok_wildcard: "crates_ok d \<Longrightarrow> topic_ok s \<Longrightarrow> has_valid_wildcard d s"
  by (simp add: topic_ok_def has_valid_wildcard_levels usize_max_def)

lemma RawUnsubscribeCursor_read_eq:
  "RawUnsubscribeCursor_read d = cursor_read (debug_assertions d) (MqttStr_parse d)"
  by (rule ext) (simp add: RawUnsubscribeCursor_read_def cursor_read_def)

interpretation unsub_filter: filter_codec MqttStr_parse topic_ok buff_bytes str_of topic_check
proof unfold_locales
  show "MqttStr_parse d (buff_bytes d v @ rest) = Ok (str_of v, rest)"
    if "crates_ok d" "topic_ok v" for d v rest
    using that by (simp add: topic_ok_def MqttStr_parse_bytes)
  show "topic_check d (str_of v) = Ok ()" if "crates_ok d" "topic_ok v" for d v
    using that by (simp add: topic_check_def topic_ok_wildcard MqttStr_as_str_def str_of_def)
qed (simp_all add: MqttStr_parse_no_Panic topic_check_def)

lemma Unsubscribe_parse_eq:
  "Unsubscribe_parse d buf =
     map_option (\<lambda>r. and_then r (\<lambda>((pk, bs), rest).
         Ok (\<lparr>unsubscribe_pkid = pk, unsubscribe_filters = bs\<rparr>, rest)))
       (filters_decode d Unsubscribe MqttStr_parse (topic_check d) buf)"
proof -
  have front: "and_then (FixedHeaderSlice_parse d buf) (\<lambda>(fixed, rest).
        debug_assert (debug_assertions d) (FixedHeader_packet_type fixed = Ok Unsubscribe) (
        and_then (RemainingLength_read_len d (remaining_length fixed)) (\<lambda>rem_len.
        and_then (ok_or (Error_new NotEnoughSpace ''SUBSCRIBE packet'') (split_at_checked rem_len rest))
          (\<lambda>(packet, rest).
        and_then (PacketId_parse d packet) (\<lambda>(pk, packet).
        Ok (\<lparr>unsubscribe_pkid = pk, unsubscribe_filters = packet\<rparr>, rest)))))) =
      and_then (filters_parse d Unsubscribe buf) (\<lambda>((pk, bs), rest).
        Ok (\<lparr>unsubscribe_pkid = pk, unsubscribe_filters = bs\<rparr>, rest))"
    by (simp add: filters_parse_def and_then_assoc and_then_debug_assert split_def)
  show ?thesis
    unfolding Unsubscribe_parse_def front filters_decode_def Unsubscribe_validate_def topic_check_def [abs_def]
    by (cases "filters_parse d Unsubscribe buf")
      (auto simp: RawUnsubscribeCursor_read_eq option.map_comp o_def and_then_assoc split: prod.splits)
qed

section \<open>Round trip\<close>

definition unsubscribe_ok :: "crates \<Rightarrow> UnsubscribeBuilder \<Rightarrow> bool" where
  "unsubscribe_ok d b \<longleftrightarrow>
     ub_pkid b \<noteq> 0 \<and> list_all topic_ok (ub_filters b) \<and>
     2 + length (concat (map (buff_bytes d) (ub_filters b))) \<le> max_remaining"

definition unsubscribe_packet :: "crates \<Rightarrow> UnsubscribeBuilder \<Rightarrow> bytes" where
  "unsubscribe_packet d b =
     filters_packet Unsubscribe d (ub_pkid b) (concat (map (buff_bytes d) (ub_filters b)))"

lemma Unsubscribe_encode_len_eq:
  assumes "crates_ok d" "unsubscribe_ok d b"
  shows "Unsubscribe_encode_len b = Ok (2 + length (concat (map (buff_bytes d) (ub_filters b))))"
  unfolding Unsubscribe_encode_len_def PacketId_encode_len_def and_then.simps
  by (rule filters_encode_len)
    (use assms in \<open>auto simp: unsubscribe_ok_def list_all_iff usize_max_def MqttStr_encode_len_def
       checked_add_def topic_ok_def\<close>)

lemma Unsubscribe_validate_value_ok:
  assumes "crates_ok d" "list_all topic_ok (ub_filters b)"
  shows "Unsubscribe_validate_value d b = Ok ()"
proof -
  have "try_fold (\<lambda>_ filter. if \<not> has_valid_wildcard d filter
        then Err (Error_new Invalid ''UNSUBSCRIBE topic filter'') else Ok ()) () fs = Ok ()"
    if "list_all topic_ok fs" for fs
    using that by (induction fs) (simp_all add: topic_ok_wildcard assms(1))
  with assms(2) show ?thesis by (simp add: Unsubscribe_validate_value_def)
qed

lemma Unsubscribe_write_sync_emits:
  assumes "crates_ok d" "unsubscribe_ok d b"
  shows "emits (Unsubscribe_write_sync d b) (length (unsubscribe_packet d b)) (unsubscribe_packet d b)"
proof -
  from assms(2) have b: "list_all topic_ok (ub_filters b)"
    "2 + length (concat (map (buff_bytes d) (ub_filters b))) \<le> max_remaining"
    by (simp_all add: unsubscribe_ok_def)
  show ?thesis
    unfolding Unsubscribe_write_sync_def Unsubscribe_encode_len_eq [OF assms]
      Unsubscribe_validate_value_ok [OF assms(1) b(1)] w_then_lift_Ok unsubscribe_packet_def
    by (rule filters_write_emits [OF assms(1) b(2)])
      (use b(1) assms(1) in \<open>auto simp: list_all_iff topic_ok_def intro!: MqttStr_write_sync_emits\<close>)
qed

lemma Unsubscribe_parse_packet [parse_simp]:
  assumes "crates_ok d" "unsubscribe_ok d b"
  shows "Unsubscribe_parse d (unsubscribe_packet d b @ rest) =
    Some (Ok (\<lparr>unsubscribe_pkid = \<lparr>pkid = ub_pkid b\<rparr>,
               unsubscribe_filters = concat (map (buff_bytes d) (ub_filters b))\<rparr>, rest))"
  using assms unsub_filter.filters_decode_enc [OF assms(1), of "ub_pkid b" "ub_filters b"]
  by (simp add: Unsubscribe_parse_eq unsubscribe_ok_def unsubscribe_packet_def)

lemma Unsubscribe_filters_decodes:
  assumes "crates_ok d" "length (unsubscribe_filters p) \<le> usize_max"
    and "decodes (MqttStr_parse d) (unsubscribe_filters p) xs"
  shows "Unsubscribe_filters d p = Some (Ok xs)"
proof -
  have "cursor_try_fold (RawUnsubscribeCursor_read d) (\<lambda>acc x. Ok (acc @ [x])) []
      \<lparr>cur_bytes = unsubscribe_filters p, cur_pos = 0\<rparr> = Some (Ok xs)"
    unfolding RawUnsubscribeCursor_read_eq
    using decoder.cursor_try_fold_decodes [OF mqtt_str.decoder_axioms assms(1,2), of 0 xs _ "\<lambda>acc x. Ok (acc @ [x])" "[]"]
      assms(3)
    by (simp add: try_fold_collect)
  then show ?thesis
    unfolding Unsubscribe_filters_def UnsubscribeCursor_next_def [abs_def]
    by (rule cursor_try_fold_expect)
qed

lemma topic_checks:
  "try_fold (\<lambda>_. topic_check d) () xs = Ok () \<longleftrightarrow>
   list_all (\<lambda>x. has_valid_wildcard d (MqttStr_as_str x)) xs"
  by (induction xs) (auto simp: topic_check_def)

lemma Unsubscribe_parse_Ok:
  assumes "crates_ok d" "Unsubscribe_parse d buf = Some (Ok (p, rest))"
  shows "filters_parse d Unsubscribe buf = Ok ((unsubscribe_pkid p, unsubscribe_filters p), rest)"
    and "\<exists>xs. decodes (MqttStr_parse d) (unsubscribe_filters p) xs \<and>
      list_all (\<lambda>x. has_valid_wildcard d (MqttStr_as_str x)) xs"
proof -
  from assms(2) have *: "filters_decode d Unsubscribe MqttStr_parse (topic_check d) buf =
      Some (Ok ((unsubscribe_pkid p, unsubscribe_filters p), rest))"
    by (auto simp: Unsubscribe_parse_eq)
  from unsub_filter.filters_decode_Ok [OF assms(1) *]
  show "filters_parse d Unsubscribe buf = Ok ((unsubscribe_pkid p, unsubscribe_filters p), rest)"
    and "\<exists>xs. decodes (MqttStr_parse d) (unsubscribe_filters p) xs \<and>
      list_all (\<lambda>x. has_valid_wildcard d (MqttStr_as_str x)) xs" by (auto simp: topic_checks)
qed

lemma Unsubscribe_parse_total:
  assumes "crates_ok d"
  shows "\<exists>r. Unsubscribe_parse d buf = Some r \<and> (r = Panic \<longrightarrow> filters_parse d Unsubscribe buf = Panic)"
  using unsub_filter.filters_decode_total [OF assms, of Unsubscribe buf]
  by (auto simp: Unsubscribe_parse_eq and_then_Panic_iff)

section \<open>Correctness\<close>

text \<open>An UNSUBSCRIBE with permitted filters is written whole, read back by the peer, and its
  iterator yields the filters of the builder in order.\<close>

lemma unsubscribe_round_trip:
  assumes "crates_ok d" "unsubscribe_ok d b"
  shows "\<exists>p. emits (Unsubscribe_write_sync d b) (length (unsubscribe_packet d b)) (unsubscribe_packet d b) \<and>
    Unsubscribe_parse d (unsubscribe_packet d b @ rest) = Some (Ok (p, rest)) \<and>
    pkid (unsubscribe_pkid p) = ub_pkid b \<and>
    Unsubscribe_filters d p = Some (Ok (map str_of (ub_filters b)))"
proof -
  let ?bs = "concat (map (buff_bytes d) (ub_filters b))"
  from assms(2) have "list_all topic_ok (ub_filters b)" "length ?bs \<le> usize_max"
    by (simp_all add: unsubscribe_ok_def usize_max_def)
  with codec.decodes_enc [OF unsub_filter.codec_axioms assms(1)] Unsubscribe_filters_decodes [OF assms(1)]
  have "Unsubscribe_filters d \<lparr>unsubscribe_pkid = \<lparr>pkid = ub_pkid b\<rparr>, unsubscribe_filters = ?bs\<rparr> =
      Some (Ok (map str_of (ub_filters b)))" by simp
  with Unsubscribe_write_sync_emits [OF assms] Unsubscribe_parse_packet [OF assms] show ?thesis by simp
qed

text \<open>Parsing an UNSUBSCRIBE ends on every buffer; a packet that was parsed holds filters whose
  wildcards obey the MQTT rule, and its iterator yields them without panicking.\<close>

lemma unsubscribe_parse_sound:
  assumes "crates_ok d"
  shows "(\<exists>r. Unsubscribe_parse d buf = Some r) \<and>
    (Unsubscribe_parse d buf = Some (Ok (p, rest)) \<longrightarrow>
      (\<exists>xs. Unsubscribe_filters d p = Some (Ok xs) \<and> decodes (MqttStr_parse d) (unsubscribe_filters p) xs \<and>
        list_all (\<lambda>x. has_valid_wildcard d (MqttStr_as_str x)) xs \<and> pkid (unsubscribe_pkid p) \<noteq> 0))"
proof (intro conjI impI)
  show "\<exists>r. Unsubscribe_parse d buf = Some r" using Unsubscribe_parse_total [OF assms] by blast
  assume p: "Unsubscribe_parse d buf = Some (Ok (p, rest))"
  note ok = Unsubscribe_parse_Ok [OF assms p]
  have "length (unsubscribe_filters p) \<le> usize_max"
    using filters_parse_Ok(3) [OF assms ok(1)] by (simp add: usize_max_def)
  with Unsubscribe_filters_decodes [OF assms] ok(2) filters_parse_Ok(2) [OF assms ok(1)]
  show "\<exists>xs. Unsubscribe_filters d p = Some (Ok xs) \<and> decodes (MqttStr_parse d) (unsubscribe_filters p) xs \<and>
      list_all (\<lambda>x. has_valid_wildcard d (MqttStr_as_str x)) xs \<and> pkid (unsubscribe_pkid p) \<noteq> 0" by blast
qed

end
