(* ===== verification/Connect_Packet.thy ===== *)
theory Connect_Packet
  imports Fixed_Header Mqtt_String
begin

unbundle bit_operations_syntax

text \<open>
  The CONNECT packet (\<open>src/v3/packets/connect/mod.rs\<close>), its builder (\<open>builder.rs\<close>) and the
  quality of service of a will (\<open>src/v3/packets/mod.rs\<close>). A \<open>Duration\<close> is a number of
  nanoseconds.
\<close>

section \<open>Quality of service\<close>

datatype Qos = AtMostOnce | AtLeastOnce | ExactlyOnce

primrec u8_from_Qos :: "Qos \<Rightarrow> u8" where
  "u8_from_Qos AtMostOnce = 0"
| "u8_from_Qos AtLeastOnce = 1"
| "u8_from_Qos ExactlyOnce = 2"

definition Qos_try_from :: "u8 \<Rightarrow> (Qos, u8) result" where
  "Qos_try_from value =
     (if value = 0 then Ok AtMostOnce
      else if value = 1 then Ok AtLeastOnce
      else if value = 2 then Ok ExactlyOnce
      else Err value)"

section \<open>Flags and keep alive\<close>

type_synonym ConnectFlags = u8

definition CONNECT_USERNAME :: ConnectFlags where "CONNECT_USERNAME = 0b10000000"
definition CONNECT_PASSWORD :: ConnectFlags where "CONNECT_PASSWORD = 0b01000000"
definition WILL_RETAIN :: ConnectFlags where "WILL_RETAIN = 0b00100000"
definition WILL_QOS_1 :: ConnectFlags where "WILL_QOS_1 = 0b00001000"
definition WILL_QOS_2 :: ConnectFlags where "WILL_QOS_2 = 0b00010000"
definition WILL_QOS_RESET :: ConnectFlags where "WILL_QOS_RESET = 0b11100111"
definition WILL_FLAG :: ConnectFlags where "WILL_FLAG = 0b00000100"
definition CLEAN_SESSION :: ConnectFlags where "CLEAN_SESSION = 0b00000010"
definition CONNECT_RESERVED :: ConnectFlags where "CONNECT_RESERVED = 0b00000001"
definition ConnectFlags_empty :: ConnectFlags where "ConnectFlags_empty = 0"

type_synonym Duration = nat

definition nanos_per_sec :: nat where "nanos_per_sec = 1000000000"

record KeepAlive =
  seconds :: u16

definition KeepAlive_is_enabled :: "KeepAlive \<Rightarrow> bool" where
  "KeepAlive_is_enabled this \<longleftrightarrow> seconds this \<noteq> 0"

definition KeepAlive_read :: "KeepAlive \<Rightarrow> Duration" where
  "KeepAlive_read this = unat (seconds this) * nanos_per_sec"

definition u16_to_be_bytes :: "u16 \<Rightarrow> bytes" where
  "u16_to_be_bytes v = [word_of_nat (unat v div 256), word_of_nat (unat v mod 256)]"

definition KeepAlive_from :: "crates \<Rightarrow> u16 \<Rightarrow> KeepAlive" where
  "KeepAlive_from d value = \<lparr>seconds = zc_u16_get d (u16_to_be_bytes value)\<rparr>"

datatype TryFromIntError = TryFromIntError

definition KeepAlive_try_from :: "crates \<Rightarrow> Duration \<Rightarrow> (KeepAlive, TryFromIntError) result" where
  "KeepAlive_try_from d value =
     (let secs = value div nanos_per_sec in
      if secs < 2 ^ 16 then Ok (KeepAlive_from d (word_of_nat secs)) else Err TryFromIntError)"

definition KeepAlive_default :: KeepAlive where
  "KeepAlive_default = \<lparr>seconds = 60\<rparr>"

section \<open>The builder\<close>

record Will =
  will_topic :: bytes
  will_message :: bytes

record ConnectBuilder =
  cb_client_id :: bytes
  cb_flags :: ConnectFlags
  cb_keepalive :: KeepAlive
  cb_will :: "Will option"
  cb_username :: "bytes option"
  cb_password :: "bytes option"

definition ClientId_validate_value :: "bytes \<Rightarrow> unit res" where
  "ClientId_validate_value value = Ok ()"

definition ConnectBuilder_new_unchecked :: "bytes \<Rightarrow> ConnectBuilder" where
  "ConnectBuilder_new_unchecked client_id =
     \<lparr>cb_client_id = client_id, cb_flags = ConnectFlags_empty, cb_keepalive = KeepAlive_default,
      cb_will = None, cb_username = None, cb_password = None\<rparr>"

definition ConnectBuilder_create :: "bytes \<Rightarrow> ConnectBuilder res" where
  "ConnectBuilder_create client_id =
     and_then (ClientId_validate_value client_id) (\<lambda>_.
     Ok \<lparr>cb_client_id = client_id, cb_flags = ConnectFlags_empty, cb_keepalive = KeepAlive_default,
         cb_will = None, cb_username = None, cb_password = None\<rparr>)"

definition ConnectBuilder_clean_session :: "crates \<Rightarrow> ConnectBuilder \<Rightarrow> ConnectBuilder" where
  "ConnectBuilder_clean_session d this = this\<lparr>cb_flags := bf_bitor d (cb_flags this) CLEAN_SESSION\<rparr>"

definition ConnectBuilder_with_empty_client_id :: "crates \<Rightarrow> ConnectBuilder" where
  "ConnectBuilder_with_empty_client_id d =
     (let this = \<lparr>cb_client_id = [], cb_flags = ConnectFlags_empty, cb_keepalive = KeepAlive_default,
                  cb_will = None, cb_username = None, cb_password = None\<rparr>
      in ConnectBuilder_clean_session d this)"

definition ConnectBuilder_keepalive :: "KeepAlive \<Rightarrow> ConnectBuilder \<Rightarrow> ConnectBuilder" where
  "ConnectBuilder_keepalive keepalive this = this\<lparr>cb_keepalive := keepalive\<rparr>"

definition ConnectBuilder_will ::
    "crates \<Rightarrow> bytes \<Rightarrow> bytes \<Rightarrow> Qos \<Rightarrow> bool \<Rightarrow> ConnectBuilder \<Rightarrow> ConnectBuilder" where
  "ConnectBuilder_will d topic message qos retain this0 =
     (let this = this0\<lparr>cb_will := Some \<lparr>will_topic = topic, will_message = message\<rparr>\<rparr>;
          this = this\<lparr>cb_flags := bf_bitor d (cb_flags this) WILL_FLAG\<rparr>;
          this = this\<lparr>cb_flags := bf_bitand d (cb_flags this) WILL_QOS_RESET\<rparr>;
          this = (case qos of
                    AtMostOnce \<Rightarrow> this
                  | AtLeastOnce \<Rightarrow> this\<lparr>cb_flags := bf_bitor d (cb_flags this) WILL_QOS_1\<rparr>
                  | ExactlyOnce \<Rightarrow> this\<lparr>cb_flags := bf_bitor d (cb_flags this) WILL_QOS_2\<rparr>)
      in if retain then this\<lparr>cb_flags := bf_bitor d (cb_flags this) WILL_RETAIN\<rparr> else this)"

definition ConnectBuilder_username :: "crates \<Rightarrow> bytes \<Rightarrow> ConnectBuilder \<Rightarrow> ConnectBuilder" where
  "ConnectBuilder_username d username this =
     this\<lparr>cb_flags := bf_bitor d (cb_flags this) CONNECT_USERNAME, cb_username := Some username\<rparr>"

definition ConnectBuilder_username_password ::
    "crates \<Rightarrow> bytes \<Rightarrow> bytes \<Rightarrow> ConnectBuilder \<Rightarrow> ConnectBuilder" where
  "ConnectBuilder_username_password d username password this =
     this\<lparr>cb_flags := bf_bitor d (cb_flags this) (bf_bitor d CONNECT_USERNAME CONNECT_PASSWORD),
          cb_username := Some username, cb_password := Some password\<rparr>"

section \<open>The variable header\<close>

record ConnectHeader =
  protocol_name :: bytes
  protocol_level :: u8
  ch_flags :: ConnectFlags
  keep_alive :: KeepAlive

definition PROTOCOL_NAME :: bytes where
  "PROTOCOL_NAME = [0x0, 0x4, 0x4D, 0x51, 0x54, 0x54]"

definition PROTOCOL_LEVEL_V3_1_1 :: u8 where
  "PROTOCOL_LEVEL_V3_1_1 = 0x4"

definition ConnectHeader_validate_value :: "crates \<Rightarrow> ConnectBuilder \<Rightarrow> ConnectHeader res" where
  "ConnectHeader_validate_value d value =
     (if bf_contains d (cb_flags value) CONNECT_RESERVED
      then Err (Error_new Invalid ''CONNECT variable header'')
      else Ok \<lparr>protocol_name = PROTOCOL_NAME, protocol_level = PROTOCOL_LEVEL_V3_1_1,
              ch_flags = cb_flags value, keep_alive = cb_keepalive value\<rparr>)"

definition ConnectHeader_validate :: "crates \<Rightarrow> ConnectHeader \<Rightarrow> unit res" where
  "ConnectHeader_validate d this =
     (let is_valid = protocol_name this = PROTOCOL_NAME \<and>
                     protocol_level this = PROTOCOL_LEVEL_V3_1_1 \<and>
                     \<not> bf_contains d (ch_flags this) CONNECT_RESERVED
      in if \<not> is_valid then Err (Error_new Invalid ''CONNECT variable header'') else Ok ())"

definition ConnectHeader_encode_len :: "ConnectBuilder \<Rightarrow> usize res" where
  "ConnectHeader_encode_len value = Ok 10"

definition ConnectHeader_as_bytes :: "crates \<Rightarrow> ConnectHeader \<Rightarrow> bytes" where
  "ConnectHeader_as_bytes d this =
     protocol_name this @ [protocol_level this, ch_flags this] @
     zc_u16_as_bytes d (seconds (keep_alive this))"

definition ConnectHeader_write_sync :: "crates \<Rightarrow> ConnectBuilder \<Rightarrow> usize wr" where
  "ConnectHeader_write_sync d value =
     w_then (w_lift (ConnectHeader_validate_value d value)) (\<lambda>this.
     w_then (write_all ''writing CONNECT header'' (ConnectHeader_as_bytes d this)) (\<lambda>_.
     w_lift (Ok 10)))"

definition ConnectHeader_parse :: "crates \<Rightarrow> bytes \<Rightarrow> (ConnectHeader \<times> bytes) res" where
  "ConnectHeader_parse d buf =
     and_then (ok_or (Error_new NotEnoughSpace ''connect header'') (zc_ref_from_prefix d 10 buf))
       (\<lambda>(bs, rest).
     let this = \<lparr>protocol_name = take 6 bs, protocol_level = bs ! 6, ch_flags = bs ! 7,
                 keep_alive = \<lparr>seconds = zc_u16_get d (drop 8 bs)\<rparr>\<rparr> in
     and_then (ConnectHeader_validate d this) (\<lambda>_.
     Ok (this, rest)))"

section \<open>The will and the client identifier\<close>

record WillMsg =
  wm_topic :: MqttStr
  wm_message :: Buff

definition WillMsg_validate_value :: "Will \<Rightarrow> unit res" where
  "WillMsg_validate_value value =
     and_then (MqttStr_validate_value (will_topic value)) (\<lambda>_.
     and_then (Buff_validate_value (will_message value)) (\<lambda>_.
     Ok ()))"

definition WillMsg_validate :: "WillMsg \<Rightarrow> unit res" where
  "WillMsg_validate this = Ok ()"

definition WillMsg_encode_len :: "crates \<Rightarrow> Will \<Rightarrow> usize res" where
  "WillMsg_encode_len d value =
     and_then (MqttStr_encode_len (will_topic value)) (\<lambda>topic.
     and_then (Buff_encode_len (will_message value)) (\<lambda>message.
     usize_add (debug_assertions d) topic message))"

definition WillMsg_write_sync :: "crates \<Rightarrow> Will \<Rightarrow> usize wr" where
  "WillMsg_write_sync d value =
     w_then (MqttStr_write_sync d (will_topic value)) (\<lambda>topic.
     w_then (Buff_write_sync d (will_message value)) (\<lambda>msg.
     w_lift (usize_add (debug_assertions d) topic msg)))"

definition WillMsg_parse :: "crates \<Rightarrow> bytes \<Rightarrow> (WillMsg \<times> bytes) res" where
  "WillMsg_parse d buf =
     and_then (MqttStr_parse d buf) (\<lambda>(topic, rest).
     and_then (Buff_parse d rest) (\<lambda>(message, rest).
     let this = \<lparr>wm_topic = topic, wm_message = message\<rparr> in
     and_then (WillMsg_validate this) (\<lambda>_.
     Ok (this, rest))))"

definition is_ascii_alphanumeric :: "u32 \<Rightarrow> bool" where
  "is_ascii_alphanumeric c \<longleftrightarrow>
     (0x30 \<le> c \<and> c \<le> 0x39) \<or> (0x41 \<le> c \<and> c \<le> 0x5A) \<or> (0x61 \<le> c \<and> c \<le> 0x7A)"

definition ClientId_validate :: "MqttStr \<Rightarrow> unit res" where
  "ClientId_validate this =
     (if \<not> (1 \<le> MqttStr_get_len this \<and> MqttStr_get_len this \<le> 23)
      then Err (Error_new OutOfRange ''client id must be between 1 and 23 bytes long'')
      else let is_ascii = list_all is_ascii_alphanumeric (str_chars (MqttStr_as_str this))
           in if \<not> is_ascii then Err (Error_new Invalid ''client id is not ascii alphanumeric'')
              else Ok ())"

definition ClientId_encode_len :: "bytes \<Rightarrow> usize res" where
  "ClientId_encode_len value = MqttStr_encode_len value"

definition ClientId_write_sync :: "crates \<Rightarrow> bytes \<Rightarrow> usize wr" where
  "ClientId_write_sync d value =
     w_then (w_lift (ClientId_validate_value value)) (\<lambda>_. MqttStr_write_sync d value)"

definition ClientId_parse :: "crates \<Rightarrow> bytes \<Rightarrow> (MqttStr \<times> bytes) res" where
  "ClientId_parse d buf =
     and_then (MqttStr_parse d buf) (\<lambda>(str, rest).
     and_then (ClientId_validate str) (\<lambda>_.
     Ok (str, rest)))"

section \<open>The packet\<close>

record Connect =
  connect_fixed :: FixedHeader
  connect_header :: ConnectHeader
  connect_client_id :: MqttStr
  connect_will :: "WillMsg option"
  connect_username :: "MqttStr option"
  connect_password :: "Buff option"

text \<open>The pattern \<open>if let Some(x) = o { check(x)? }\<close>.\<close>

definition if_some :: "'a option \<Rightarrow> ('a \<Rightarrow> 'b res) \<Rightarrow> unit res" where
  "if_some m check = (case m of None \<Rightarrow> Ok () | Some x \<Rightarrow> and_then (check x) (\<lambda>_. Ok ()))"

definition Connect_validate_value :: "crates \<Rightarrow> ConnectBuilder \<Rightarrow> unit res" where
  "Connect_validate_value d value =
     and_then (ConnectHeader_validate_value d value) (\<lambda>_.
     and_then (ClientId_validate_value (cb_client_id value)) (\<lambda>_.
     and_then (if_some (cb_will value) WillMsg_validate_value) (\<lambda>_.
     and_then (if_some (cb_username value) MqttStr_validate_value) (\<lambda>_.
     and_then (if_some (cb_password value) Buff_validate_value) (\<lambda>_.
     Ok ())))))"

definition Connect_validate :: "crates \<Rightarrow> Connect \<Rightarrow> unit res" where
  "Connect_validate d this =
     and_then (FixedHeader_packet_type (connect_fixed this)) (\<lambda>t.
     if t \<noteq> Connect then Err (Error_new Invalid ''controll packet type'')
     else
       and_then (ConnectHeader_validate d (connect_header this)) (\<lambda>_.
       and_then (ClientId_validate (connect_client_id this)) (\<lambda>_.
       and_then (if_some (connect_will this) WillMsg_validate) (\<lambda>_.
       and_then (if_some (connect_username this) (MqttStr_validate d)) (\<lambda>_.
       and_then (if_some (connect_password this) (Buff_validate d)) (\<lambda>_.
       Ok ()))))))"

text \<open>The running length is an \<open>Option\<close>, \<open>None\<close> once an addition overflowed.\<close>

definition Connect_encode_len :: "crates \<Rightarrow> ConnectBuilder \<Rightarrow> usize res" where
  "Connect_encode_len d value =
     and_then (ConnectHeader_encode_len value) (\<lambda>h.
     and_then (ClientId_encode_len (cb_client_id value)) (\<lambda>c.
     let len = checked_add h c in
     and_then (case cb_will value of
         None \<Rightarrow> Ok len
       | Some will \<Rightarrow> and_then (WillMsg_encode_len d will) (\<lambda>l.
           Ok (Option.bind len (\<lambda>v. checked_add v l)))) (\<lambda>len.
     and_then (case cb_username value of
         None \<Rightarrow> Ok len
       | Some username \<Rightarrow> and_then (MqttStr_encode_len username) (\<lambda>l.
           Ok (Option.bind len (\<lambda>v. checked_add v l)))) (\<lambda>len.
     and_then (case cb_password value of
         None \<Rightarrow> Ok len
       | Some password \<Rightarrow> and_then (Buff_encode_len password) (\<lambda>l.
           Ok (Option.bind len (\<lambda>v. checked_add v l)))) (\<lambda>len.
     ok_or (Error_new Overflow ''CONNECT encode len'') len)))))"

definition Connect_write_sync :: "crates \<Rightarrow> ConnectBuilder \<Rightarrow> usize wr" where
  "Connect_write_sync d value =
     w_then (w_lift (Connect_encode_len d value)) (\<lambda>rlen.
     w_then (w_lift (FixedHeaderBuilder_remaining_length (FixedHeaderBuilder_new Connect) rlen)) (\<lambda>b.
     w_then (FixedHeaderBuilder_write_sync d b) (\<lambda>written.
     w_then (ConnectHeader_write_sync d value) (\<lambda>n.
     w_then (w_lift (usize_add (debug_assertions d) written n)) (\<lambda>written.
     w_then (ClientId_write_sync d (cb_client_id value)) (\<lambda>n.
     w_then (w_lift (usize_add (debug_assertions d) written n)) (\<lambda>written.
     w_then (case cb_will value of
         None \<Rightarrow> w_lift (Ok written)
       | Some will \<Rightarrow> w_then (WillMsg_write_sync d will) (\<lambda>n.
           w_lift (usize_add (debug_assertions d) written n))) (\<lambda>written.
     w_then (case cb_username value of
         None \<Rightarrow> w_lift (Ok written)
       | Some username \<Rightarrow> w_then (MqttStr_write_sync d username) (\<lambda>n.
           w_lift (usize_add (debug_assertions d) written n))) (\<lambda>written.
     w_then (case cb_password value of
         None \<Rightarrow> w_lift (Ok written)
       | Some password \<Rightarrow> w_then (Buff_write_sync d password) (\<lambda>n.
           w_lift (usize_add (debug_assertions d) written n))) (\<lambda>written.
     w_lift (Ok written)))))))))))"

definition Connect_parse :: "crates \<Rightarrow> bytes \<Rightarrow> (Connect \<times> bytes) res" where
  "Connect_parse d buf =
     and_then (FixedHeaderSlice_parse d buf) (\<lambda>(fixed, rest).
     debug_assert (debug_assertions d) (FixedHeader_packet_type fixed = Ok Connect) (
     and_then (ConnectHeader_parse d rest) (\<lambda>(header, rest).
     and_then (ClientId_parse d rest) (\<lambda>(client_id, rest).
     and_then (if bf_contains d (ch_flags header) WILL_FLAG
               then and_then (WillMsg_parse d rest) (\<lambda>(v, r). Ok (Some v, r))
               else Ok (None, rest)) (\<lambda>(will, rest).
     and_then (if bf_contains d (ch_flags header) CONNECT_USERNAME
               then and_then (MqttStr_parse d rest) (\<lambda>(u, r). Ok (Some u, r))
               else Ok (None, rest)) (\<lambda>(username, rest).
     and_then (if bf_contains d (ch_flags header) CONNECT_PASSWORD
               then and_then (Buff_parse d rest) (\<lambda>(u, r). Ok (Some u, r))
               else Ok (None, rest)) (\<lambda>(password, rest).
     let this = \<lparr>connect_fixed = fixed, connect_header = header, connect_client_id = client_id,
                 connect_will = will, connect_username = username, connect_password = password\<rparr> in
     and_then (Connect_validate d this) (\<lambda>_.
     Ok (this, rest)))))))))"

section \<open>Encoding the parts\<close>

definition will_bytes :: "crates \<Rightarrow> Will \<Rightarrow> bytes" where
  "will_bytes d w = buff_bytes d (will_topic w) @ buff_bytes d (will_message w)"

definition will_ok :: "Will \<Rightarrow> bool" where
  "will_ok w \<longleftrightarrow>
     mqtt_str_ok (will_topic w) \<and> length (will_topic w) \<le> 65535 \<and> length (will_message w) \<le> 65535"

definition will_of :: "Will \<Rightarrow> WillMsg" where
  "will_of w = \<lparr>wm_topic = str_of (will_topic w), wm_message = buff_of (will_message w)\<rparr>"

definition header_of_builder :: "ConnectBuilder \<Rightarrow> ConnectHeader" where
  "header_of_builder b =
     \<lparr>protocol_name = PROTOCOL_NAME, protocol_level = PROTOCOL_LEVEL_V3_1_1,
      ch_flags = cb_flags b, keep_alive = cb_keepalive b\<rparr>"

lemma KeepAlive_from_id [simp]: "crates_ok d \<Longrightarrow> KeepAlive_from d v = \<lparr>seconds = v\<rparr>"
proof -
  assume "crates_ok d"
  then have "zc_u16_get d (u16_to_be_bytes v) =
      word_of_nat (256 * unat (word_of_nat (unat v div 256) :: u8) + unat (word_of_nat (unat v mod 256) :: u8))"
    by (simp add: u16_to_be_bytes_def zerocopy_laws)
  also have "\<dots> = v"
  proof -
    have "unat v < 65536" using unsigned_less [of v] by simp
    then have "unat v div 256 < 256" by (simp add: less_mult_imp_div_less)
    then show ?thesis by (simp add: unat_of_nat)
  qed
  finally show ?thesis by (simp add: KeepAlive_from_def)
qed

lemma length_will_bytes [simp]:
  "crates_ok d \<Longrightarrow> length (will_bytes d w) = 4 + length (will_topic w) + length (will_message w)"
  by (simp add: will_bytes_def)

lemma length_PROTOCOL_NAME [simp]: "length PROTOCOL_NAME = 6"
  by (simp add: PROTOCOL_NAME_def)

lemma length_header_of_builder [simp]:
  "crates_ok d \<Longrightarrow> length (ConnectHeader_as_bytes d (header_of_builder b)) = 10"
  by (simp add: ConnectHeader_as_bytes_def header_of_builder_def)

lemma WillMsg_encode_len_eq:
  assumes "crates_ok d" "will_ok w"
  shows "WillMsg_encode_len d w = Ok (length (will_bytes d w))"
  using assms
  by (simp add: WillMsg_encode_len_def MqttStr_encode_len_def Buff_encode_len_def checked_add_def
      usize_max_def usize_add_def will_ok_def)

lemma WillMsg_write_sync_emits:
  assumes "crates_ok d" "will_ok w"
  shows "emits (WillMsg_write_sync d w) (length (will_bytes d w)) (will_bytes d w)"
proof -
  from assms(2) have w: "mqtt_str_ok (will_topic w)" "length (will_topic w) \<le> 65535"
    "length (will_message w) \<le> 65535" by (simp_all add: will_ok_def)
  have "2 + length (will_topic w) + (2 + length (will_message w)) \<le> usize_max"
    using w by (simp add: usize_max_def)
  then have "emits (w_then (Buff_write_sync d (will_message w)) (\<lambda>msg.
      w_lift (usize_add (debug_assertions d) (2 + length (will_topic w)) msg)))
      (2 + length (will_topic w) + (2 + length (will_message w))) (buff_bytes d (will_message w))"
    by (intro emits_count Buff_write_sync_emits w(3) refl)
  moreover have "length (will_bytes d w) = 2 + length (will_topic w) + (2 + length (will_message w))"
    using assms(1) by simp
  ultimately show ?thesis
    unfolding WillMsg_write_sync_def
    by (auto simp: will_bytes_def intro!: emits_then [OF MqttStr_write_sync_emits [OF w(1,2) refl]])
qed

lemma WillMsg_parse_iff:
  assumes "crates_ok d"
  shows "WillMsg_parse d buf = Ok (m, rest) \<longleftrightarrow>
    (\<exists>r. MqttStr_parse d buf = Ok (wm_topic m, r) \<and> Buff_parse d r = Ok (wm_message m, rest))"
  by (cases m) (auto simp: WillMsg_parse_def WillMsg_validate_def)

lemma WillMsg_parse_no_Panic: "crates_ok d \<Longrightarrow> WillMsg_parse d buf \<noteq> Panic"
  by (auto simp: WillMsg_parse_def and_then_Panic_iff Let_def WillMsg_validate_def
      MqttStr_parse_no_Panic Buff_parse_no_Panic)

interpretation will_msg: codec crates_ok WillMsg_parse will_ok will_bytes will_of
proof unfold_locales
  show "\<exists>pre. pre \<noteq> [] \<and> buf = pre @ rest"
    if d: "crates_ok d" and "WillMsg_parse d buf = Ok (x, rest)" for d buf x rest
  proof -
    from that obtain r where "MqttStr_parse d buf = Ok (wm_topic x, r)" "Buff_parse d r = Ok (wm_message x, rest)"
      by (auto simp: WillMsg_parse_iff)
    with mqtt_str.parse_front [OF d] buff.parse_front [OF d] show ?thesis
      by (metis append.assoc append_is_Nil_conv)
  qed
  show "WillMsg_parse d (will_bytes d v @ rest) = Ok (will_of v, rest)"
    if "crates_ok d" "will_ok v" for d v rest
    using that by (auto simp: WillMsg_parse_iff will_ok_def will_bytes_def will_of_def
        MqttStr_parse_bytes Buff_parse_bytes)
qed

definition client_id_ok :: "bytes \<Rightarrow> bool" where
  "client_id_ok s \<longleftrightarrow>
     mqtt_str_ok s \<and> 1 \<le> length s \<and> length s \<le> 23 \<and> list_all is_ascii_alphanumeric (str_chars s)"

lemma ClientId_validate_iff:
  "ClientId_validate m = Ok () \<longleftrightarrow>
     1 \<le> length (str_data m) \<and> length (str_data m) \<le> 23 \<and>
     list_all is_ascii_alphanumeric (str_chars (str_data m))"
  by (auto simp: ClientId_validate_def MqttStr_get_len_def MqttStr_as_str_def Let_def)

lemma ClientId_parse_iff:
  "ClientId_parse d buf = Ok (m, rest) \<longleftrightarrow>
     MqttStr_parse d buf = Ok (m, rest) \<and> ClientId_validate m = Ok ()"
  by (auto simp: ClientId_parse_def)

lemma ClientId_parse_no_Panic: "crates_ok d \<Longrightarrow> ClientId_parse d buf \<noteq> Panic"
  by (auto simp: ClientId_parse_def and_then_Panic_iff MqttStr_parse_no_Panic ClientId_validate_def
      Let_def split: if_splits)

interpretation client_id: codec crates_ok ClientId_parse client_id_ok buff_bytes str_of
proof unfold_locales
  show "\<exists>pre. pre \<noteq> [] \<and> buf = pre @ rest"
    if "crates_ok d" "ClientId_parse d buf = Ok (x, rest)" for d buf x rest
    using that mqtt_str.parse_front [OF that(1)] by (simp add: ClientId_parse_iff)
qed (auto simp: ClientId_parse_iff ClientId_validate_iff client_id_ok_def MqttStr_parse_bytes)

section \<open>The variable header: round trip\<close>

definition connect_header_ok :: "ConnectHeader \<Rightarrow> bool" where
  "connect_header_ok h \<longleftrightarrow>
     protocol_name h = PROTOCOL_NAME \<and> protocol_level h = PROTOCOL_LEVEL_V3_1_1 \<and>
     ch_flags h AND 1 = 0"

lemma low_bit_cases: "(f :: u8) AND 1 = 1 \<longleftrightarrow> f AND 1 \<noteq> 0"
  by (simp add: and_one_eq)

lemma ConnectHeader_validate_iff:
  "crates_ok d \<Longrightarrow> ConnectHeader_validate d h = Ok () \<longleftrightarrow> connect_header_ok h"
  by (auto simp: ConnectHeader_validate_def connect_header_ok_def bitflags_laws CONNECT_RESERVED_def
      Let_def low_bit_cases)

lemma header_layout:
  assumes "length (bs :: bytes) = 10"
  shows "\<exists>hi lo. drop 8 bs = [hi, lo] \<and> bs = take 6 bs @ [bs ! 6, bs ! 7, hi, lo]"
proof -
  have step: "drop n bs = bs ! n # drop (Suc n) bs" if "n < 10" for n
    using that assms by (simp add: Cons_nth_drop_Suc)
  have hl: "drop 8 bs = [bs ! 8, bs ! 9]"
    using step [of 8] step [of 9] assms by (simp add: numeral_eq_Suc)
  have "drop 6 bs = bs ! 6 # bs ! 7 # drop 8 bs"
    using step [of 6] step [of 7] by (simp add: numeral_eq_Suc)
  then have "bs = take 6 bs @ [bs ! 6, bs ! 7, bs ! 8, bs ! 9]"
    using hl by (metis append_take_drop_id)
  with hl show ?thesis by blast
qed

lemma ConnectHeader_parse_iff:
  assumes "crates_ok d"
  shows "ConnectHeader_parse d buf = Ok (h, rest) \<longleftrightarrow>
    connect_header_ok h \<and> buf = ConnectHeader_as_bytes d h @ rest" (is "?L \<longleftrightarrow> ?R")
proof
  assume ?L
  define bs where "bs = take 10 buf"
  from \<open>?L\<close> assms have "10 \<le> length buf" and rest: "rest = drop 10 buf"
    and h: "h = \<lparr>protocol_name = take 6 bs, protocol_level = bs ! 6, ch_flags = bs ! 7,
                 keep_alive = \<lparr>seconds = zc_u16_get d (drop 8 bs)\<rparr>\<rparr>"
    and v: "ConnectHeader_validate d h = Ok ()"
    by (auto simp: ConnectHeader_parse_def zerocopy_laws(1) Let_def bs_def split: if_splits)
  then have l: "length bs = 10" by (simp add: bs_def)
  from header_layout [OF l] obtain hi lo where
    lay: "drop 8 bs = [hi, lo]" "bs = take 6 bs @ [bs ! 6, bs ! 7, hi, lo]" by blast
  have "ConnectHeader_as_bytes d h = take 6 bs @ [bs ! 6, bs ! 7, hi, lo]"
    using assms by (simp add: ConnectHeader_as_bytes_def h lay(1) u16_as_bytes_get)
  also have "\<dots> = bs" by (rule lay(2) [symmetric])
  finally have "buf = ConnectHeader_as_bytes d h @ rest" by (simp add: rest bs_def)
  with v assms show ?R by (simp add: ConnectHeader_validate_iff)
next
  assume R: ?R
  let ?bs = "ConnectHeader_as_bytes d h"
  have l: "length (protocol_name h) = 6" using R by (simp add: connect_header_ok_def)
  have bs: "length ?bs = 10" "take 6 ?bs = protocol_name h" "?bs ! 6 = protocol_level h" "?bs ! 7 = ch_flags h"
    "zc_u16_get d (drop 8 ?bs) = seconds (keep_alive h)"
    using assms l u16_round_trip [OF assms] by (simp_all add: ConnectHeader_as_bytes_def nth_append)
  have "zc_ref_from_prefix d 10 buf = Some (?bs, rest)"
    using R bs(1) assms by (simp add: zerocopy_laws(1))
  moreover have "ConnectHeader_validate d h = Ok ()" using R assms by (simp add: ConnectHeader_validate_iff)
  moreover have "h = \<lparr>protocol_name = take 6 ?bs, protocol_level = ?bs ! 6, ch_flags = ?bs ! 7,
                 keep_alive = \<lparr>seconds = zc_u16_get d (drop 8 ?bs)\<rparr>\<rparr>"
    using bs by (cases h; cases "keep_alive h") simp
  ultimately show ?L by (simp add: ConnectHeader_parse_def Let_def)
qed

lemma ConnectHeader_parse_no_Panic: "crates_ok d \<Longrightarrow> ConnectHeader_parse d buf \<noteq> Panic"
  by (auto simp: ConnectHeader_parse_def and_then_Panic_iff Let_def ConnectHeader_validate_def
      split: if_splits)

interpretation connect_header: codec crates_ok ConnectHeader_parse connect_header_ok
  ConnectHeader_as_bytes "\<lambda>h. h"
proof unfold_locales
  show "\<exists>pre. pre \<noteq> [] \<and> buf = pre @ rest"
    if "crates_ok d" "ConnectHeader_parse d buf = Ok (x, rest)" for d buf x rest
    using that by (intro exI [of _ "ConnectHeader_as_bytes d x"])
      (simp add: ConnectHeader_parse_iff ConnectHeader_as_bytes_def)
qed (simp add: ConnectHeader_parse_iff)

lemma ConnectHeader_write_sync_emits:
  assumes "crates_ok d" "cb_flags b AND 1 = 0"
  shows "emits (ConnectHeader_write_sync d b) 10 (ConnectHeader_as_bytes d (header_of_builder b))"
proof -
  have "ConnectHeader_validate_value d b = Ok (header_of_builder b)"
    using assms by (simp add: ConnectHeader_validate_value_def bitflags_laws CONNECT_RESERVED_def
        header_of_builder_def)
  then show ?thesis unfolding ConnectHeader_write_sync_def by (auto intro!: emit_intro)
qed

section \<open>Encoding the packet\<close>

definition connect_payload :: "crates \<Rightarrow> ConnectBuilder \<Rightarrow> bytes" where
  "connect_payload d b =
     opt_bytes (will_bytes d) (cb_will b) @ opt_bytes (buff_bytes d) (cb_username b) @
     opt_bytes (buff_bytes d) (cb_password b)"

definition connect_body :: "crates \<Rightarrow> ConnectBuilder \<Rightarrow> bytes" where
  "connect_body d b =
     ConnectHeader_as_bytes d (header_of_builder b) @ buff_bytes d (cb_client_id b) @
     connect_payload d b"

definition connect_packet :: "crates \<Rightarrow> ConnectBuilder \<Rightarrow> bytes" where
  "connect_packet d b =
     frame_header Connect (default_flags Connect) (length (connect_body d b)) @ connect_body d b"

text \<open>What the writer accepts, and what the flags must say for the peer to read it back.\<close>

definition connect_sendable :: "crates \<Rightarrow> ConnectBuilder \<Rightarrow> bool" where
  "connect_sendable d b \<longleftrightarrow>
     cb_flags b AND CONNECT_RESERVED = 0 \<and>
     mqtt_str_ok (cb_client_id b) \<and> length (cb_client_id b) \<le> 65535 \<and>
     pred_option will_ok (cb_will b) \<and>
     pred_option (\<lambda>u. mqtt_str_ok u \<and> length u \<le> 65535) (cb_username b) \<and>
     pred_option (\<lambda>p. length p \<le> 65535) (cb_password b)"

definition connect_flags_ok :: "ConnectBuilder \<Rightarrow> bool" where
  "connect_flags_ok b \<longleftrightarrow>
     (cb_flags b AND WILL_FLAG = WILL_FLAG \<longleftrightarrow> cb_will b \<noteq> None) \<and>
     (cb_flags b AND CONNECT_USERNAME = CONNECT_USERNAME \<longleftrightarrow> cb_username b \<noteq> None) \<and>
     (cb_flags b AND CONNECT_PASSWORD = CONNECT_PASSWORD \<longleftrightarrow> cb_password b \<noteq> None) \<and>
     cb_flags b AND CONNECT_RESERVED = 0"

definition connect_of :: "crates \<Rightarrow> ConnectBuilder \<Rightarrow> Connect" where
  "connect_of d b =
     \<lparr>connect_fixed = header_of Connect (default_flags Connect) (length (connect_body d b)),
      connect_header = header_of_builder b, connect_client_id = str_of (cb_client_id b),
      connect_will = map_option will_of (cb_will b),
      connect_username = map_option str_of (cb_username b),
      connect_password = map_option buff_of (cb_password b)\<rparr>"

lemma connect_sendableD:
  assumes "connect_sendable d b"
  shows "cb_flags b AND 1 = 0" "mqtt_str_ok (cb_client_id b)" "length (cb_client_id b) \<le> 65535"
    "\<And>w. cb_will b = Some w \<Longrightarrow> will_ok w"
    "\<And>u. cb_username b = Some u \<Longrightarrow> mqtt_str_ok u \<and> length u \<le> 65535"
    "\<And>p. cb_password b = Some p \<Longrightarrow> length p \<le> 65535"
  using assms by (simp_all add: connect_sendable_def CONNECT_RESERVED_def)

lemma connect_body_bound:
  assumes "crates_ok d" "connect_sendable d b"
  shows "length (connect_body d b) \<le> 327697" "length (connect_body d b) \<le> max_remaining"
proof -
  note b = connect_sendableD [OF assms(2)]
  have "length (opt_bytes (will_bytes d) (cb_will b)) \<le> 131074"
    using b(4) assms(1) by (cases "cb_will b") (auto simp: will_ok_def)
  moreover have "length (opt_bytes (buff_bytes d) (cb_username b)) \<le> 65537"
    using b(5) assms(1) by (cases "cb_username b") auto
  moreover have "length (opt_bytes (buff_bytes d) (cb_password b)) \<le> 65537"
    using b(6) assms(1) by (cases "cb_password b") auto
  ultimately show "length (connect_body d b) \<le> 327697"
    using b(3) assms(1) by (simp add: connect_body_def connect_payload_def)
  then show "length (connect_body d b) \<le> max_remaining" by simp
qed

lemma encode_option:
  assumes "a + length (opt_bytes enc ov) \<le> usize_max"
    and "\<And>x. ov = Some x \<Longrightarrow> elen x = Ok (length (enc x))"
  shows "(case ov of None \<Rightarrow> Ok (Some a) | Some x \<Rightarrow> and_then (elen x)
        (\<lambda>l. Ok (Option.bind (Some a) (\<lambda>v. checked_add v l)))) =
      Ok (Some (a + length (opt_bytes enc ov)))"
  using assms by (cases ov) (auto simp: checked_add_def)

lemma Connect_encode_len_eq:
  assumes "crates_ok d" "connect_sendable d b"
  shows "Connect_encode_len d b = Ok (length (connect_body d b))"
proof -
  note b = connect_sendableD [OF assms(2)]
  let ?w = "length (opt_bytes (will_bytes d) (cb_will b))"
  let ?u = "length (opt_bytes (buff_bytes d) (cb_username b))"
  let ?p = "length (opt_bytes (buff_bytes d) (cb_password b))"
  let ?c = "10 + (2 + length (cb_client_id b))"
  have total: "length (connect_body d b) = ?c + ?w + ?u + ?p"
    using assms(1) by (simp add: connect_body_def connect_payload_def)
  have fits: "?c + ?w + ?u + ?p \<le> usize_max"
    using connect_body_bound(1) [OF assms] total by (simp add: usize_max_def)
  have c: "ClientId_encode_len (cb_client_id b) = Ok (2 + length (cb_client_id b))"
    "checked_add 10 (2 + length (cb_client_id b)) = Some ?c"
    using b(3) by (simp_all add: ClientId_encode_len_def MqttStr_encode_len_def checked_add_def usize_max_def)
  have str: "MqttStr_encode_len u = Ok (length (buff_bytes d u))" if "length u \<le> 65535" for u
    using that assms(1) by (simp add: MqttStr_encode_len_def checked_add_def usize_max_def)
  have buf: "Buff_encode_len u = Ok (length (buff_bytes d u))" if "length u \<le> 65535" for u
    using that assms(1) by (simp add: Buff_encode_len_def checked_add_def usize_max_def)
  have will: "WillMsg_encode_len d w = Ok (length (will_bytes d w))" if "cb_will b = Some w" for w
    using WillMsg_encode_len_eq [OF assms(1) b(4) [OF that]] .
  have l: "?c + ?w \<le> usize_max" "?c + ?w + ?u \<le> usize_max" using fits by simp_all
  show ?thesis
    by (simp only: Connect_encode_len_def ConnectHeader_encode_len_def and_then.simps c Let_def
      encode_option [OF l(1) will] encode_option [OF l(2) str [OF b(5) [THEN conjunct2]]]
      encode_option [OF fits buf [OF b(6)]] ok_or.simps total)
qed

lemma Connect_write_sync_emits:
  assumes "crates_ok d" "connect_sendable d b"
  shows "emits (Connect_write_sync d b) (length (connect_packet d b)) (connect_packet d b)"
proof -
  note b = connect_sendableD [OF assms(2)]
  note body = connect_body_bound [OF assms]
  let ?h = "length (frame_header Connect (default_flags Connect) (length (connect_body d b)))"
  let ?w = "length (opt_bytes (will_bytes d) (cb_will b))"
  let ?u = "length (opt_bytes (buff_bytes d) (cb_username b))"
  let ?p = "length (opt_bytes (buff_bytes d) (cb_password b))"
  let ?c = "2 + length (cb_client_id b)"
  have len: "length (connect_body d b) = 10 + ?c + ?w + ?u + ?p"
    using assms(1) by (simp add: connect_body_def connect_payload_def)
  have fits: "?h + 10 + ?c + ?w + ?u + ?p \<le> usize_max"
    using length_frame_header_bounds(2) [OF body(2), of Connect "default_flags Connect"] body(1) len
    by (simp add: usize_max_def)
  have total: "length (connect_packet d b) = ?h + 10 + ?c + ?w + ?u + ?p"
    using len by (simp add: connect_packet_def)
  have bytes: "connect_packet d b = frame_header Connect (default_flags Connect) (length (connect_body d b)) @
      ConnectHeader_as_bytes d (header_of_builder b) @ buff_bytes d (cb_client_id b) @
      opt_bytes (will_bytes d) (cb_will b) @ opt_bytes (buff_bytes d) (cb_username b) @
      opt_bytes (buff_bytes d) (cb_password b) @ []"
    by (simp add: connect_packet_def connect_body_def connect_payload_def)
  have client: "emits (ClientId_write_sync d (cb_client_id b)) ?c (buff_bytes d (cb_client_id b))"
    unfolding ClientId_write_sync_def ClientId_validate_value_def w_then_lift_Ok
    by (rule MqttStr_write_sync_emits [OF b(2,3) refl])
  have will: "emits (WillMsg_write_sync d w) (length (will_bytes d w)) (will_bytes d w)"
    if "cb_will b = Some w" for w by (rule WillMsg_write_sync_emits [OF assms(1) b(4) [OF that]])
  have user: "emits (MqttStr_write_sync d u) (length (buff_bytes d u)) (buff_bytes d u)"
    if "cb_username b = Some u" for u using b(5) [OF that] assms(1) by (intro MqttStr_write_sync_emits) simp_all
  have pass: "emits (Buff_write_sync d u) (length (buff_bytes d u)) (buff_bytes d u)"
    if "cb_password b = Some u" for u using b(6) [OF that] assms(1) by (intro Buff_write_sync_emits) simp_all
  show ?thesis
    unfolding Connect_write_sync_def Connect_encode_len_eq [OF assms] w_then_lift_Ok total
    unfolding bytes
    apply (rule frame_header_new_then_emits [OF assms(1) body(2) _ refl])
    apply (rule emits_count_then [OF ConnectHeader_write_sync_emits [OF assms(1) b(1)] _ _ refl])
    subgoal using fits by simp
    apply (rule emits_count_then [OF client _ _ refl])
    subgoal using fits by simp
    apply (rule emits_then [OF emits_option [OF will] _ refl], assumption)
    subgoal using fits by simp
    apply (rule emits_then [OF emits_option [OF user] _ refl], assumption)
    subgoal using fits by simp
    apply (rule emits_then [OF emits_option [OF pass] emits_lift refl], assumption)
    using fits by simp_all
qed

section \<open>Decoding the packet\<close>

lemma Connect_parse_packet [parse_simp]:
  assumes "crates_ok d" "connect_sendable d b" "connect_flags_ok b" "client_id_ok (cb_client_id b)"
  shows "Connect_parse d (connect_packet d b @ rest) = Ok (connect_of d b, rest)"
proof -
  note b = connect_sendableD [OF assms(2)]
  let ?p = "opt_bytes (buff_bytes d) (cb_password b)" and ?u = "opt_bytes (buff_bytes d) (cb_username b)"
  let ?w = "opt_bytes (will_bytes d) (cb_will b)" and ?id = "buff_bytes d (cb_client_id b)"
  have hdr: "FixedHeaderSlice_parse d (connect_packet d b @ rest) =
      Ok (header_of Connect (default_flags Connect) (length (connect_body d b)),
        ConnectHeader_as_bytes d (header_of_builder b) @ ?id @ ?w @ ?u @ ?p @ rest)"
    using FixedHeaderSlice_parse_header [OF assms(1) flags_ok_default connect_body_bound(2) [OF assms(1,2)]]
    by (simp add: connect_packet_def connect_body_def connect_payload_def)
  have ch: "ConnectHeader_parse d (ConnectHeader_as_bytes d (header_of_builder b) @ r) = Ok (header_of_builder b, r)"
    "ConnectHeader_validate d (header_of_builder b) = Ok ()" for r
    using assms(1) b(1) by (simp_all add: ConnectHeader_parse_iff ConnectHeader_validate_iff
        connect_header_ok_def header_of_builder_def)
  have flags: "bf_contains d (ch_flags (header_of_builder b)) WILL_FLAG \<longleftrightarrow> cb_will b \<noteq> None"
    "bf_contains d (ch_flags (header_of_builder b)) CONNECT_USERNAME \<longleftrightarrow> cb_username b \<noteq> None"
    "bf_contains d (ch_flags (header_of_builder b)) CONNECT_PASSWORD \<longleftrightarrow> cb_password b \<noteq> None"
    using assms(1,3) by (simp_all add: bitflags_laws header_of_builder_def connect_flags_ok_def)
  note will = will_msg.parse_option [OF assms(1) b(4) refl]
  note user = mqtt_str.parse_option [OF assms(1) b(5) refl]
  note pass = buff.parse_option [OF assms(1) b(6) refl]
  note id = client_id.parse_enc [OF assms(1,4)]
  have valid: "Connect_validate d (connect_of d b) = Ok ()"
    using ch(2) assms(4) b
    by (auto simp: Connect_validate_def connect_of_def client_id_ok_def ClientId_validate_iff if_some_def
        WillMsg_validate_def MqttStr_validate_def Buff_validate_def str_of_def buff_of_def unat_of_nat
        mqtt_str_ok_def split: option.split)
  show ?thesis
    using valid
    by (simp only: Connect_parse_def hdr and_then.simps prod.case header_of_simps flags_ok_default
        debug_assert_True ch(1) id flags will user pass Let_def connect_of_def simp_thms)
qed

text \<open>What a parsed packet is made of; the remaining length is not compared with it.\<close>

definition connect_parsed_body :: "crates \<Rightarrow> Connect \<Rightarrow> bytes" where
  "connect_parsed_body d c =
     ConnectHeader_as_bytes d (connect_header c) @
     zc_u16_as_bytes d (str_len (connect_client_id c)) @ str_data (connect_client_id c) @
     opt_bytes (\<lambda>w. zc_u16_as_bytes d (str_len (wm_topic w)) @ str_data (wm_topic w) @
        zc_u16_as_bytes d (buff_len (wm_message w)) @ buff_data (wm_message w)) (connect_will c) @
     opt_bytes (\<lambda>u. zc_u16_as_bytes d (str_len u) @ str_data u) (connect_username c) @
     opt_bytes (\<lambda>p. zc_u16_as_bytes d (buff_len p) @ buff_data p) (connect_password c)"

lemma Connect_parse_Ok:
  assumes "crates_ok d" "Connect_parse d buf = Ok (c, rest)"
  shows "buf = header_bytes (connect_fixed c) @ connect_parsed_body d c @ rest"
    and "FixedHeader_packet_type (connect_fixed c) = Ok Connect"
    and "connect_header_ok (connect_header c)"
    and "client_id_ok (str_data (connect_client_id c))"
proof -
  let ?f = "ch_flags (connect_header c)"
  from assms obtain r1 r2 r3 r4 r5 where
    fixed: "FixedHeaderSlice_parse d buf = Ok (connect_fixed c, r1)"
    and hd: "ConnectHeader_parse d r1 = Ok (connect_header c, r2)"
    and id: "ClientId_parse d r2 = Ok (connect_client_id c, r3)"
    and will: "(if bf_contains d ?f WILL_FLAG then and_then (WillMsg_parse d r3) (\<lambda>(v, r). Ok (Some v, r))
       else Ok (None, r3)) = (Ok (connect_will c, r4) :: (WillMsg option \<times> bytes) res)"
    and user: "(if bf_contains d ?f CONNECT_USERNAME then and_then (MqttStr_parse d r4) (\<lambda>(v, r). Ok (Some v, r))
       else Ok (None, r4)) = (Ok (connect_username c, r5) :: (MqttStr option \<times> bytes) res)"
    and pass: "(if bf_contains d ?f CONNECT_PASSWORD then and_then (Buff_parse d r5) (\<lambda>(v, r). Ok (Some v, r))
       else Ok (None, r5)) = (Ok (connect_password c, rest) :: (Buff option \<times> bytes) res)"
    and valid: "Connect_validate d c = Ok ()"
    by (auto simp: Connect_parse_def Let_def simp del: if_split)
  from fixed assms(1) have "buf = header_bytes (connect_fixed c) @ r1"
    by (simp add: FixedHeaderSlice_parse_iff header_bytes_def)
  moreover from hd assms(1) have "r1 = ConnectHeader_as_bytes d (connect_header c) @ r2"
    and "connect_header_ok (connect_header c)" by (simp_all add: ConnectHeader_parse_iff)
  moreover from id assms(1) have "r2 = zc_u16_as_bytes d (str_len (connect_client_id c)) @
      str_data (connect_client_id c) @ r3" and "client_id_ok (str_data (connect_client_id c))"
    by (simp_all add: ClientId_parse_iff MqttStr_parse_iff client_id_ok_def ClientId_validate_iff)
  moreover from will assms(1) have "r3 = opt_bytes (\<lambda>w. zc_u16_as_bytes d (str_len (wm_topic w)) @ str_data (wm_topic w) @
        zc_u16_as_bytes d (buff_len (wm_message w)) @ buff_data (wm_message w)) (connect_will c) @ r4"
    by (cases "connect_will c") (auto simp: WillMsg_parse_iff MqttStr_parse_iff Buff_parse_iff split: if_splits)
  moreover from user assms(1) have "r4 = opt_bytes (\<lambda>u. zc_u16_as_bytes d (str_len u) @ str_data u) (connect_username c) @ r5"
    by (cases "connect_username c") (auto simp: MqttStr_parse_iff split: if_splits)
  moreover from pass assms(1) have "r5 = opt_bytes (\<lambda>p. zc_u16_as_bytes d (buff_len p) @ buff_data p) (connect_password c) @ rest"
    by (cases "connect_password c") (auto simp: Buff_parse_iff split: if_splits)
  moreover from valid have "FixedHeader_packet_type (connect_fixed c) = Ok Connect"
    by (auto simp: Connect_validate_def split: if_splits)
  ultimately show "buf = header_bytes (connect_fixed c) @ connect_parsed_body d c @ rest"
    and "FixedHeader_packet_type (connect_fixed c) = Ok Connect"
    and "connect_header_ok (connect_header c)"
    and "client_id_ok (str_data (connect_client_id c))"
    by (simp_all add: connect_parsed_body_def)
qed

interpretation connect: decoder crates_ok Connect_parse
proof unfold_locales
  show "\<exists>pre. pre \<noteq> [] \<and> buf = pre @ rest"
    if "crates_ok d" "Connect_parse d buf = Ok (x, rest)" for d buf x rest
    using Connect_parse_Ok(1) [OF that] by (metis append.assoc append_is_Nil_conv header_bytes_not_Nil)
qed

section \<open>The builder keeps flags and payload together\<close>

text \<open>The builders that the public interface can make.\<close>

inductive built :: "crates \<Rightarrow> ConnectBuilder \<Rightarrow> bool" for d where
  built_create: "ConnectBuilder_create cid = Ok b \<Longrightarrow> built d b"
| built_new_unchecked: "built d (ConnectBuilder_new_unchecked cid)"
| built_with_empty_client_id: "built d (ConnectBuilder_with_empty_client_id d)"
| built_clean_session: "built d b \<Longrightarrow> built d (ConnectBuilder_clean_session d b)"
| built_keepalive: "built d b \<Longrightarrow> built d (ConnectBuilder_keepalive k b)"
| built_will: "built d b \<Longrightarrow> built d (ConnectBuilder_will d t m q r b)"
| built_username: "built d b \<Longrightarrow> built d (ConnectBuilder_username d u b)"
| built_username_password: "built d b \<Longrightarrow> built d (ConnectBuilder_username_password d u p b)"

lemmas connect_flag_defs =
  CONNECT_USERNAME_def CONNECT_PASSWORD_def WILL_RETAIN_def WILL_QOS_1_def WILL_QOS_2_def
  WILL_QOS_RESET_def WILL_FLAG_def CLEAN_SESSION_def CONNECT_RESERVED_def ConnectFlags_empty_def

text \<open>
  The flags describe the payload, a password comes with a user name, and the will's QoS and
  retain bits are clear when there is no will; QoS 3 is never requested.
\<close>

definition connect_builder_inv :: "ConnectBuilder \<Rightarrow> bool" where
  "connect_builder_inv b \<longleftrightarrow>
     connect_flags_ok b \<and> (cb_password b \<noteq> None \<longrightarrow> cb_username b \<noteq> None) \<and>
     (cb_will b = None \<longrightarrow> cb_flags b AND (WILL_QOS_1 OR WILL_QOS_2 OR WILL_RETAIN) = 0) \<and>
     cb_flags b AND (WILL_QOS_1 OR WILL_QOS_2) \<noteq> WILL_QOS_1 OR WILL_QOS_2"

lemma mask_absorb [simp]: "(f AND m) OR m = (m :: u8)" "m OR (f AND m) = (m :: u8)"
  by (simp_all add: or.commute)

lemmas builder_inv_simps =
  connect_builder_inv_def connect_flags_ok_def bitflags_laws connect_flag_defs
  bit.conj_disj_distrib2 and.assoc

lemma new_builder_inv: "connect_builder_inv (ConnectBuilder_new_unchecked cid)"
  by (simp add: ConnectBuilder_new_unchecked_def connect_builder_inv_def connect_flags_ok_def
      connect_flag_defs)

lemma clean_session_inv:
  "crates_ok d \<Longrightarrow> connect_builder_inv b \<Longrightarrow> connect_builder_inv (ConnectBuilder_clean_session d b)"
  by (simp add: ConnectBuilder_clean_session_def builder_inv_simps)

lemma username_inv:
  "crates_ok d \<Longrightarrow> connect_builder_inv b \<Longrightarrow> connect_builder_inv (ConnectBuilder_username d u b)"
  by (simp add: ConnectBuilder_username_def builder_inv_simps)

lemma username_password_inv:
  "crates_ok d \<Longrightarrow> connect_builder_inv b \<Longrightarrow>
   connect_builder_inv (ConnectBuilder_username_password d u p b)"
  by (simp add: ConnectBuilder_username_password_def builder_inv_simps)

lemma will_inv:
  "crates_ok d \<Longrightarrow> connect_builder_inv b \<Longrightarrow> connect_builder_inv (ConnectBuilder_will d t m q r b)"
  by (cases q; cases r) (simp_all add: ConnectBuilder_will_def builder_inv_simps)

lemma built_inv:
  assumes "built d b" "crates_ok d"
  shows "connect_builder_inv b"
  using assms
proof (induction rule: built.induct)
  case (built_create cid b)
  then have "b = ConnectBuilder_new_unchecked cid"
    by (simp add: ConnectBuilder_create_def ClientId_validate_value_def ConnectBuilder_new_unchecked_def)
  then show ?case by (simp add: new_builder_inv)
next
  case built_with_empty_client_id
  have "ConnectBuilder_with_empty_client_id d =
      ConnectBuilder_clean_session d (ConnectBuilder_new_unchecked [])"
    by (simp add: ConnectBuilder_with_empty_client_id_def ConnectBuilder_new_unchecked_def)
  then show ?case using built_with_empty_client_id by (simp add: clean_session_inv new_builder_inv)
next
  case (built_keepalive b k)
  then show ?case by (simp add: ConnectBuilder_keepalive_def connect_builder_inv_def connect_flags_ok_def)
qed (simp_all add: new_builder_inv clean_session_inv will_inv username_inv username_password_inv)

section \<open>Correctness\<close>

text \<open>C9: Every sequence of builder calls leaves the flags in step with the payload: the will, user
  name and password bits say exactly what is there, a password comes with a user name, the
  reserved bit stays clear, and the will QoS is never 3 and is 0 without a will.\<close>

theorem connect_builder_invariant:
  assumes "built d b" "crates_ok d"
  shows "connect_builder_inv b"
  by (rule built_inv [OF assms])

definition sample_connect :: "crates \<Rightarrow> ConnectBuilder" where
  "sample_connect d =
     ConnectBuilder_username_password d [0x75] [1, 2]
       (ConnectBuilder_will d [0x74] [9] AtLeastOnce True (ConnectBuilder_new_unchecked [0x61, 0x31]))"

lemma sample_connect_built: "built d (sample_connect d)"
  unfolding sample_connect_def by (intro built.intros)

theorem connect_builder_invariant_witness:
  "connect_builder_inv (sample_connect (std_crates True))"
  by (rule connect_builder_invariant [OF sample_connect_built std_crates_ok])

text \<open>C8: A CONNECT made with the builder, with permitted strings and a client identifier of 1 to 23
  letters and digits, is written whole and read back by the server: every field of the builder is
  there, absent optional fields are absent, and the bytes after the packet are left alone.\<close>

theorem connect_round_trip:
  assumes "crates_ok d" "built d b" "connect_sendable d b" "client_id_ok (cb_client_id b)"
  shows "\<exists>c. emits (Connect_write_sync d b) (length (connect_packet d b)) (connect_packet d b) \<and>
    Connect_parse d (connect_packet d b @ rest) = Ok (c, rest) \<and>
    MqttStr_as_str (connect_client_id c) = cb_client_id b \<and>
    ch_flags (connect_header c) = cb_flags b \<and> keep_alive (connect_header c) = cb_keepalive b \<and>
    connect_will c = map_option will_of (cb_will b) \<and>
    map_option MqttStr_as_str (connect_username c) = cb_username b \<and>
    map_option buff_data (connect_password c) = cb_password b"
proof -
  from built_inv [OF assms(2,1)] have "connect_flags_ok b" by (simp add: connect_builder_inv_def)
  from Connect_parse_packet [OF assms(1,3) this assms(4)] Connect_write_sync_emits [OF assms(1,3)]
  show ?thesis
    by (intro exI [of _ "connect_of d b"])
      (simp add: connect_of_def header_of_builder_def option.map_comp o_def option.map_ident
        MqttStr_as_str_def str_of_def buff_of_def)
qed

lemma sample_connect_fields:
  "cb_client_id (sample_connect d) = [0x61, 0x31]"
  "cb_will (sample_connect d) = Some \<lparr>will_topic = [0x74], will_message = [9]\<rparr>"
  "cb_username (sample_connect d) = Some [0x75]" "cb_password (sample_connect d) = Some [1, 2]"
  by (simp_all add: sample_connect_def ConnectBuilder_username_password_def ConnectBuilder_will_def
      ConnectBuilder_new_unchecked_def)

lemma sample_connect_sendable:
  assumes "crates_ok d"
  shows "connect_sendable d (sample_connect d)" "client_id_ok (cb_client_id (sample_connect d))"
proof -
  have str: "mqtt_str_ok [0x61, 0x31]" "mqtt_str_ok [0x74]" "mqtt_str_ok [0x75]" by code_simp+
  have "cb_flags (sample_connect d) AND CONNECT_RESERVED = 0"
    using built_inv [OF sample_connect_built assms] by (simp add: connect_builder_inv_def connect_flags_ok_def)
  with str show "connect_sendable d (sample_connect d)"
    by (simp add: connect_sendable_def sample_connect_fields will_ok_def)
  have "list_all is_ascii_alphanumeric (str_chars [0x61, 0x31])" by code_simp
  with str show "client_id_ok (cb_client_id (sample_connect d))"
    by (simp add: client_id_ok_def sample_connect_fields)
qed

theorem connect_round_trip_witness:
  "\<exists>c. Connect_parse (std_crates True) (connect_packet (std_crates True) (sample_connect (std_crates True)) @ [3]) =
      Ok (c, [3]) \<and>
    MqttStr_as_str (connect_client_id c) = [0x61, 0x31] \<and>
    map_option MqttStr_as_str (connect_username c) = Some [0x75] \<and>
    map_option buff_data (connect_password c) = Some [1, 2]"
  using connect_round_trip [OF std_crates_ok sample_connect_built sample_connect_sendable
      [OF std_crates_ok], of True "[3]"]
  by (auto simp: sample_connect_fields)

text \<open>C31: What parses as a CONNECT is a CONNECT header followed by the encoding of the value returned:
  protocol name and level of MQTT 3.1.1, a clear reserved bit and a client identifier of 1 to 23
  letters and digits.\<close>

theorem connect_parse_sound:
  assumes "crates_ok d" "Connect_parse d buf = Ok (c, rest)"
  shows "buf = header_bytes (connect_fixed c) @ connect_parsed_body d c @ rest \<and>
    FixedHeader_packet_type (connect_fixed c) = Ok Connect \<and>
    protocol_name (connect_header c) = PROTOCOL_NAME \<and>
    protocol_level (connect_header c) = PROTOCOL_LEVEL_V3_1_1 \<and>
    ch_flags (connect_header c) AND CONNECT_RESERVED = 0 \<and>
    client_id_ok (MqttStr_as_str (connect_client_id c))"
  using Connect_parse_Ok [OF assms]
  by (simp add: connect_header_ok_def CONNECT_RESERVED_def MqttStr_as_str_def)

theorem connect_parse_sound_witness:
  "client_id_ok (MqttStr_as_str (connect_client_id
     (connect_of (std_crates True) (sample_connect (std_crates True)))))"
proof -
  let ?d = "std_crates True" and ?b = "sample_connect (std_crates True)"
  have "connect_flags_ok ?b"
    using built_inv [OF sample_connect_built std_crates_ok] by (simp add: connect_builder_inv_def)
  with sample_connect_sendable [OF std_crates_ok]
  have "Connect_parse ?d (connect_packet ?d ?b @ []) = Ok (connect_of ?d ?b, [])"
    by (intro Connect_parse_packet std_crates_ok)
  from connect_parse_sound [OF std_crates_ok this] show ?thesis by blast
qed

lemma Connect_parse_bad_client_id:
  assumes "crates_ok d" "connect_sendable d b" "\<not> client_id_ok (cb_client_id b)"
  shows "\<exists>e. Connect_parse d (connect_packet d b @ rest) = Err e"
proof -
  note b = connect_sendableD [OF assms(2)]
  let ?r = "opt_bytes (will_bytes d) (cb_will b) @ opt_bytes (buff_bytes d) (cb_username b) @
    opt_bytes (buff_bytes d) (cb_password b) @ rest"
  have hdr: "FixedHeaderSlice_parse d (connect_packet d b @ rest) =
      Ok (header_of Connect (default_flags Connect) (length (connect_body d b)),
        ConnectHeader_as_bytes d (header_of_builder b) @ buff_bytes d (cb_client_id b) @ ?r)"
    using FixedHeaderSlice_parse_header [OF assms(1) flags_ok_default connect_body_bound(2) [OF assms(1,2)]]
    by (simp add: connect_packet_def connect_body_def connect_payload_def)
  have ch: "ConnectHeader_parse d (ConnectHeader_as_bytes d (header_of_builder b) @ r) =
      Ok (header_of_builder b, r)" for r
    using assms(1) b(1) by (simp add: ConnectHeader_parse_iff connect_header_ok_def header_of_builder_def)
  have "ClientId_validate (str_of (cb_client_id b)) \<noteq> Ok ()"
    using assms(3) b by (simp add: ClientId_validate_iff client_id_ok_def str_of_def)
  then obtain e where e: "ClientId_validate (str_of (cb_client_id b)) = Err e"
    by (auto simp: ClientId_validate_def Let_def split: if_splits)
  have id: "ClientId_parse d (buff_bytes d (cb_client_id b) @ ?r) = Err e"
    using e MqttStr_parse_bytes [OF assms(1) b(2,3), of ?r] by (simp add: ClientId_parse_def)
  have "Connect_parse d (connect_packet d b @ rest) = Err e"
    by (simp only: Connect_parse_def hdr and_then.simps prod.case header_of_simps flags_ok_default
        debug_assert_True ch id simp_thms)
  then show ?thesis by blast
qed

text \<open>C39: The two directions disagree about the client identifier: one that is empty, longer than 23
  bytes or not made of letters and digits is written without complaint, and the packet is refused
  when it is read.\<close>

theorem connect_client_id_asymmetry:
  assumes "crates_ok d" "connect_sendable d b" "\<not> client_id_ok (cb_client_id b)"
  shows "emits (Connect_write_sync d b) (length (connect_packet d b)) (connect_packet d b) \<and>
    (\<exists>e. Connect_parse d (connect_packet d b @ rest) = Err e)"
  using Connect_write_sync_emits [OF assms(1,2)] Connect_parse_bad_client_id [OF assms] by blast

theorem connect_client_id_asymmetry_witness:
  "\<exists>e. Connect_parse (std_crates True) (connect_packet (std_crates True)
     (ConnectBuilder_with_empty_client_id (std_crates True))) = Err e"
proof -
  let ?b = "ConnectBuilder_with_empty_client_id (std_crates True)"
  have "mqtt_str_ok []" by code_simp
  moreover have "cb_client_id ?b = []" "cb_will ?b = None" "cb_username ?b = None" "cb_password ?b = None"
    by (simp_all add: ConnectBuilder_with_empty_client_id_def ConnectBuilder_clean_session_def)
  moreover have "cb_flags ?b AND CONNECT_RESERVED = 0"
    using built_inv [OF built_with_empty_client_id std_crates_ok]
    by (simp add: connect_builder_inv_def connect_flags_ok_def)
  ultimately have "connect_sendable (std_crates True) ?b" "\<not> client_id_ok (cb_client_id ?b)"
    by (simp_all add: connect_sendable_def client_id_ok_def)
  from connect_client_id_asymmetry [OF std_crates_ok this, of "[]"] show ?thesis by simp
qed

end
