(* ===== verification/Conn_Ack.thy ===== *)
theory Conn_Ack
  imports Fixed_Header Mqtt_String
begin

unbundle bit_operations_syntax

text \<open>
  The CONNACK packet (\<open>src/v3/packets/connect/ack.rs\<close>): acknowledge flags and a return code.
  A value of the \<open>bitflags\<close> type \<open>ConnAckFlags\<close> is its bits; the type is \<open>FromBytes\<close>, so
  a parsed value may hold bits that no flag names.
\<close>

section \<open>Return codes and flags\<close>

datatype ReturnCode =
  Accepted | ProtocolVersion | IdentifierRejected | ServerUnavailable | BadUsernamePassword
| NotAuthorized

primrec u8_from_ReturnCode :: "ReturnCode \<Rightarrow> u8" where
  "u8_from_ReturnCode Accepted = 0"
| "u8_from_ReturnCode ProtocolVersion = 1"
| "u8_from_ReturnCode IdentifierRejected = 2"
| "u8_from_ReturnCode ServerUnavailable = 3"
| "u8_from_ReturnCode BadUsernamePassword = 4"
| "u8_from_ReturnCode NotAuthorized = 5"

definition ReturnCode_is_accepted :: "ReturnCode \<Rightarrow> bool" where
  "ReturnCode_is_accepted this \<longleftrightarrow> (case this of Accepted \<Rightarrow> True | _ \<Rightarrow> False)"

definition ReturnCode_try_from :: "u8 \<Rightarrow> ReturnCode res" where
  "ReturnCode_try_from value =
     (if value = 0 then Ok Accepted
      else if value = 1 then Ok ProtocolVersion
      else if value = 2 then Ok IdentifierRejected
      else if value = 3 then Ok ServerUnavailable
      else if value = 4 then Ok BadUsernamePassword
      else if value = 5 then Ok NotAuthorized
      else Err (Error_new Invalid ''CONNACK return code''))"

type_synonym ConnAckFlags = u8

definition SESSION_PRESENT :: ConnAckFlags where "SESSION_PRESENT = 0b00000001"
definition ConnAckFlags_all :: ConnAckFlags where "ConnAckFlags_all = 0b00000001"

section \<open>The packet\<close>

record ConnAck =
  connack_flags :: ConnAckFlags
  connack_return_code :: ReturnCode

definition ConnAck_new :: "ConnAckFlags \<Rightarrow> ReturnCode \<Rightarrow> ConnAck" where
  "ConnAck_new flags return_code = \<lparr>connack_flags = flags, connack_return_code = return_code\<rparr>"

definition ConnAck_session_present :: "crates \<Rightarrow> ConnAck \<Rightarrow> bool" where
  "ConnAck_session_present d this = bf_contains d (connack_flags this) SESSION_PRESENT"

definition ConnAck_error_for_code :: "ConnAck \<Rightarrow> ConnAck res" where
  "ConnAck_error_for_code this =
     (case connack_return_code this of
        Accepted \<Rightarrow> Ok this
      | ProtocolVersion \<Rightarrow> Err (Error_new Invalid ''protocl version'')
      | IdentifierRejected \<Rightarrow> Err (Error_new Invalid ''client id'')
      | ServerUnavailable \<Rightarrow> Err (Error_new Invalid ''server not available'')
      | BadUsernamePassword \<Rightarrow> Err (Error_new Invalid ''username or password'')
      | NotAuthorized \<Rightarrow> Err (Error_new Invalid ''not authorized''))"

definition ConnAck_validate :: "crates \<Rightarrow> ConnAck \<Rightarrow> unit res" where
  "ConnAck_validate d this =
     (if \<not> bf_is_empty d (bf_bitand d (connack_flags this) (bf_not d ConnAckFlags_all SESSION_PRESENT))
      then Err (Error_new Invalid ''connack flags reserved'') else Ok ())"

definition ConnAck_validate_value :: "crates \<Rightarrow> ConnAck \<Rightarrow> unit res" where
  "ConnAck_validate_value d value = and_then (ConnAck_validate d value) (\<lambda>_. Ok ())"

definition ConnAck_encode_len :: "ConnAck \<Rightarrow> usize res" where
  "ConnAck_encode_len value = Ok 2"

definition ConnAck_as_bytes :: "ConnAck \<Rightarrow> bytes" where
  "ConnAck_as_bytes this = [connack_flags this, u8_from_ReturnCode (connack_return_code this)]"

definition ConnAck_write_sync :: "crates \<Rightarrow> ConnAck \<Rightarrow> usize wr" where
  "ConnAck_write_sync d value =
     w_then (w_lift (ConnAck_validate_value d value)) (\<lambda>_.
     w_then (write_all ''writing CONNACK packet'' (ConnAck_as_bytes value)) (\<lambda>_.
     w_lift (Ok 2)))"

text \<open>The bit patterns of the two bytes: any flags, a return code that is a discriminant.\<close>

definition ConnAck_valid :: "bytes \<Rightarrow> bool" where
  "ConnAck_valid bs \<longleftrightarrow> (case ReturnCode_try_from (bs ! 1) of Ok _ \<Rightarrow> True | _ \<Rightarrow> False)"

definition ConnAck_parse :: "crates \<Rightarrow> bytes \<Rightarrow> (ConnAck \<times> bytes) res" where
  "ConnAck_parse d buff =
     and_then (FixedHeaderArray_parse d 1 buff) (\<lambda>(fixed, rest).
     debug_assert (debug_assertions d) (FixedHeader_packet_type fixed = Ok ConnAck) (
     and_then (map_err (\<lambda>error. Error_new (convert_error_kind error) ''CONNACK packet'')
                 (zc_try_ref_from_prefix d 2 ConnAck_valid rest)) (\<lambda>(bs, rest).
     and_then (ReturnCode_try_from (bs ! 1)) (\<lambda>return_code.
     let this = \<lparr>connack_flags = bs ! 0, connack_return_code = return_code\<rparr> in
     and_then (ConnAck_validate d this) (\<lambda>_.
     Ok (this, rest))))))"

section \<open>What is read and what is written\<close>

lemma ReturnCode_try_from_iff: "ReturnCode_try_from b = Ok c \<longleftrightarrow> b = u8_from_ReturnCode c"
  by (cases c) (auto simp: ReturnCode_try_from_def)

text \<open>
  The complement of a flag keeps only declared flags, so the mask of the reserved bits is
  empty and the check never fails.
\<close>

lemma ConnAck_validate_always: "crates_ok d \<Longrightarrow> ConnAck_validate d a = Ok ()"
  by (simp add: ConnAck_validate_def bitflags_laws SESSION_PRESENT_def ConnAckFlags_all_def)

lemma ConnAck_parse_iff:
  assumes "crates_ok d"
  shows "ConnAck_parse d buf = Ok (a, rest) \<longleftrightarrow>
    (\<exists>t f l. flags_ok t f \<and> \<not> has_continue_flag l \<and> (debug_assertions d \<longrightarrow> t = ConnAck) \<and>
       buf = encode_type_and_flags t f # l # ConnAck_as_bytes a @ rest)" (is "?L \<longleftrightarrow> ?R")
proof
  assume ?R
  then obtain t f l where R: "flags_ok t f" "\<not> has_continue_flag l" "debug_assertions d \<longrightarrow> t = ConnAck"
    "buf = encode_type_and_flags t f # l # ConnAck_as_bytes a @ rest" by blast
  let ?h = "\<lparr>type_and_flags = encode_type_and_flags t f, remaining_length = \<lparr>rl_len = [l]\<rparr>\<rparr>"
  have "FixedHeaderArray_parse d 1 buf = Ok (?h, ConnAck_as_bytes a @ rest)"
    using R assms by (auto simp: FixedHeaderArray_parse_simps)
  moreover have "FixedHeader_packet_type ?h = Ok t" using R(1) by simp
  moreover have "ReturnCode_try_from (u8_from_ReturnCode c) = Ok c" for c
    by (simp add: ReturnCode_try_from_iff)
  ultimately show ?L
    using R(3) assms
    by (cases a) (simp add: ConnAck_parse_def zerocopy_laws(4) ConnAck_as_bytes_def ConnAck_valid_def
        ConnAck_validate_always numeral_2_eq_2)
next
  assume ?L
  then obtain h r bs where h: "FixedHeaderArray_parse d 1 buf = Ok (h, r)"
    "debug_assertions d \<longrightarrow> FixedHeader_packet_type h = Ok ConnAck" "2 \<le> length r" "bs = take 2 r"
    "ReturnCode_try_from (bs ! 1) = Ok (connack_return_code a)" "connack_flags a = bs ! 0" "rest = drop 2 r"
    using assms
    by (auto simp: ConnAck_parse_def zerocopy_laws(4) Let_def split: if_splits)
  then obtain x y r' where r: "r = x # y # r'" by (cases r; cases "tl r") auto
  with h have "r = ConnAck_as_bytes a @ rest"
    by (simp add: ConnAck_as_bytes_def ReturnCode_try_from_iff numeral_2_eq_2)
  with h(1,2) assms show ?R by (auto simp: FixedHeaderArray_parse_simps) blast
qed

definition connack_packet :: "crates \<Rightarrow> ConnAck \<Rightarrow> bytes" where
  "connack_packet d a = frame_header ConnAck (default_flags ConnAck) 2 @ ConnAck_as_bytes a"

lemma ConnAck_parse_packet [parse_simp]:
  assumes "crates_ok d"
  shows "ConnAck_parse d (connack_packet d a @ rest) = Ok (a, rest)"
  using assms
  by (auto simp: ConnAck_parse_iff connack_packet_def frame_header_short has_continue_flag_iff
      intro!: exI [of _ ConnAck] exI [of _ "default_flags ConnAck"])

lemma ConnAck_parse_no_Panic:
  assumes "crates_ok d" "ControlPacketType_parse d b = Ok (ConnAck, f)"
  shows "ConnAck_parse d (b # bs) \<noteq> Panic"
proof (cases "FixedHeaderArray_parse d 1 (b # bs)")
  case (Ok p)
  with FixedHeaderArray_parse_type [OF assms] have "FixedHeader_packet_type (fst p) = Ok ConnAck"
    by (cases p) simp
  with Ok assms(1) show ?thesis
    by (cases p) (auto simp: ConnAck_parse_def zerocopy_laws(4) and_then_Panic_iff Let_def
        ConnAck_validate_always ReturnCode_try_from_def split: if_splits)
qed (use FixedHeaderArray_parse_no_Panic [OF assms(1)] in \<open>simp_all add: ConnAck_parse_def\<close>)

text \<open>The writer puts the two bytes of the value on the wire, without a fixed header.\<close>

lemma ConnAck_write_sync_emits:
  assumes "crates_ok d"
  shows "emits (ConnAck_write_sync d a) 2 (ConnAck_as_bytes a)"
  unfolding ConnAck_write_sync_def ConnAck_validate_value_def ConnAck_validate_always [OF assms]
  by (auto intro!: emit_intro)

lemma ConnAck_parse_written:
  "crates_ok d \<Longrightarrow> ConnAck_parse d (ConnAck_as_bytes a) \<noteq> Ok (x, rest)"
  by (auto simp: ConnAck_parse_iff ConnAck_as_bytes_def)

interpretation connack: codec crates_ok ConnAck_parse "\<lambda>_. True" connack_packet "\<lambda>a. a"
  by unfold_locales (auto simp: ConnAck_parse_packet ConnAck_parse_iff)

section \<open>Correctness\<close>

text \<open>C33: The client accepts as CONNACK exactly a CONNACK header byte, one length byte and the two
  bytes of the acknowledgement. The session-present bit and the return code are read from them,
  and \<open>error_for_code\<close> turns every refused connection into an error. The reserved bits are
  not looked at: any flags byte is accepted, and so is any length below 128. The server side writes
  the two bytes without a fixed header, so what it wrote never parses as a CONNACK.\<close>

theorem connack_parse_exact:
  assumes "crates_ok d" "debug_assertions d"
  shows "(ConnAck_parse d buf = Ok (a, rest) \<longleftrightarrow>
      (\<exists>l. \<not> has_continue_flag l \<and> buf = 0x20 # l # ConnAck_as_bytes a @ rest)) \<and>
    (ConnAck_error_for_code a = Ok a \<longleftrightarrow> connack_return_code a = Accepted) \<and>
    (ConnAck_session_present d a \<longleftrightarrow> connack_flags a AND 1 = 1) \<and>
    emits (ConnAck_write_sync d a) 2 (ConnAck_as_bytes a) \<and>
    (\<nexists>x r. ConnAck_parse d (ConnAck_as_bytes a) = Ok (x, r))"
proof -
  have "flags_ok ConnAck f \<longleftrightarrow> f = 0" for f by (simp add: flags_ok_def TypeFlags_empty_def)
  moreover have "encode_type_and_flags ConnAck 0 = 0x20" by (simp add: encode_type_and_flags_def)
  moreover have "ConnAck_error_for_code a = Ok a \<longleftrightarrow> connack_return_code a = Accepted"
    by (cases "connack_return_code a") (simp_all add: ConnAck_error_for_code_def)
  ultimately show ?thesis
    using assms ConnAck_write_sync_emits [OF assms(1)] ConnAck_parse_written [OF assms(1)]
    by (auto simp: ConnAck_parse_iff ConnAck_session_present_def bitflags_laws SESSION_PRESENT_def)
qed

theorem connack_parse_exact_witness:
  "ConnAck_parse (std_crates True) [0x20, 2, 0xF1, 0] = Ok (ConnAck_new 0xF1 Accepted, [])"
proof -
  have "debug_assertions (std_crates True)" by (simp add: std_crates_def)
  from connack_parse_exact [OF std_crates_ok this, of "[0x20, 2, 0xF1, 0]" "ConnAck_new 0xF1 Accepted" "[]"]
  show ?thesis by (auto simp: has_continue_flag_iff ConnAck_new_def ConnAck_as_bytes_def)
qed

end
