(* ===== verification/Packets.thy ===== *)
theory Packets
  imports Publish_Packet Publish_Acks Ping Subscribe_Packet Sub_Ack Unsubscribe_Packet
    Connect_Packet Conn_Ack
begin

text \<open>
  The packets a client can receive (\<open>src/v3/packets/packet.rs\<close>): \<open>Packet::parse\<close> looks at the
  first byte and calls the parser of that packet type.
\<close>

section \<open>Dispatch\<close>

datatype Packet =
  Packet_ConnAck ConnAck
| Packet_Publish Publish
| Packet_PubAck PubAck
| Packet_PubRec PubRec
| Packet_PubRel PubRel
| Packet_PubComp PubComp
| Packet_SubAck SubAck
| Packet_UnsubAck UnsubAck
| Packet_PingResp unit

definition Packet_validate :: "Packet \<Rightarrow> unit res" where
  "Packet_validate this = Ok ()"

definition map_fst :: "('a \<Rightarrow> 'b) \<Rightarrow> ('a \<times> bytes) res \<Rightarrow> ('b \<times> bytes) res" where
  "map_fst f r = and_then r (\<lambda>(p, rest). Ok (f p, rest))"

definition Packet_parse :: "crates \<Rightarrow> bytes \<Rightarrow> (Packet \<times> bytes) res" where
  "Packet_parse d buf =
     and_then (and_then (ok_or (Error_new NotEnoughSpace ''empty buffer'') (slice_get 0 buf))
                 (ControlPacketType_parse d)) (\<lambda>(pkg_type, _).
     case pkg_type of
       ConnAck \<Rightarrow> map_fst Packet_ConnAck (ConnAck_parse d buf)
     | Publish \<Rightarrow> map_fst Packet_Publish (Publish_parse d buf)
     | PubAck \<Rightarrow> map_fst Packet_PubAck (PubAck_parse d buf)
     | PubRec \<Rightarrow> map_fst Packet_PubRec (PubRec_parse d buf)
     | PubRel \<Rightarrow> map_fst Packet_PubRel (PubRel_parse d buf)
     | PubComp \<Rightarrow> map_fst Packet_PubComp (PubComp_parse d buf)
     | SubAck \<Rightarrow> map_fst Packet_SubAck (SubAck_parse d buf)
     | UnsubAck \<Rightarrow> map_fst Packet_UnsubAck (UnsubAck_parse d buf)
     | PingResp \<Rightarrow> map_fst Packet_PingResp (PingResp_parse d buf)
     | _ \<Rightarrow> Err (Error_new Invalid ''packet type received''))"

section \<open>No buffer makes the dispatcher panic\<close>

lemma map_fst_simps [simp]:
  "map_fst f r = Ok (y, rest) \<longleftrightarrow> (\<exists>x. r = Ok (x, rest) \<and> y = f x)"
  "map_fst f r = Panic \<longleftrightarrow> r = Panic"
  by (auto simp: map_fst_def and_then_Panic_iff)

lemma Packet_parse_Nil: "Packet_parse d [] = Err (Error_new NotEnoughSpace ''empty buffer'')"
  by (simp add: Packet_parse_def slice_get_def)

lemma Packet_parse_Cons:
  "Packet_parse d (b # bs) =
     and_then (ControlPacketType_parse d b) (\<lambda>(pkg_type, _).
     case pkg_type of
       ConnAck \<Rightarrow> map_fst Packet_ConnAck (ConnAck_parse d (b # bs))
     | Publish \<Rightarrow> map_fst Packet_Publish (Publish_parse d (b # bs))
     | PubAck \<Rightarrow> map_fst Packet_PubAck (PubAck_parse d (b # bs))
     | PubRec \<Rightarrow> map_fst Packet_PubRec (PubRec_parse d (b # bs))
     | PubRel \<Rightarrow> map_fst Packet_PubRel (PubRel_parse d (b # bs))
     | PubComp \<Rightarrow> map_fst Packet_PubComp (PubComp_parse d (b # bs))
     | SubAck \<Rightarrow> map_fst Packet_SubAck (SubAck_parse d (b # bs))
     | UnsubAck \<Rightarrow> map_fst Packet_UnsubAck (UnsubAck_parse d (b # bs))
     | PingResp \<Rightarrow> map_fst Packet_PingResp (PingResp_parse d (b # bs))
     | _ \<Rightarrow> Err (Error_new Invalid ''packet type received''))"
  by (simp add: Packet_parse_def slice_get_def)

lemma pkid_parses_no_Panic:
  assumes "crates_ok d"
  shows "ControlPacketType_parse d b = Ok (PubAck, f) \<Longrightarrow> PubAck_parse d (b # bs) \<noteq> Panic"
    "ControlPacketType_parse d b = Ok (PubRec, f) \<Longrightarrow> PubRec_parse d (b # bs) \<noteq> Panic"
    "ControlPacketType_parse d b = Ok (PubRel, f) \<Longrightarrow> PubRel_parse d (b # bs) \<noteq> Panic"
    "ControlPacketType_parse d b = Ok (PubComp, f) \<Longrightarrow> PubComp_parse d (b # bs) \<noteq> Panic"
    "ControlPacketType_parse d b = Ok (UnsubAck, f) \<Longrightarrow> UnsubAck_parse d (b # bs) \<noteq> Panic"
  using pkid_parse_no_Panic [OF assms] by (auto simp: pkid_packet_eqs and_then_Panic_iff)

lemmas parses_no_Panic =
  pkid_parses_no_Panic ConnAck_parse_no_Panic Publish_parse_no_Panic SubAck_parse_no_Panic
  unit_parse_no_Panic [of _ _ PingResp, folded unit_parse_eqs]

lemma Packet_parse_no_Panic_aux:
  assumes "crates_ok d"
  shows "Packet_parse d buf \<noteq> Panic"
proof (cases buf)
  case (Cons b bs)
  show ?thesis
  proof (cases "ControlPacketType_parse d b")
    case (Ok p)
    then obtain t f where t: "ControlPacketType_parse d b = Ok (t, f)" by (cases p) simp
    with assms Cons show ?thesis
      by (cases t) (simp_all add: Packet_parse_Cons parses_no_Panic)
  qed (use Cons ControlPacketType_parse_no_Panic in \<open>simp_all add: Packet_parse_Cons\<close>)
qed (simp add: Packet_parse_Nil)

section \<open>Every packet a server sends\<close>

datatype server_packet =
  Send_ConnAck ConnAck
| Send_Publish PublishBuilder
| Send_PubAck u16
| Send_PubRec u16
| Send_PubRel u16
| Send_PubComp u16
| Send_SubAck SubAckBuilder
| Send_UnsubAck u16
| Send_PingResp

primrec packet_ok :: "server_packet \<Rightarrow> bool" where
  "packet_ok (Send_ConnAck a) \<longleftrightarrow> True"
| "packet_ok (Send_Publish b) \<longleftrightarrow> publish_sendable b \<and> publish_consistent b"
| "packet_ok (Send_PubAck k) \<longleftrightarrow> k \<noteq> 0"
| "packet_ok (Send_PubRec k) \<longleftrightarrow> k \<noteq> 0"
| "packet_ok (Send_PubRel k) \<longleftrightarrow> k \<noteq> 0"
| "packet_ok (Send_PubComp k) \<longleftrightarrow> k \<noteq> 0"
| "packet_ok (Send_SubAck b) \<longleftrightarrow> suback_ok b"
| "packet_ok (Send_UnsubAck k) \<longleftrightarrow> k \<noteq> 0"
| "packet_ok Send_PingResp \<longleftrightarrow> True"

primrec packet_bytes :: "crates \<Rightarrow> server_packet \<Rightarrow> bytes" where
  "packet_bytes d (Send_ConnAck a) = connack_packet d a"
| "packet_bytes d (Send_Publish b) = publish_packet d b"
| "packet_bytes d (Send_PubAck k) = pkid_packet PubAck d k"
| "packet_bytes d (Send_PubRec k) = pkid_packet PubRec d k"
| "packet_bytes d (Send_PubRel k) = pkid_packet PubRel d k"
| "packet_bytes d (Send_PubComp k) = pkid_packet PubComp d k"
| "packet_bytes d (Send_SubAck b) = suback_packet d b"
| "packet_bytes d (Send_UnsubAck k) = pkid_packet UnsubAck d k"
| "packet_bytes d Send_PingResp = unit_packet PingResp"

primrec packet_view :: "server_packet \<Rightarrow> Packet" where
  "packet_view (Send_ConnAck a) = Packet_ConnAck a"
| "packet_view (Send_Publish b) = Packet_Publish (publish_of b)"
| "packet_view (Send_PubAck k) = Packet_PubAck \<lparr>puback_pkid = \<lparr>pkid = k\<rparr>\<rparr>"
| "packet_view (Send_PubRec k) = Packet_PubRec \<lparr>pubrec_pkid = \<lparr>pkid = k\<rparr>\<rparr>"
| "packet_view (Send_PubRel k) = Packet_PubRel \<lparr>pubrel_pkid = \<lparr>pkid = k\<rparr>\<rparr>"
| "packet_view (Send_PubComp k) = Packet_PubComp \<lparr>pubcomp_pkid = \<lparr>pkid = k\<rparr>\<rparr>"
| "packet_view (Send_SubAck b) = Packet_SubAck (suback_of b)"
| "packet_view (Send_UnsubAck k) = Packet_UnsubAck \<lparr>unsuback_pkid = \<lparr>pkid = k\<rparr>\<rparr>"
| "packet_view Send_PingResp = Packet_PingResp ()"

text \<open>The header of each packet, and how many bytes follow it.\<close>

primrec packet_type :: "server_packet \<Rightarrow> ControlPacketType" where
  "packet_type (Send_ConnAck a) = ConnAck"
| "packet_type (Send_Publish b) = Publish"
| "packet_type (Send_PubAck k) = PubAck"
| "packet_type (Send_PubRec k) = PubRec"
| "packet_type (Send_PubRel k) = PubRel"
| "packet_type (Send_PubComp k) = PubComp"
| "packet_type (Send_SubAck b) = SubAck"
| "packet_type (Send_UnsubAck k) = UnsubAck"
| "packet_type Send_PingResp = PingResp"

definition packet_flags :: "server_packet \<Rightarrow> TypeFlags" where
  "packet_flags p = (case p of Send_Publish b \<Rightarrow> pb_flags b | _ \<Rightarrow> default_flags (packet_type p))"

lemma pkid_packet_framed:
  assumes "crates_ok d"
  shows "\<exists>n body. n \<le> max_remaining \<and> length body = n \<and> flags_ok t (default_flags t) \<and>
    pkid_packet t d k = frame_header t (default_flags t) n @ body"
  using assms by (intro exI [of _ 2] exI [of _ "zc_u16_as_bytes d k"]) (simp add: pkid_packet_def)

lemma packet_bytes_framed:
  assumes "crates_ok d" "packet_ok p"
  shows "\<exists>n body. n \<le> max_remaining \<and> length body = n \<and> flags_ok (packet_type p) (packet_flags p) \<and>
    packet_bytes d p = frame_header (packet_type p) (packet_flags p) n @ body"
proof (cases p)
  case (Send_Publish b)
  with assms length_pkid_bytes [OF assms(1), of "pb_pkid b"] show ?thesis
    by (intro exI [of _ "publish_size b"] exI [of _ "buff_bytes d (pb_topic b) @ pkid_bytes d (pb_pkid b) @ pb_payload b"])
      (simp add: packet_flags_def publish_packet_def publish_sendable_def publish_size_def)
next
  case (Send_SubAck b)
  with assms show ?thesis
    by (intro exI [of _ "2 + length (sab_return_codes b)"] exI [of _ "zc_u16_as_bytes d (sab_pkid b) @ map u8_from_SubAckCode (sab_return_codes b)"])
      (simp add: packet_flags_def suback_packet_def suback_ok_def)
next
  case Send_PingResp
  then show ?thesis by (intro exI [of _ 0] exI [of _ "[]"]) (simp add: packet_flags_def unit_packet_header)
next
  case (Send_ConnAck a)
  then show ?thesis
    by (intro exI [of _ 2] exI [of _ "ConnAck_as_bytes a"])
      (simp add: packet_flags_def connack_packet_def ConnAck_as_bytes_def)
qed (use pkid_packet_framed [OF assms(1)] in \<open>simp_all add: packet_flags_def\<close>)

lemma Packet_parse_bytes:
  assumes "crates_ok d" "packet_ok p"
  shows "Packet_parse d (packet_bytes d p @ rest) = Ok (packet_view p, rest)"
proof -
  obtain n body where "packet_bytes d p = frame_header (packet_type p) (packet_flags p) n @ body"
    and f: "flags_ok (packet_type p) (packet_flags p)"
    using packet_bytes_framed [OF assms] by blast
  then obtain bs where bs: "packet_bytes d p =
      encode_type_and_flags (packet_type p) (packet_flags p) # bs" by (simp add: frame_header_def)
  have t: "ControlPacketType_parse d (encode_type_and_flags (packet_type p) (packet_flags p)) =
      Ok (packet_type p, packet_flags p)" by (rule ControlPacketType_parse_encode [OF assms(1) f])
  note fold = bs [symmetric, THEN arg_cong [where f = "\<lambda>x. x @ rest"], unfolded append_Cons]
  show ?thesis
    unfolding bs append_Cons Packet_parse_Cons t and_then.simps prod.case
    unfolding fold
    using assms
    by (cases p) (simp_all add: connack.parse_enc publish.parse_enc puback.parse_enc pubrec.parse_enc
        pubrel.parse_enc pubcomp.parse_enc suback.parse_enc unsuback.parse_enc pingresp.parse_enc)
qed

interpretation packet: codec crates_ok Packet_parse packet_ok packet_bytes packet_view
proof unfold_locales
  fix d buf x rest
  assume d: "crates_ok d" and p: "Packet_parse d buf = Ok (x, rest)"
  then obtain b bs t f where buf: "buf = b # bs" and t: "ControlPacketType_parse d b = Ok (t, f)"
    by (cases buf) (auto simp: Packet_parse_Nil Packet_parse_Cons)
  have "(\<exists>y. ConnAck_parse d buf = Ok (y, rest)) \<or> (\<exists>y. Publish_parse d buf = Ok (y, rest)) \<or>
      (\<exists>y. PubAck_parse d buf = Ok (y, rest)) \<or> (\<exists>y. PubRec_parse d buf = Ok (y, rest)) \<or>
      (\<exists>y. PubRel_parse d buf = Ok (y, rest)) \<or> (\<exists>y. PubComp_parse d buf = Ok (y, rest)) \<or>
      (\<exists>y. SubAck_parse d buf = Ok (y, rest)) \<or> (\<exists>y. UnsubAck_parse d buf = Ok (y, rest)) \<or>
      (\<exists>y. PingResp_parse d buf = Ok (y, rest))"
    using p t by (cases t) (auto simp: buf Packet_parse_Cons)
  then show "\<exists>pre. pre \<noteq> [] \<and> buf = pre @ rest"
    by (elim disjE exE) (erule connack.parse_front [OF d] publish.parse_front [OF d]
      puback.parse_front [OF d] pubrec.parse_front [OF d] pubrel.parse_front [OF d]
      pubcomp.parse_front [OF d] suback.parse_front [OF d] unsuback.parse_front [OF d]
      pingresp.parse_front [OF d])+
qed (rule Packet_parse_bytes)

lemma packet_bytes_next_frame:
  assumes "crates_ok d" "packet_ok p"
  shows "FixedHeader_next_frame d (packet_bytes d p @ rest) = Ok (Some (length (packet_bytes d p)))"
proof -
  obtain n body where "n \<le> max_remaining" "length body = n"
    "packet_bytes d p = frame_header (packet_type p) (packet_flags p) n @ body"
    using packet_bytes_framed [OF assms] by blast
  then show ?thesis by (simp add: FixedHeader_next_frame_header)
qed

section \<open>Correctness\<close>

text \<open>C5: Whatever bytes arrive, parsing them as a packet returns a packet or an error: no slice index,
  no assertion, no \<open>unwrap\<close> and no arithmetic on the way panics. A packet that is returned was at
  the front of the buffer and took at least one byte.\<close>

theorem packet_parse_never_panics:
  assumes "crates_ok d"
  shows "Packet_parse d buf \<noteq> Panic \<and> Decode_consume (Packet_parse d) buf \<noteq> Panic \<and>
    (Packet_parse d buf = Ok (p, rest) \<longrightarrow> length rest < length buf \<and> (\<exists>pre. buf = pre @ rest))"
  using Packet_parse_no_Panic_aux [OF assms] packet.parse_shorter [OF assms] packet.parse_front [OF assms]
  by (simp add: Decode_consume_Panic_iff) blast

theorem packet_parse_never_panics_witness:
  "Packet_parse (std_crates True) [0x30, 0xFF, 0xFF, 0xFF, 0xFF] \<noteq> Panic"
  using packet_parse_never_panics [OF std_crates_ok] by blast

text \<open>C4: Every packet a server may send to the client, CONNACK, PUBLISH, the acknowledgements of
  publishing, SUBACK, UNSUBACK and PINGRESP, is recognised by its first byte and read back, and the
  framing announces exactly its length. Two of them never coincide on a prefix: packets sent back
  to back are told apart.\<close>

theorem packet_round_trip:
  assumes "crates_ok d" "packet_ok p"
  shows "Packet_parse d (packet_bytes d p @ rest) = Ok (packet_view p, rest) \<and>
    FixedHeader_next_frame d (packet_bytes d p @ rest) = Ok (Some (length (packet_bytes d p))) \<and>
    Decode_consume (Packet_parse d) (packet_bytes d p) = Ok (packet_view p) \<and>
    (packet_ok q \<and> packet_bytes d p @ rest = packet_bytes d q @ rest' \<longrightarrow>
       packet_view p = packet_view q \<and> rest = rest')"
  using packet.parse_enc [OF assms] packet_bytes_next_frame [OF assms] packet.consume_enc [OF assms]
    packet.enc_prefix_free [OF assms] by blast

theorem packet_round_trip_witness:
  "Packet_parse (std_crates True) [0x40, 2, 0, 10, 0xD0, 0] =
     Ok (packet_view (Send_PubAck 10), [0xD0, 0])"
proof -
  have "packet_bytes (std_crates True) (Send_PubAck 10) = [0x40, 2, 0, 10]" by code_simp
  with packet_round_trip [OF std_crates_ok, of "Send_PubAck 10" True "[0xD0, 0]"] show ?thesis by simp
qed

lemma no_filters_packet:
  assumes "crates_ok d" "(k :: u16) \<noteq> 0"
  shows "subscribe_ok d (SubscribeBuilder_new k [])" "unsubscribe_ok d (UnsubscribeBuilder_new k [])"
    and "subscribe_packet d (SubscribeBuilder_new k []) = [0x82, 2] @ zc_u16_as_bytes d k"
    and "unsubscribe_packet d (UnsubscribeBuilder_new k []) = [0xA2, 2] @ zc_u16_as_bytes d k"
proof -
  show "subscribe_ok d (SubscribeBuilder_new k [])" "unsubscribe_ok d (UnsubscribeBuilder_new k [])"
    using assms(2) by (simp_all add: subscribe_ok_def unsubscribe_ok_def SubscribeBuilder_new_def UnsubscribeBuilder_new_def)
  have "frame_header Subscribe (default_flags Subscribe) 2 = [0x82, 2]"
    "frame_header Unsubscribe (default_flags Unsubscribe) 2 = [0xA2, 2]" by code_simp+
  then show "subscribe_packet d (SubscribeBuilder_new k []) = [0x82, 2] @ zc_u16_as_bytes d k"
    "unsubscribe_packet d (UnsubscribeBuilder_new k []) = [0xA2, 2] @ zc_u16_as_bytes d k"
    by (simp_all add: subscribe_packet_def unsubscribe_packet_def filters_packet_def SubscribeBuilder_new_def
        UnsubscribeBuilder_new_def)
qed

text \<open>C19: A SUBSCRIBE and an UNSUBSCRIBE with permitted filters are written whole and read back by the
  peer, and iterating over the filters of the parsed packet yields exactly the filters of the
  builder, in order. This goes for a list without filters too, which the documentation of the UNSUBSCRIBE calls a
  protocol violation: nothing on either side refuses it, the packet consists of its header and identifier, and the peer
  gets no filter.\<close>

theorem subscription_round_trip:
  assumes "crates_ok d" "subscribe_ok d b" "unsubscribe_ok d u" "k \<noteq> 0"
  shows "(\<exists>p. emits (Subscribe_write_sync d b) (length (subscribe_packet d b)) (subscribe_packet d b) \<and>
      Subscribe_parse d (subscribe_packet d b @ rest) = Some (Ok (p, rest)) \<and>
      pkid (subscribe_pkid p) = sb_pkid b \<and>
      Subscribe_filters d p = Some (Ok (map filter_of (sb_filters b)))) \<and>
    (\<exists>p. emits (Unsubscribe_write_sync d u) (length (unsubscribe_packet d u)) (unsubscribe_packet d u) \<and>
      Unsubscribe_parse d (unsubscribe_packet d u @ rest) = Some (Ok (p, rest)) \<and>
      pkid (unsubscribe_pkid p) = ub_pkid u \<and>
      Unsubscribe_filters d p = Some (Ok (map str_of (ub_filters u)))) \<and>
    (\<exists>p. emits (Subscribe_write_sync d (SubscribeBuilder_new k [])) 4 ([0x82, 2] @ zc_u16_as_bytes d k) \<and>
      Subscribe_parse d ([0x82, 2] @ zc_u16_as_bytes d k @ rest) = Some (Ok (p, rest)) \<and>
      Subscribe_filters d p = Some (Ok [])) \<and>
    (\<exists>p. emits (Unsubscribe_write_sync d (UnsubscribeBuilder_new k [])) 4 ([0xA2, 2] @ zc_u16_as_bytes d k) \<and>
      Unsubscribe_parse d ([0xA2, 2] @ zc_u16_as_bytes d k @ rest) = Some (Ok (p, rest)) \<and>
      Unsubscribe_filters d p = Some (Ok []))"
proof -
  note none = no_filters_packet [OF assms(1,4)]
  have len: "length (zc_u16_as_bytes d k) = 2" using assms(1) by (simp add: zerocopy_laws)
  from subscribe_round_trip [OF assms(1) none(1), of rest] len
  have "\<exists>p. emits (Subscribe_write_sync d (SubscribeBuilder_new k [])) 4 ([0x82, 2] @ zc_u16_as_bytes d k) \<and>
      Subscribe_parse d ([0x82, 2] @ zc_u16_as_bytes d k @ rest) = Some (Ok (p, rest)) \<and>
      Subscribe_filters d p = Some (Ok [])" unfolding none(3) by (auto simp: SubscribeBuilder_new_def)
  moreover from unsubscribe_round_trip [OF assms(1) none(2), of rest] len
  have "\<exists>p. emits (Unsubscribe_write_sync d (UnsubscribeBuilder_new k [])) 4 ([0xA2, 2] @ zc_u16_as_bytes d k) \<and>
      Unsubscribe_parse d ([0xA2, 2] @ zc_u16_as_bytes d k @ rest) = Some (Ok (p, rest)) \<and>
      Unsubscribe_filters d p = Some (Ok [])" unfolding none(4) by (auto simp: UnsubscribeBuilder_new_def)
  ultimately show ?thesis
    using subscribe_round_trip [OF assms(1,2)] unsubscribe_round_trip [OF assms(1,3)] by blast
qed

definition sample_unsubscribe :: UnsubscribeBuilder where
  "sample_unsubscribe = UnsubscribeBuilder_new 10 [[0x61]]"

lemma sample_unsubscribe_ok: "unsubscribe_ok (std_crates True) sample_unsubscribe"
proof -
  have "mqtt_str_ok [0x61]" by code_simp
  then show ?thesis
    by (simp add: sample_unsubscribe_def unsubscribe_ok_def UnsubscribeBuilder_new_def topic_ok_def plain_level_def)
qed

theorem subscription_round_trip_witness:
  "\<exists>p q. Subscribe_parse (std_crates True) (subscribe_packet (std_crates True) sample_subscribe @ [1]) =
      Some (Ok (p, [1])) \<and>
    Subscribe_filters (std_crates True) p = Some (Ok (map filter_of (sb_filters sample_subscribe))) \<and>
    Unsubscribe_parse (std_crates True) (unsubscribe_packet (std_crates True) sample_unsubscribe @ [1]) =
      Some (Ok (q, [1])) \<and>
    Unsubscribe_filters (std_crates True) q = Some (Ok [str_of [0x61]])"
  using subscription_round_trip [OF std_crates_ok sample_subscribe_ok sample_unsubscribe_ok, of 10 "[1]"]
  by (auto simp: sample_unsubscribe_def UnsubscribeBuilder_new_def)

text \<open>C20: Parsing a SUBSCRIBE or an UNSUBSCRIBE ends on every buffer, the loop over its filters included,
  and a SUBSCRIBE with the right first byte does not panic. When it succeeded, the body is a
  sequence of encoded filters and nothing else, and the iterator over them, which panics on an
  invalid one, yields them all without panicking; the filters of an UNSUBSCRIBE obey the rule about
  wildcards.\<close>

theorem subscription_parse_sound:
  assumes "crates_ok d"
  shows "(\<exists>r. Subscribe_parse d buf = Some r) \<and> (\<exists>r. Unsubscribe_parse d buf = Some r) \<and>
    (ControlPacketType_parse d b = Ok (Subscribe, f) \<longrightarrow> Subscribe_parse d (b # bs) \<noteq> Some Panic) \<and>
    (Subscribe_parse d buf = Some (Ok (p, rest)) \<longrightarrow>
      (\<exists>h xs. framed h (zc_u16_as_bytes d (pkid (subscribe_pkid p)) @ subscribe_filters p) \<and>
        buf = header_bytes h @ zc_u16_as_bytes d (pkid (subscribe_pkid p)) @ subscribe_filters p @ rest \<and>
        pkid (subscribe_pkid p) \<noteq> 0 \<and> decodes (TopicFilter_parse d) (subscribe_filters p) xs \<and>
        Subscribe_filters d p = Some (Ok xs))) \<and>
    (Unsubscribe_parse d buf = Some (Ok (u, rest)) \<longrightarrow>
      (\<exists>xs. Unsubscribe_filters d u = Some (Ok xs) \<and> decodes (MqttStr_parse d) (unsubscribe_filters u) xs \<and>
        list_all (\<lambda>x. has_valid_wildcard d (MqttStr_as_str x)) xs \<and> pkid (unsubscribe_pkid u) \<noteq> 0))"
  using subscribe_parse_sound [OF assms, of buf b f bs p rest] unsubscribe_parse_sound [OF assms, of buf u rest]
  by blast

theorem subscription_parse_sound_witness:
  "\<exists>q xs. Unsubscribe_parse (std_crates True) [0xA2, 5, 0, 10, 0, 1, 0x61] = Some (Ok (q, [])) \<and>
    Unsubscribe_filters (std_crates True) q = Some (Ok xs)"
proof -
  have "unsubscribe_packet (std_crates True) sample_unsubscribe = [0xA2, 5, 0, 10, 0, 1, 0x61]" by code_simp
  with Unsubscribe_parse_packet [OF std_crates_ok sample_unsubscribe_ok, of "[]"] obtain q
    where q: "Unsubscribe_parse (std_crates True) [0xA2, 5, 0, 10, 0, 1, 0x61] = Some (Ok (q, []))" by auto
  with subscription_parse_sound [OF std_crates_ok, of True "[0xA2, 5, 0, 10, 0, 1, 0x61]" _ _ _ _ "[]" q]
  show ?thesis by blast
qed

end
