(* ===== verification/Display.thy ===== *)
theory Display
  imports Packets
begin

text \<open>
  The text the program prints: the \<open>Display\<close> instances of the errors, the parts of a packet and
  the packets. \<open>recv\<close> logs every packet it received with it. A text is the list of its UTF-8
  bytes as characters. What \<open>write!\<close> puts into the formatter is returned; code that can panic
  while it formats returns a result, and the loop over the filters of a packet may in principle
  not return.

  The \<open>Display\<close> of zerocopy's \<open>U16\<close> is a parameter \<open>z\<close>, and \<open>u16_display_ok z\<close> says what zerocopy
  documents, that it is the one of the native integer; the texts of \<open>std::io::ErrorKind\<close> are a
  parameter too.
\<close>

section \<open>Formatting of the standard library\<close>

definition digit :: "nat \<Rightarrow> char" where
  "digit n = char_of (48 + n)"

fun radix :: "nat \<Rightarrow> nat \<Rightarrow> string" where
  "radix b n = (if b < 2 \<or> n < b then [digit n] else radix b (n div b) @ [digit (n mod b)])"

declare radix.simps [simp del]

abbreviation dec :: "nat \<Rightarrow> string" where
  "dec \<equiv> radix 10"

definition zero_pad :: "nat \<Rightarrow> string \<Rightarrow> string" where
  "zero_pad w s = replicate (w - length s) (CHR ''0'') @ s"

definition bool_fmt :: "bool \<Rightarrow> string" where
  "bool_fmt b = (if b then ''true'' else ''false'')"

definition str_fmt :: "bytes \<Rightarrow> string" where
  "str_fmt bs = map (\<lambda>b. char_of (unat b)) bs"

definition u16_display_ok :: "(u16 \<Rightarrow> string) \<Rightarrow> bool" where
  "u16_display_ok z \<longleftrightarrow> (\<forall>x. z x = dec (unat x))"

section \<open>Errors\<close>

primrec ErrorKind_fmt :: "(io_error_kind \<Rightarrow> string) \<Rightarrow> ErrorKind \<Rightarrow> string" where
  "ErrorKind_fmt io OutOfRange = ''value is out of range''"
| "ErrorKind_fmt io NotEnoughSpace = ''not enough space''"
| "ErrorKind_fmt io Invalid = ''value is invalid''"
| "ErrorKind_fmt io Overflow = ''overflowed''"
| "ErrorKind_fmt io (StdIo k) = io k"

definition Error_fmt :: "(io_error_kind \<Rightarrow> string) \<Rightarrow> Error \<Rightarrow> string" where
  "Error_fmt io this = ErrorKind_fmt io (kind this) @ '' '' @ msg this"

section \<open>Parts of a packet\<close>

definition RemainingLength_fmt :: "crates \<Rightarrow> RemainingLength \<Rightarrow> string res" where
  "RemainingLength_fmt d this =
     and_then (RemainingLength_read d this) (\<lambda>n.
     Ok (''RemainingLength('' @ dec (unat n) @ '')''))"

definition ControlPacketType_fmt :: "ControlPacketType \<Rightarrow> string" where
  "ControlPacketType_fmt this =
     (case this of
        Connect \<Rightarrow> ''CONNECT(''
      | ConnAck \<Rightarrow> ''CONNACK(''
      | Publish \<Rightarrow> ''PUBLISH(''
      | PubAck \<Rightarrow> ''PUBACK(''
      | PubRec \<Rightarrow> ''PUBREC(''
      | PubRel \<Rightarrow> ''PUBREL(''
      | PubComp \<Rightarrow> ''PUBCOMP(''
      | Subscribe \<Rightarrow> ''SUBSCRIBE(''
      | SubAck \<Rightarrow> ''SUBACK(''
      | Unsubscribe \<Rightarrow> ''UNSUBSCRIBE(''
      | UnsubAck \<Rightarrow> ''UNSUBACK(''
      | PingReq \<Rightarrow> ''PINGREQ(''
      | PingResp \<Rightarrow> ''PINGRESP(''
      | Disconnect \<Rightarrow> ''DISCONNECT('') @
     dec (unat (u8_from_ControlPacketType this)) @ '')''"

definition TypeFlags_fmt :: "TypeFlags \<Rightarrow> string" where
  "TypeFlags_fmt this = zero_pad 4 (radix 2 (unat this))"

definition FixedHeader_fmt :: "crates \<Rightarrow> FixedHeader \<Rightarrow> string res" where
  "FixedHeader_fmt d this =
     and_then (FixedHeader_packet_type this) (\<lambda>packet_type.
     and_then (RemainingLength_fmt d (remaining_length this)) (\<lambda>rl.
     Ok (''FixedHeader['' @ ControlPacketType_fmt packet_type @ '', '' @
       TypeFlags_fmt (FixedHeader_flags this) @ '', '' @ rl @ '']'')))"

definition PacketId_fmt :: "(u16 \<Rightarrow> string) \<Rightarrow> PacketId \<Rightarrow> string" where
  "PacketId_fmt z this = ''PacketId('' @ z (pkid this) @ '')''"

definition MqttStr_fmt :: "MqttStr \<Rightarrow> string" where
  "MqttStr_fmt this = str_fmt (MqttStr_as_str this)"

primrec Qos_fmt :: "Qos \<Rightarrow> string" where
  "Qos_fmt AtMostOnce = ''QoS(0)''"
| "Qos_fmt AtLeastOnce = ''QoS(1)''"
| "Qos_fmt ExactlyOnce = ''QoS(2)''"

primrec RequestedQos_fmt :: "RequestedQos \<Rightarrow> string" where
  "RequestedQos_fmt Requested_AtMostOnce = ''QoS(0)''"
| "RequestedQos_fmt Requested_AtLeastOnce = ''QoS(1)''"
| "RequestedQos_fmt Requested_ExactlyOnce = ''QoS(2)''"

primrec PublishQos_fmt :: "PublishQos \<Rightarrow> string" where
  "PublishQos_fmt PublishQos_AtMostOnce = ''QoS(0) PkI''"
| "PublishQos_fmt (PublishQos_AtLeastOnce dup k) =
     ''QoS(1) Pkid('' @ dec (unat k) @ '') Dup('' @ bool_fmt dup @ '')''"
| "PublishQos_fmt (PublishQos_ExactlyOnce dup k) =
     ''QoS(2) Pkid('' @ dec (unat k) @ '') Dup('' @ bool_fmt dup @ '')''"

definition TopicFilter_fmt :: "TopicFilter \<Rightarrow> string" where
  "TopicFilter_fmt this = MqttStr_fmt (tf_topic this) @ '' '' @ RequestedQos_fmt (tf_qos this)"

definition ReturnCode_fmt :: "ReturnCode \<Rightarrow> string" where
  "ReturnCode_fmt this =
     (let code = u8_from_ReturnCode this in
      (case this of
         Accepted \<Rightarrow> ''connection accepted (''
       | ProtocolVersion \<Rightarrow> ''unacceptable protocol version (''
       | IdentifierRejected \<Rightarrow> ''identifier rejected (''
       | ServerUnavailable \<Rightarrow> ''server unavailable (''
       | BadUsernamePassword \<Rightarrow> ''bad user name or password (''
       | NotAuthorized \<Rightarrow> ''not authorized ('') @ dec (unat code) @ '')'')"

primrec SubAckCode_fmt :: "SubAckCode \<Rightarrow> string" where
  "SubAckCode_fmt Qos0 = ''qos0''"
| "SubAckCode_fmt Qos1 = ''qos1''"
| "SubAckCode_fmt Qos2 = ''qos2''"
| "SubAckCode_fmt Failure = ''failure''"

section \<open>Packets\<close>

definition PingReq_fmt :: "unit \<Rightarrow> string" where
  "PingReq_fmt this = ControlPacketType_fmt PingReq"

definition PingResp_fmt :: "unit \<Rightarrow> string" where
  "PingResp_fmt this = ControlPacketType_fmt PingResp"

definition PubAck_fmt :: "(u16 \<Rightarrow> string) \<Rightarrow> PubAck \<Rightarrow> string" where
  "PubAck_fmt z this = ControlPacketType_fmt PubAck @ '' pkid('' @ PacketId_fmt z (puback_pkid this) @ '')''"

definition PubRec_fmt :: "(u16 \<Rightarrow> string) \<Rightarrow> PubRec \<Rightarrow> string" where
  "PubRec_fmt z this = ControlPacketType_fmt PubRec @ '' pkid('' @ PacketId_fmt z (pubrec_pkid this) @ '')''"

definition PubRel_fmt :: "(u16 \<Rightarrow> string) \<Rightarrow> PubRel \<Rightarrow> string" where
  "PubRel_fmt z this = ControlPacketType_fmt PubRel @ '' pkid('' @ PacketId_fmt z (pubrel_pkid this) @ '')''"

definition PubComp_fmt :: "(u16 \<Rightarrow> string) \<Rightarrow> PubComp \<Rightarrow> string" where
  "PubComp_fmt z this = ControlPacketType_fmt PubComp @ '' pkid('' @ PacketId_fmt z (pubcomp_pkid this) @ '')''"

text \<open>The type printed here is the one of the source.\<close>

definition UnsubAck_fmt :: "(u16 \<Rightarrow> string) \<Rightarrow> UnsubAck \<Rightarrow> string" where
  "UnsubAck_fmt z this = ControlPacketType_fmt SubAck @ '' pkid('' @ PacketId_fmt z (unsuback_pkid this) @ '')''"

definition Publish_fmt :: "(u16 \<Rightarrow> string) \<Rightarrow> Publish \<Rightarrow> string" where
  "Publish_fmt z this =
     ControlPacketType_fmt Publish @ '' topic('' @ MqttStr_fmt (publish_topic this) @ '')'' @
     (case publish_packet_id this of None \<Rightarrow> '''' | Some k \<Rightarrow> '' '' @ PacketId_fmt z k) @
     '' payload('' @ dec (length (publish_payload this)) @ '' bytes)''"

definition ConnAck_fmt :: "crates \<Rightarrow> ConnAck \<Rightarrow> string" where
  "ConnAck_fmt d this =
     ControlPacketType_fmt ConnAck @ '' session('' @ bool_fmt (ConnAck_session_present d this) @ '') '' @
     ReturnCode_fmt (connack_return_code this)"

text \<open>The loop that prints the items of an iterator with a comma in between, over a slice and over
  the cursor of a packet.\<close>

definition comma_separated :: "('o \<Rightarrow> string) \<Rightarrow> 'o list \<Rightarrow> string" where
  "comma_separated fmt xs =
     (case xs of [] \<Rightarrow> '''' | i # iter \<Rightarrow> fmt i @ concat (map (\<lambda>i. '', '' @ fmt i) iter))"

definition comma_iter :: "'o nxt \<Rightarrow> ('o \<Rightarrow> string) \<Rightarrow> string \<Rightarrow> cursor \<Rightarrow> string res option" where
  "comma_iter nxt fmt out iter =
     (case nxt iter of
        Ok (None, _) \<Rightarrow> Some (Ok out)
      | Ok (Some i, iter) \<Rightarrow> cursor_try_fold nxt (\<lambda>out i. Ok (out @ '', '' @ fmt i)) (out @ fmt i) iter
      | Err e \<Rightarrow> Some (Err e)
      | Panic \<Rightarrow> Some Panic)"

definition SubAck_fmt :: "(u16 \<Rightarrow> string) \<Rightarrow> SubAck \<Rightarrow> string" where
  "SubAck_fmt z this =
     ControlPacketType_fmt SubAck @ '' pkid('' @ PacketId_fmt z (suback_pkid this) @ '') ('' @
     comma_separated SubAckCode_fmt (suback_return_codes this) @ '')''"

definition Subscribe_fmt :: "crates \<Rightarrow> (u16 \<Rightarrow> string) \<Rightarrow> Subscribe \<Rightarrow> string res option" where
  "Subscribe_fmt d z this =
     map_option (\<lambda>r. and_then r (\<lambda>out. Ok (out @ '']'')))
       (comma_iter (SubscriberCursor_next d) TopicFilter_fmt
         (ControlPacketType_fmt Subscribe @ '' pkid('' @ PacketId_fmt z (subscribe_pkid this) @ '') ['')
         \<lparr>cur_bytes = subscribe_filters this, cur_pos = 0\<rparr>)"

definition Unsubscribe_fmt :: "crates \<Rightarrow> (u16 \<Rightarrow> string) \<Rightarrow> Unsubscribe \<Rightarrow> string res option" where
  "Unsubscribe_fmt d z this =
     map_option (\<lambda>r. and_then r (\<lambda>out. Ok (out @ '']'')))
       (comma_iter (UnsubscribeCursor_next d) MqttStr_fmt
         (ControlPacketType_fmt Unsubscribe @ '' pkid('' @ PacketId_fmt z (unsubscribe_pkid this) @ '') ['')
         \<lparr>cur_bytes = unsubscribe_filters this, cur_pos = 0\<rparr>)"

primrec Packet_fmt :: "crates \<Rightarrow> (u16 \<Rightarrow> string) \<Rightarrow> Packet \<Rightarrow> string" where
  "Packet_fmt d z (Packet_ConnAck value) = ConnAck_fmt d value"
| "Packet_fmt d z (Packet_Publish value) = Publish_fmt z value"
| "Packet_fmt d z (Packet_PubAck value) = PubAck_fmt z value"
| "Packet_fmt d z (Packet_PubRec value) = PubRec_fmt z value"
| "Packet_fmt d z (Packet_PubRel value) = PubRel_fmt z value"
| "Packet_fmt d z (Packet_PubComp value) = PubComp_fmt z value"
| "Packet_fmt d z (Packet_SubAck value) = SubAck_fmt z value"
| "Packet_fmt d z (Packet_UnsubAck value) = UnsubAck_fmt z value"
| "Packet_fmt d z (Packet_PingResp value) = PingResp_fmt value"

section \<open>Reading a number back\<close>

definition undec :: "string \<Rightarrow> nat" where
  "undec s = foldl (\<lambda>n c. 10 * n + (of_char c - 48)) 0 s"

lemma of_char_digit: "n < 10 \<Longrightarrow> of_char (digit n) = 48 + n"
  by (simp add: digit_def)

lemma undec_dec [simp]: "undec (dec n) = n"
proof (induction n rule: less_induct)
  case (less n)
  show ?case
  proof (cases "n < 10")
    case True
    then show ?thesis by (simp add: radix.simps [of 10 n] undec_def of_char_digit)
  next
    case False
    then have "undec (dec (n div 10)) = n div 10" by (intro less.IH) simp
    moreover have "undec (dec n) = 10 * undec (dec (n div 10)) + n mod 10"
      using False by (simp add: radix.simps [of 10 n] undec_def of_char_digit)
    ultimately show ?thesis by simp
  qed
qed

lemma dec_inj [simp]: "dec m = dec n \<longleftrightarrow> m = n"
  by (metis undec_dec)

lemma digit_chars: "n < 10 \<Longrightarrow> digit n \<in> set ''0123456789''"
proof -
  have "\<forall>n \<in> set [0..<10]. digit n \<in> set ''0123456789''" by code_simp
  then show "n < 10 \<Longrightarrow> digit n \<in> set ''0123456789''" by simp
qed

lemma dec_chars: "set (dec n) \<subseteq> set ''0123456789''"
proof (induction n rule: less_induct)
  case (less n)
  show ?case
  proof (cases "n < 10")
    case True
    then show ?thesis using digit_chars [of n] by (simp add: radix.simps [of 10 n])
  next
    case False
    then have "n div 10 < n" by simp
    from less.IH [OF this] digit_chars [of "n mod 10"] False show ?thesis
      by (simp add: radix.simps [of 10 n])
  qed
qed

lemma dec_no_paren: "CHR '')'' \<notin> set (dec n)"
  using dec_chars [of n] by auto

section \<open>Texts that end at a parenthesis\<close>

lemma append_sep_eq_iff:
  "c \<notin> set xs \<Longrightarrow> c \<notin> set ys \<Longrightarrow> xs @ c # s = ys @ c # t \<longleftrightarrow> xs = ys \<and> s = t"
proof (induction xs arbitrary: ys)
  case Nil
  then show ?case by (cases ys) auto
next
  case (Cons x xs)
  then show ?case by (cases ys) auto
qed

text \<open>An identifier is read back out of its text, whatever follows it.\<close>

lemma PacketId_fmt_eq_iff:
  assumes "u16_display_ok z"
  shows "PacketId_fmt z p @ s = PacketId_fmt z q @ t \<longleftrightarrow> p = q \<and> s = t"
proof -
  have "PacketId_fmt z p @ s = PacketId_fmt z q @ t \<longleftrightarrow>
      dec (unat (pkid p)) @ CHR '')'' # s = dec (unat (pkid q)) @ CHR '')'' # t"
    using assms by (simp add: PacketId_fmt_def u16_display_ok_def)
  also have "\<dots> \<longleftrightarrow> p = q \<and> s = t"
    using PacketId.equality [of p q]
    by (auto simp: append_sep_eq_iff [OF dec_no_paren dec_no_paren] unsigned_word_eqI)
  finally show ?thesis .
qed

lemma comma_tail_inj:
  "concat (map (\<lambda>i. '', '' @ SubAckCode_fmt i) xs) @ '')'' = concat (map (\<lambda>i. '', '' @ SubAckCode_fmt i) ys) @ '')''
   \<Longrightarrow> xs = ys"
proof (induction xs arbitrary: ys)
  case Nil
  then show ?case by (cases ys) auto
next
  case (Cons x xs)
  then obtain y ys' where "ys = y # ys'" by (cases ys) auto
  with Cons show ?case by (cases x; cases y) auto
qed

lemma codes_fmt_inj:
  assumes "comma_separated SubAckCode_fmt xs @ '')'' = comma_separated SubAckCode_fmt ys @ '')''"
  shows "xs = ys"
proof (cases xs; cases ys)
  fix x xs' y ys'
  assume xs: "xs = x # xs'" "ys = y # ys'"
  then show ?thesis
    using assms comma_tail_inj [of xs' ys'] by (cases x; cases y) (auto simp: comma_separated_def)
next
  fix y ys' assume "xs = []" "ys = y # ys'"
  with assms show ?thesis by (cases y) (auto simp: comma_separated_def)
next
  fix x xs' assume "xs = x # xs'" "ys = []"
  with assms show ?thesis by (cases x) (auto simp: comma_separated_def)
qed simp

lemma ReturnCode_fmt_inj: "ReturnCode_fmt x = ReturnCode_fmt y \<Longrightarrow> x = y"
  by (cases x; cases y) (simp_all add: ReturnCode_fmt_def)

section \<open>Texts of received packets\<close>

lemma ControlPacketType_texts:
  "ControlPacketType_fmt ConnAck = ''CONNACK(2)''" "ControlPacketType_fmt Publish = ''PUBLISH(3)''"
  "ControlPacketType_fmt PubAck = ''PUBACK(4)''" "ControlPacketType_fmt PubRec = ''PUBREC(5)''"
  "ControlPacketType_fmt PubRel = ''PUBREL(6)''" "ControlPacketType_fmt PubComp = ''PUBCOMP(7)''"
  "ControlPacketType_fmt SubAck = ''SUBACK(9)''" "ControlPacketType_fmt UnsubAck = ''UNSUBACK(11)''"
  "ControlPacketType_fmt PingResp = ''PINGRESP(13)''" "ControlPacketType_fmt Subscribe = ''SUBSCRIBE(8)''"
  "ControlPacketType_fmt Unsubscribe = ''UNSUBSCRIBE(10)''"
  by code_simp+

lemma ControlPacketType_fmt_inj: "ControlPacketType_fmt s = ControlPacketType_fmt t \<longleftrightarrow> s = t"
  by (cases s; cases t) (simp_all add: ControlPacketType_fmt_def)

lemmas packet_fmt_defs =
  ConnAck_fmt_def Publish_fmt_def PubAck_fmt_def PubRec_fmt_def PubRel_fmt_def PubComp_fmt_def
  SubAck_fmt_def UnsubAck_fmt_def PingResp_fmt_def ControlPacketType_texts

text \<open>What a text says of a packet: everything but the reserved bits of a CONNACK; of a PUBLISH only
  its type is claimed, since the topic may hold any characters and the payload is not printed.\<close>

definition same_but_hidden :: "crates \<Rightarrow> Packet \<Rightarrow> Packet \<Rightarrow> bool" where
  "same_but_hidden d p q \<longleftrightarrow>
     (case (p, q) of
        (Packet_ConnAck a, Packet_ConnAck b) \<Rightarrow>
          ConnAck_session_present d a = ConnAck_session_present d b \<and>
          connack_return_code a = connack_return_code b
      | (Packet_Publish a, Packet_Publish b) \<Rightarrow> True
      | _ \<Rightarrow> p = q)"

lemma ConnAck_fmt_tells:
  "ConnAck_fmt d a = ConnAck_fmt d b \<Longrightarrow>
   ConnAck_session_present d a = ConnAck_session_present d b \<and> connack_return_code a = connack_return_code b"
  using ReturnCode_fmt_inj by (auto simp: ConnAck_fmt_def bool_fmt_def split: if_splits)

lemma SubAck_fmt_tells:
  assumes "u16_display_ok z" "SubAck_fmt z a = SubAck_fmt z b"
  shows "a = b"
  using assms(2) codes_fmt_inj
  by (auto simp: SubAck_fmt_def PacketId_fmt_eq_iff [OF assms(1)] intro!: SubAck.equality)

lemma SubAck_fmt_prefix:
  "SubAck_fmt z a = UnsubAck_fmt z \<lparr>unsuback_pkid = suback_pkid a\<rparr> @
     '' ('' @ comma_separated SubAckCode_fmt (suback_return_codes a) @ '')''"
  by (simp add: SubAck_fmt_def UnsubAck_fmt_def)

lemma SubAck_fmt_UnsubAck:
  assumes "u16_display_ok z"
  shows "SubAck_fmt z a \<noteq> UnsubAck_fmt z b"
  by (simp add: SubAck_fmt_def UnsubAck_fmt_def PacketId_fmt_eq_iff [OF assms])

lemma PacketId_fmt_inj: "u16_display_ok z \<Longrightarrow> PacketId_fmt z p = PacketId_fmt z q \<Longrightarrow> p = q"
  using PacketId_fmt_eq_iff [of z p "[]" q "[]"] by simp

lemma pkid_fmt_tells:
  assumes "u16_display_ok z"
  shows "PubAck_fmt z a1 = PubAck_fmt z b1 \<Longrightarrow> a1 = b1" and "PubRec_fmt z a2 = PubRec_fmt z b2 \<Longrightarrow> a2 = b2"
    and "PubRel_fmt z a3 = PubRel_fmt z b3 \<Longrightarrow> a3 = b3" and "PubComp_fmt z a4 = PubComp_fmt z b4 \<Longrightarrow> a4 = b4"
    and "UnsubAck_fmt z a5 = UnsubAck_fmt z b5 \<Longrightarrow> a5 = b5"
  using PacketId_fmt_inj [OF assms]
  by (auto simp: PubAck_fmt_def PubRec_fmt_def PubRel_fmt_def PubComp_fmt_def UnsubAck_fmt_def
      intro!: PubAck.equality PubRec.equality PubRel.equality PubComp.equality UnsubAck.equality)

lemma Packet_fmt_name:
  "takeWhile (\<lambda>c. c \<noteq> CHR ''('') (Packet_fmt d z p) =
     (case p of
        Packet_ConnAck _ \<Rightarrow> ''CONNACK'' | Packet_Publish _ \<Rightarrow> ''PUBLISH''
      | Packet_PubAck _ \<Rightarrow> ''PUBACK'' | Packet_PubRec _ \<Rightarrow> ''PUBREC'' | Packet_PubRel _ \<Rightarrow> ''PUBREL''
      | Packet_PubComp _ \<Rightarrow> ''PUBCOMP'' | Packet_SubAck _ \<Rightarrow> ''SUBACK'' | Packet_UnsubAck _ \<Rightarrow> ''SUBACK''
      | Packet_PingResp _ \<Rightarrow> ''PINGRESP'')"
  by (cases p) (simp_all add: packet_fmt_defs)

lemma Packet_fmt_tells:
  assumes z: "u16_display_ok z" and eq: "Packet_fmt d z p = Packet_fmt d z q"
  shows "same_but_hidden d p q"
proof -
  note name = arg_cong [OF eq, of "takeWhile (\<lambda>c. c \<noteq> CHR ''('')", unfolded Packet_fmt_name]
  note tells = ConnAck_fmt_tells pkid_fmt_tells [OF z] SubAck_fmt_tells [OF z]
  note differ = SubAck_fmt_UnsubAck [OF z] SubAck_fmt_UnsubAck [OF z, symmetric]
  from name eq show ?thesis
    by (cases p; cases q; simp add: same_but_hidden_def differ; blast dest: tells)
qed

text \<open>C24: The text that \<open>recv\<close> logs tells received packets apart: two packets with the same text have the
  same type and, unless they are PUBLISH packets, carry the same identifier, return codes and
  session flag. The type an UNSUBACK is printed with is wrong, though: its text is the beginning of
  the text of a SUBACK with the same identifier, and never the beginning of a text that names
  UNSUBACK.\<close>

theorem packet_display_tells_apart:
  assumes "u16_display_ok z"
  shows "(Packet_fmt d z p = Packet_fmt d z q \<longrightarrow> same_but_hidden d p q) \<and>
    strict_prefix (Packet_fmt d z (Packet_UnsubAck u))
      (Packet_fmt d z (Packet_SubAck \<lparr>suback_pkid = unsuback_pkid u, suback_return_codes = cs\<rparr>)) \<and>
    \<not> prefix (ControlPacketType_fmt UnsubAck) (Packet_fmt d z (Packet_UnsubAck u))"
proof (intro conjI impI)
  show "same_but_hidden d p q" if "Packet_fmt d z p = Packet_fmt d z q"
    by (rule Packet_fmt_tells [OF assms that])
  show "strict_prefix (Packet_fmt d z (Packet_UnsubAck u))
      (Packet_fmt d z (Packet_SubAck \<lparr>suback_pkid = unsuback_pkid u, suback_return_codes = cs\<rparr>))"
    by (cases u) (simp add: SubAck_fmt_prefix strict_prefix_def)
  show "\<not> prefix (ControlPacketType_fmt UnsubAck) (Packet_fmt d z (Packet_UnsubAck u))"
    by (simp add: packet_fmt_defs)
qed

lemma u16_display_native: "u16_display_ok (\<lambda>x. dec (unat x))"
  by (simp add: u16_display_ok_def)

theorem packet_display_tells_apart_witness:
  "same_but_hidden (std_crates True) (Packet_ConnAck \<lparr>connack_flags = 3, connack_return_code = Accepted\<rparr>)
      (Packet_ConnAck \<lparr>connack_flags = 1, connack_return_code = Accepted\<rparr>) \<and>
   strict_prefix (Packet_fmt (std_crates True) (\<lambda>x. dec (unat x)) (Packet_UnsubAck \<lparr>unsuback_pkid = \<lparr>pkid = 5\<rparr>\<rparr>))
     ''SUBACK(9) pkid(PacketId(5)) (qos1, failure)''"
proof -
  have "Packet_fmt (std_crates True) (\<lambda>x. dec (unat x)) (Packet_ConnAck \<lparr>connack_flags = 3, connack_return_code = Accepted\<rparr>) =
      Packet_fmt (std_crates True) (\<lambda>x. dec (unat x)) (Packet_ConnAck \<lparr>connack_flags = 1, connack_return_code = Accepted\<rparr>)"
    by code_simp
  moreover have "Packet_fmt (std_crates True) (\<lambda>x. dec (unat x))
      (Packet_SubAck \<lparr>suback_pkid = unsuback_pkid \<lparr>unsuback_pkid = \<lparr>pkid = 5\<rparr>\<rparr>, suback_return_codes = [Qos1, Failure]\<rparr>) =
      ''SUBACK(9) pkid(PacketId(5)) (qos1, failure)''" by code_simp
  ultimately show ?thesis
    using packet_display_tells_apart [OF u16_display_native, of "std_crates True"
        "Packet_ConnAck \<lparr>connack_flags = 3, connack_return_code = Accepted\<rparr>"
        "Packet_ConnAck \<lparr>connack_flags = 1, connack_return_code = Accepted\<rparr>"
        "\<lparr>unsuback_pkid = \<lparr>pkid = 5\<rparr>\<rparr>" "[Qos1, Failure]"]
    by simp
qed

section \<open>Printing what was parsed\<close>

lemma try_fold_commas:
  "try_fold (\<lambda>out i. Ok (out @ '', '' @ fmt i)) out xs = Ok (out @ concat (map (\<lambda>i. '', '' @ fmt i) xs))"
  by (induction xs arbitrary: out) simp_all

context decoder
begin

text \<open>Over a sequence of encoded elements the loop prints all of them, and the panicking cursor does
  not panic.\<close>

lemma comma_iter_decodes:
  assumes "lawful d" "length bs \<le> usize_max" "decodes (parse d) bs xs"
  shows "comma_iter (\<lambda>c. cursor_expect (cursor_read dbg (parse d)) c) fmt out \<lparr>cur_bytes = bs, cur_pos = 0\<rparr> =
    Some (Ok (out @ comma_separated fmt xs))"
proof (cases xs)
  case Nil
  with assms(3) have "bs = []" by (simp add: decodes_Nil_right)
  with Nil show ?thesis
    by (simp add: comma_iter_def cursor_expect_def cursor_read_end comma_separated_def)
next
  case (Cons x ys)
  with assms(3) obtain rest where x: "bs \<noteq> []" "parse d bs = Ok (x, rest)" "decodes (parse d) rest ys"
    by (auto simp: decodes_Cons_right)
  from x(2) have "parse d (drop 0 bs) = Ok (x, rest)" by simp
  note after = drop_after [OF assms(1) this]
  have first: "cursor_read dbg (parse d) \<lparr>cur_bytes = bs, cur_pos = 0\<rparr> =
      Ok (Some x, \<lparr>cur_bytes = bs, cur_pos = length bs - length rest\<rparr>)"
    using cursor_read_step [OF assms(1), of "\<lparr>cur_bytes = bs, cur_pos = 0\<rparr>"] assms(2) x(1,2) by simp
  have "cursor_try_fold (cursor_read dbg (parse d)) (\<lambda>out i. Ok (out @ '', '' @ fmt i)) (out @ fmt x)
      \<lparr>cur_bytes = bs, cur_pos = length bs - length rest\<rparr> =
      Some (Ok (out @ fmt x @ concat (map (\<lambda>i. '', '' @ fmt i) ys)))"
    using cursor_try_fold_decodes [OF assms(1,2), of "length bs - length rest" ys dbg
        "\<lambda>out i. Ok (out @ '', '' @ fmt i)" "out @ fmt x"] after x(3)
    by (simp add: try_fold_commas [simplified])
  from cursor_try_fold_expect [OF this] first Cons show ?thesis
    by (simp add: comma_iter_def cursor_expect_Ok comma_separated_def)
qed

end

lemma FixedHeader_fmt_parsed:
  assumes "crates_ok d" "FixedHeaderSlice_parse d buf = Ok (h, rest)"
  shows "\<exists>t. FixedHeader_packet_type h = Ok t \<and>
    FixedHeader_fmt d h = Ok (''FixedHeader['' @ ControlPacketType_fmt t @ '', '' @
      TypeFlags_fmt (FixedHeader_flags h) @ '', RemainingLength('' @
      dec (rl_value (rl_len (remaining_length h))) @ '')]'')"
proof -
  from assms(2) obtain t f where t: "flags_ok t f" "type_and_flags h = encode_type_and_flags t f"
    and "rl_wf (rl_len (remaining_length h))" by (auto simp: FixedHeaderSlice_parse_iff [OF assms(1)])
  then have "length (rl_len (remaining_length h)) \<le> 4" by (simp add: rl_wf_def)
  from read_from_buf_value [OF this, of d] t show ?thesis
    by (auto simp: FixedHeader_fmt_def RemainingLength_fmt_def RemainingLength_read_eq)
qed

lemma FixedHeader_fmt_reserved:
  "drop_bit 4 (type_and_flags h) \<in> {0, 15} \<Longrightarrow> FixedHeader_fmt d h = Panic"
  by (auto simp: FixedHeader_fmt_def FixedHeader_packet_type_def ControlPacketType_try_from_def)

lemma Subscribe_fmt_parsed:
  assumes "crates_ok d" "Subscribe_parse d buf = Some (Ok (s, rest))"
  shows "\<exists>xs. Subscribe_filters d s = Some (Ok xs) \<and>
    Subscribe_fmt d z s = Some (Ok (''SUBSCRIBE(8) pkid('' @ PacketId_fmt z (subscribe_pkid s) @ '') ['' @
      comma_separated TopicFilter_fmt xs @ '']''))"
proof -
  note ok = Subscribe_parse_Ok [OF assms]
  obtain xs where xs: "decodes (TopicFilter_parse d) (subscribe_filters s) xs" using ok(2) by blast
  have l: "length (subscribe_filters s) \<le> usize_max"
    using filters_parse_Ok(3) [OF assms(1) ok(1)] by (simp add: usize_max_def)
  from topic_filter.comma_iter_decodes [OF assms(1) l xs] Subscribe_filters_decodes [OF assms(1) l xs]
  show ?thesis
    by (simp add: Subscribe_fmt_def SubscriberCursor_next_def [abs_def] RawSubscribeCursor_read_eq
        ControlPacketType_texts)
qed

lemma Unsubscribe_fmt_parsed:
  assumes "crates_ok d" "Unsubscribe_parse d buf = Some (Ok (u, rest))"
  shows "\<exists>xs. Unsubscribe_filters d u = Some (Ok xs) \<and>
    Unsubscribe_fmt d z u = Some (Ok (''UNSUBSCRIBE(10) pkid('' @ PacketId_fmt z (unsubscribe_pkid u) @ '') ['' @
      comma_separated MqttStr_fmt xs @ '']''))"
proof -
  note ok = Unsubscribe_parse_Ok [OF assms]
  obtain xs where xs: "decodes (MqttStr_parse d) (unsubscribe_filters u) xs" using ok(2) by blast
  have l: "length (unsubscribe_filters u) \<le> usize_max"
    using filters_parse_Ok(3) [OF assms(1) ok(1)] by (simp add: usize_max_def)
  from decoder.comma_iter_decodes [OF mqtt_str.decoder_axioms assms(1) l xs]
    Unsubscribe_filters_decodes [OF assms(1) l xs]
  show ?thesis
    by (simp add: Unsubscribe_fmt_def UnsubscribeCursor_next_def [abs_def] RawUnsubscribeCursor_read_eq
        ControlPacketType_texts)
qed

text \<open>C28: What was parsed can be printed. The text of a parsed fixed header is its type, its flags
  and its remaining length; the text of a parsed SUBSCRIBE or UNSUBSCRIBE is its identifier and the list of
  its filters. None of them panics and the loop over the filters ends. The reserved packet types 0 and 15,
  which no parsed header has, make the text of a header panic.\<close>

theorem display_of_parsed:
  assumes "crates_ok d"
  shows "(FixedHeaderSlice_parse d buf = Ok (h, rest) \<longrightarrow>
      (\<exists>t. FixedHeader_packet_type h = Ok t \<and>
        FixedHeader_fmt d h = Ok (''FixedHeader['' @ ControlPacketType_fmt t @ '', '' @
          TypeFlags_fmt (FixedHeader_flags h) @ '', RemainingLength('' @
          dec (rl_value (rl_len (remaining_length h))) @ '')]''))) \<and>
    (Subscribe_parse d buf = Some (Ok (s, rest)) \<longrightarrow>
      (\<exists>xs. Subscribe_filters d s = Some (Ok xs) \<and>
        Subscribe_fmt d z s = Some (Ok (''SUBSCRIBE(8) pkid('' @ PacketId_fmt z (subscribe_pkid s) @ '') ['' @
          comma_separated TopicFilter_fmt xs @ '']'')))) \<and>
    (Unsubscribe_parse d buf = Some (Ok (u, rest)) \<longrightarrow>
      (\<exists>xs. Unsubscribe_filters d u = Some (Ok xs) \<and>
        Unsubscribe_fmt d z u = Some (Ok (''UNSUBSCRIBE(10) pkid('' @ PacketId_fmt z (unsubscribe_pkid u) @
          '') ['' @ comma_separated MqttStr_fmt xs @ '']'')))) \<and>
    (drop_bit 4 (type_and_flags g) \<in> {0, 15} \<longrightarrow> FixedHeader_fmt d g = Panic)"
  using FixedHeader_fmt_parsed [OF assms] Subscribe_fmt_parsed [OF assms] Unsubscribe_fmt_parsed [OF assms]
    FixedHeader_fmt_reserved by blast

theorem display_of_parsed_witness:
  "\<exists>s xs. Subscribe_parse (std_crates True) (subscribe_packet (std_crates True) sample_subscribe) = Some (Ok (s, [])) \<and>
    Subscribe_filters (std_crates True) s = Some (Ok xs) \<and>
    Subscribe_fmt (std_crates True) (\<lambda>x. dec (unat x)) s =
      Some (Ok (''SUBSCRIBE(8) pkid('' @ PacketId_fmt (\<lambda>x. dec (unat x)) (subscribe_pkid s) @ '') ['' @
        comma_separated TopicFilter_fmt xs @ '']''))"
proof -
  obtain s where s: "Subscribe_parse (std_crates True) (subscribe_packet (std_crates True) sample_subscribe) =
      Some (Ok (s, []))"
    using Subscribe_parse_packet [OF std_crates_ok sample_subscribe_ok, of "[]"] by auto
  with display_of_parsed [OF std_crates_ok, of True "subscribe_packet (std_crates True) sample_subscribe" _ "[]" s
      "\<lambda>x. dec (unat x)"] show ?thesis by blast
qed

end
