(* ===== verification/Debug.thy ===== *)
theory Debug
  imports Display Connect_Packet
begin

text \<open>
  The \<open>Debug\<close> texts of a CONNECT and its parts: the instances written by hand (\<open>Connect\<close> in
  \<open>connect/mod.rs\<close>, \<open>Buff\<close> and \<open>MqttStr\<close>), and the derived ones they use. The hand-written
  one of \<open>Connect\<close> exists to keep the password out of the logs. The text of a \<open>str\<close> (which
  escapes characters by tables of the Unicode version) and of zerocopy's \<open>U16\<close> are parameters.
\<close>

section \<open>Formatting of the standard library\<close>

record debug_texts =
  str_debug :: "bytes \<Rightarrow> string"
  u16_debug :: "u16 \<Rightarrow> string"

definition hex_digit :: "nat \<Rightarrow> char" where
  "hex_digit n = char_of (if n < 10 then 48 + n else 87 + n)"

fun hex :: "nat \<Rightarrow> string" where
  "hex n = (if n < 16 then [hex_digit n] else hex (n div 16) @ [hex_digit (n mod 16)])"

declare hex.simps [simp del]

definition debug_struct :: "string \<Rightarrow> (string \<times> string) list \<Rightarrow> string" where
  "debug_struct name fs =
     (if fs = [] then name
      else name @ '' { '' @ comma_separated (\<lambda>(field, text). field @ '': '' @ text) fs @ '' }'')"

definition debug_tuple :: "string \<Rightarrow> string list \<Rightarrow> string" where
  "debug_tuple name fs = name @ ''('' @ comma_separated (\<lambda>text. text) fs @ '')''"

definition debug_slice :: "('a \<Rightarrow> string) \<Rightarrow> 'a list \<Rightarrow> string" where
  "debug_slice fmt xs = ''['' @ comma_separated fmt xs @ '']''"

definition debug_option :: "('a \<Rightarrow> string) \<Rightarrow> 'a option \<Rightarrow> string" where
  "debug_option fmt x = (case x of None \<Rightarrow> ''None'' | Some v \<Rightarrow> debug_tuple ''Some'' [fmt v])"

abbreviation u8_debug :: "u8 \<Rightarrow> string" where
  "u8_debug b \<equiv> dec (unat b)"

section \<open>The instances\<close>

definition MqttStr_debug :: "debug_texts \<Rightarrow> MqttStr \<Rightarrow> string" where
  "MqttStr_debug t this = str_debug t (MqttStr_as_str this)"

definition Buff_debug :: "debug_texts \<Rightarrow> Buff \<Rightarrow> string" where
  "Buff_debug t this =
     debug_struct ''Buff''
       [(''len'', u16_debug t (buff_len this)),
        (''data'', debug_slice (\<lambda>b. zero_pad 2 (hex (unat b))) (buff_data this))]"

definition RemainingLength_debug :: "RemainingLength \<Rightarrow> string" where
  "RemainingLength_debug this = debug_struct ''RemainingLength'' [(''len'', debug_slice u8_debug (rl_len this))]"

definition FixedHeader_debug :: "FixedHeader \<Rightarrow> string" where
  "FixedHeader_debug this =
     debug_struct ''FixedHeader''
       [(''type_and_flags'', u8_debug (type_and_flags this)),
        (''remaining_length'', RemainingLength_debug (remaining_length this))]"

definition ConnectFlags_debug :: "ConnectFlags \<Rightarrow> string" where
  "ConnectFlags_debug this = debug_tuple ''ConnectFlags'' [u8_debug this]"

definition KeepAlive_debug :: "debug_texts \<Rightarrow> KeepAlive \<Rightarrow> string" where
  "KeepAlive_debug t this = debug_struct ''KeepAlive'' [(''seconds'', u16_debug t (seconds this))]"

definition ConnectHeader_debug :: "debug_texts \<Rightarrow> ConnectHeader \<Rightarrow> string" where
  "ConnectHeader_debug t this =
     debug_struct ''ConnectHeader''
       [(''protocol_name'', debug_slice u8_debug (protocol_name this)),
        (''protocol_level'', u8_debug (protocol_level this)),
        (''flags'', ConnectFlags_debug (ch_flags this)),
        (''keep_alive'', KeepAlive_debug t (keep_alive this))]"

definition ClientId_debug :: "debug_texts \<Rightarrow> MqttStr \<Rightarrow> string" where
  "ClientId_debug t this = debug_tuple ''ClientId'' [MqttStr_debug t this]"

definition WillMsg_debug :: "debug_texts \<Rightarrow> WillMsg \<Rightarrow> string" where
  "WillMsg_debug t this =
     debug_struct ''WillMsg''
       [(''topic'', MqttStr_debug t (wm_topic this)), (''message'', Buff_debug t (wm_message this))]"

text \<open>The password is replaced by the text of the string literal \<open>"..."\<close>.\<close>

definition Connect_debug :: "debug_texts \<Rightarrow> Connect \<Rightarrow> string" where
  "Connect_debug t this =
     debug_struct ''Connect''
       [(''fixed'', FixedHeader_debug (connect_fixed this)),
        (''variable_header'', ConnectHeader_debug t (connect_header this)),
        (''client_id'', ClientId_debug t (connect_client_id this)),
        (''will'', debug_option (WillMsg_debug t) (connect_will this)),
        (''username'', debug_option (MqttStr_debug t) (connect_username this)),
        (''password'', debug_option (\<lambda>_. str_debug t (str_literal ''...'')) (connect_password this))]"

section \<open>Lists that can be read back\<close>

lemma comma_tail_inject:
  assumes "inj fmt" "\<And>x. CHR '','' \<notin> set (fmt x)"
  shows "concat (map (\<lambda>i. '', '' @ fmt i) xs) = concat (map (\<lambda>i. '', '' @ fmt i) ys) \<longleftrightarrow> xs = ys"
proof (induction xs arbitrary: ys)
  case Nil
  then show ?case by (cases ys) auto
next
  case (Cons x xs)
  show ?case
  proof (cases ys)
    case (Cons y ys')
    let ?t = "\<lambda>zs. concat (map (\<lambda>i. '', '' @ fmt i) zs)"
    have first: "takeWhile (\<lambda>c. c \<noteq> CHR '','') (fmt z @ ?t zs) = fmt z" for z zs
    proof -
      have "\<forall>c \<in> set (fmt z). c \<noteq> CHR '',''" using assms(2) by metis
      then have "takeWhile (\<lambda>c. c \<noteq> CHR '','') (fmt z @ ?t zs) = fmt z @ takeWhile (\<lambda>c. c \<noteq> CHR '','') (?t zs)"
        by (intro takeWhile_append2) blast
      then show ?thesis by (cases zs) simp_all
    qed
    have "x = y \<and> xs = ys'" if eq: "fmt x @ ?t xs = fmt y @ ?t ys'"
    proof -
      have "fmt x = fmt y" using first [of x xs] first [of y ys'] by (simp only: eq)
      with eq Cons.IH [of ys'] injD [OF assms(1)] show ?thesis by simp
    qed
    then have "fmt x @ ?t xs = fmt y @ ?t ys' \<longleftrightarrow> x = y \<and> xs = ys'" by blast
    then show ?thesis by (simp add: Cons)
  qed simp
qed

lemma comma_separated_inject:
  assumes "inj fmt" "\<And>x. CHR '','' \<notin> set (fmt x)" "\<And>x. fmt x \<noteq> ''''"
  shows "comma_separated fmt xs = comma_separated fmt ys \<longleftrightarrow> xs = ys"
proof -
  have tail: "(if zs = [] then [] else '', '' @ comma_separated fmt zs) = concat (map (\<lambda>i. '', '' @ fmt i) zs)" for zs
    by (cases zs) (simp_all add: comma_separated_def)
  have "comma_separated fmt xs = comma_separated fmt ys \<longleftrightarrow>
      (if xs = [] then [] else '', '' @ comma_separated fmt xs) =
      (if ys = [] then [] else '', '' @ comma_separated fmt ys)"
    using assms(3) by (cases xs; cases ys) (auto simp: comma_separated_def)
  then show ?thesis by (simp only: tail comma_tail_inject [OF assms(1,2)])
qed

lemma u8_slice_inject: "debug_slice u8_debug xs = debug_slice u8_debug ys \<longleftrightarrow> xs = ys"
proof -
  have "CHR '','' \<notin> set (u8_debug b)" "u8_debug b \<noteq> ''''" for b
    using dec_chars [of "unat b"] by (auto, subst (asm) radix.simps, simp split: if_splits)
  moreover have "inj u8_debug" by (rule injI) (simp add: word_unat_eq_iff)
  ultimately show ?thesis by (simp add: debug_slice_def comma_separated_inject)
qed

section \<open>Correctness\<close>

text \<open>C26: What the \<open>Debug\<close> text of a CONNECT tells about the password. Of two packets a client sent
  that differ in nothing but the password, the peer prints the same text exactly when the passwords have
  the same length: the bytes of the password never show, its length does, through the
  remaining length of the header.\<close>

theorem connect_debug_password:
  assumes "crates_ok d" "connect_sendable d b" "connect_flags_ok b" "client_id_ok (cb_client_id b)"
    and "cb_password b = Some p" "length q \<le> 65535"
  shows "\<exists>k k'. Connect_parse d (connect_packet d b) = Ok (k, []) \<and>
    Connect_parse d (connect_packet d (b\<lparr>cb_password := Some q\<rparr>)) = Ok (k', []) \<and>
    map_option buff_data (connect_password k) = Some p \<and> map_option buff_data (connect_password k') = Some q \<and>
    (Connect_debug t k = Connect_debug t k' \<longleftrightarrow> length p = length q)"
proof -
  let ?b = "b\<lparr>cb_password := Some q\<rparr>"
  let ?n = "length (connect_body d b)" and ?m = "length (connect_body d ?b)"
  have b: "connect_sendable d ?b" "connect_flags_ok ?b" "client_id_ok (cb_client_id ?b)"
    using assms(2-6) by (simp_all add: connect_sendable_def connect_flags_ok_def)
  have sizes: "?n \<le> max_remaining" "?m \<le> max_remaining"
    using connect_body_bound(2) [OF assms(1)] assms(2) b(1) by blast+
  have lens: "?n + length q = ?m + length p"
    using assms(1,5) by (simp add: connect_body_def connect_payload_def opt_bytes_def header_of_builder_def
        ConnectHeader_as_bytes_def)
  have "rl_bytes (word_of_nat ?n) = rl_bytes (word_of_nat ?m) \<longleftrightarrow> ?n = ?m"
    using rl_value_rl_bytes [OF word_of_remaining(1) [OF sizes(1)]] rl_value_rl_bytes [OF word_of_remaining(1) [OF sizes(2)]]
      word_of_remaining(2) [OF sizes(1)] word_of_remaining(2) [OF sizes(2)] by metis
  then have same: "Connect_debug t (connect_of d b) = Connect_debug t (connect_of d ?b) \<longleftrightarrow> ?n = ?m"
    using assms(5) u8_slice_inject [of "rl_bytes (word_of_nat ?n)" "rl_bytes (word_of_nat ?m)"]
    by (simp add: Connect_debug_def connect_of_def header_of_builder_def debug_struct_def comma_separated_def
        debug_option_def FixedHeader_debug_def RemainingLength_debug_def header_of_def)
  have "Connect_debug t (connect_of d b) = Connect_debug t (connect_of d ?b) \<longleftrightarrow> length p = length q"
    using same lens by linarith
  moreover have "map_option buff_data (connect_password (connect_of d b)) = Some p"
    "map_option buff_data (connect_password (connect_of d ?b)) = Some q"
    using assms(5) by (simp_all add: connect_of_def)
  moreover have "Connect_parse d (connect_packet d b) = Ok (connect_of d b, [])"
    "Connect_parse d (connect_packet d ?b) = Ok (connect_of d ?b, [])"
    using Connect_parse_packet [OF assms(1-4), of "[]"] Connect_parse_packet [OF assms(1) b, of "[]"] by simp_all
  ultimately show ?thesis by blast
qed

text \<open>Texts for the parameters: the characters between quotes without escapes, and the number.\<close>

definition native_texts :: debug_texts where
  "native_texts =
     \<lparr>str_debug = (\<lambda>s. CHR 0x22 # str_fmt s @ [CHR 0x22]), u16_debug = (\<lambda>x. dec (unat x))\<rparr>"

theorem connect_debug_password_witness:
  "\<exists>k k'. Connect_parse (std_crates True) (connect_packet (std_crates True) (sample_connect (std_crates True))) = Ok (k, []) \<and>
    map_option buff_data (connect_password k) = Some [1, 2] \<and> map_option buff_data (connect_password k') = Some [7, 8] \<and>
    Connect_debug native_texts k = Connect_debug native_texts k'"
proof -
  let ?d = "std_crates True" and ?b = "sample_connect (std_crates True)"
  have "connect_flags_ok ?b"
    using built_inv [OF sample_connect_built std_crates_ok] by (simp add: connect_builder_inv_def)
  from connect_debug_password [OF std_crates_ok sample_connect_sendable(1) [OF std_crates_ok] this
      sample_connect_sendable(2) [OF std_crates_ok], of "[1, 2]" "[7, 8]" native_texts]
  show ?thesis by (simp add: sample_connect_fields) blast
qed

end
