(* ===== verification/Unit_Tests.thy ===== *)
theory Unit_Tests
  imports Debug
begin

text \<open>
  The unit tests of the repository (the modules \<open>tests\<close> of the source files, \<open>src/lib.rs\<close> and the
  recorded outputs under \<open>snapshots\<close>), translated like the code they exercise: a test is a
  truth value, and an assertion that fails, an \<open>unwrap\<close> of an error or a panic makes it false. They
  check the definitions of this development against what the authors of the code expect of
  it. The cases of a parameterised test are a list.
\<close>

section \<open>Test support\<close>

text \<open>\<open>Hexdump\<close>: one line for the length and one for each byte.\<close>

definition newline :: string where
  "newline = [CHR 0x0A]"

definition is_ascii_graphic :: "u8 \<Rightarrow> bool" where
  "is_ascii_graphic b \<longleftrightarrow> 0x21 \<le> b \<and> b \<le> 0x7E"

definition hexdump_line :: "nat \<Rightarrow> u8 \<Rightarrow> string" where
  "hexdump_line i b =
     (let b_h = drop_bit 4 b; b_l = b AND 0x0f;
          c = (if is_ascii_graphic b then char_of (unat b) else CHR ''.'')
      in zero_pad 4 (dec i) @ '': | '' @ zero_pad 4 (radix 2 (unat b_h)) @ '' '' @
         zero_pad 4 (radix 2 (unat b_l)) @ '' | ('' @ zero_pad 2 (hex (unat b)) @ '') '' @
         [CHR 0x27, c, CHR 0x27] @ newline)"

definition hexdump :: "bytes \<Rightarrow> string" where
  "hexdump buf =
     ''Length: '' @ dec (length buf) @ '' (0x'' @ hex (length buf) @ '') bytes'' @ newline @
     concat (map (\<lambda>(i, b). hexdump_line i b) (enumerate 0 buf))"

text \<open>A recorded output: the line of the length and the lines of the bytes. The quoted character at
  the end of a line is written apart, because a quote cannot end a string literal.\<close>

definition snapshot :: "string \<Rightarrow> (string \<times> char) list \<Rightarrow> string \<Rightarrow> bool" where
  "snapshot first rows text \<longleftrightarrow>
     text = first @ newline @ concat (map (\<lambda>(row, c). row @ '' '' @ [CHR 0x27, c, CHR 0x27] @ newline) rows)"

text \<open>\<open>unwrap\<close> inside a test: whatever is not \<open>Ok\<close> fails it.\<close>

definition unwrap_test :: "('a, 'e) result \<Rightarrow> ('a \<Rightarrow> bool) \<Rightarrow> bool" where
  "unwrap_test r k = (case r of Ok x \<Rightarrow> k x | _ \<Rightarrow> False)"

definition unwrap_err_test :: "('a, 'e) result \<Rightarrow> ('e \<Rightarrow> bool) \<Rightarrow> bool" where
  "unwrap_err_test r k = (case r of Err e \<Rightarrow> k e | _ \<Rightarrow> False)"

text \<open>\<open>write_sync\<close> into a fresh vector, unwrapped.\<close>

definition write_test :: "usize wr \<Rightarrow> (usize \<Rightarrow> bytes \<Rightarrow> bool) \<Rightarrow> bool" where
  "write_test m k = (case m vec_writer of (r, w) \<Rightarrow> unwrap_test r (\<lambda>n. k n (sent w)))"

section \<open>The shared parts\<close>

definition should_parse_example_str :: "crates \<Rightarrow> bool" where
  "should_parse_example_str d \<longleftrightarrow>
     unwrap_test (MqttStr_parse d [0x00, 0x05, 0x41, 0xF0, 0xAA, 0x9B, 0x94]) (\<lambda>(str, rest).
       rest = [] \<and> MqttStr_as_str str = [0x41, 0xF0, 0xAA, 0x9B, 0x94])"

text \<open>Ranges of characters, both ends included.\<close>

definition char_range :: "nat \<Rightarrow> nat \<Rightarrow> u32 list" where
  "char_range a b = map word_of_nat [a..<Suc b]"

definition should_be_a_valid_char :: bool where
  "should_be_a_valid_char \<longleftrightarrow>
     list_all (\<lambda>c. \<not> is_valid_char c)
       ([0] @ concat [char_range 0x0001 0x001F, char_range 0xFDD0 0xFDEF, char_range 0xFFFE 0xFFFF] @
        [0x1FFFE, 0x1FFFF, 0x2FFFE, 0x2FFFF, 0x3FFFE, 0x3FFFF, 0x4FFFE, 0x4FFFF, 0x5FFFE, 0x5FFFF,
         0x6FFFE, 0x6FFFF, 0x7FFFE, 0x7FFFF, 0x8FFFE, 0x8FFFF, 0x9FFFE, 0x9FFFF, 0x10FFFE, 0x10FFFF])"

definition alpha_numeric_should_be_valid :: bool where
  "alpha_numeric_should_be_valid \<longleftrightarrow>
     list_all is_valid_char (concat [char_range 0x61 0x7A, char_range 0x41 0x5A, char_range 0x30 0x39])"

definition mqttstr_eq_str :: "crates \<Rightarrow> bool" where
  "mqttstr_eq_str d \<longleftrightarrow>
     unwrap_test (Decode_consume (MqttStr_parse d) ([0x00, 0x05] @ str_literal ''Hello'')) (\<lambda>str.
       MqttStr_eq str (str_literal ''Hello''))"

definition should_parse_packet_id :: "crates \<Rightarrow> bool" where
  "should_parse_packet_id d \<longleftrightarrow>
     unwrap_test (PacketId_parse d [0x00, 0x01, 0x42]) (\<lambda>(pkid, rest).
       rest = [0x42] \<and> PacketId_read pkid = Ok 1) \<and>
     unwrap_test (PacketId_parse d [0xff, 0xff, 0x42]) (\<lambda>(pkid, rest).
       rest = [0x42] \<and> PacketId_read pkid = Ok 0xFFFF) \<and>
     unwrap_err_test (PacketId_parse d [0x00, 0x00, 0x42]) (\<lambda>err. kind err = Invalid)"

definition not_wildcard_topic :: "crates \<Rightarrow> bool" where
  "not_wildcard_topic d \<longleftrightarrow> list_all (\<lambda>topic. has_valid_wildcard d (str_literal topic)) [''a/b'', ''/'']"

definition multi_level_wildcard :: "crates \<Rightarrow> bool" where
  "multi_level_wildcard d \<longleftrightarrow>
     list_all (\<lambda>topic. has_valid_wildcard d (str_literal topic)) [''#'', ''sport/#'', ''sport/tennis/#'']"

definition single_level_wildcard :: "crates \<Rightarrow> bool" where
  "single_level_wildcard d \<longleftrightarrow>
     list_all (\<lambda>topic. has_valid_wildcard d (str_literal topic))
       [''+/tennis/#'', ''sport/+/player1'', ''+'', ''/+'', ''+/+'']"

definition invalid_wildcard :: "crates \<Rightarrow> bool" where
  "invalid_wildcard d \<longleftrightarrow>
     list_all (\<lambda>topic. \<not> has_valid_wildcard d (str_literal topic))
       [''sport/tennis#'', ''sport/tennis/#/ranking'', ''sport+'']"

definition should_encode_remaining_length :: "crates \<Rightarrow> bool" where
  "should_encode_remaining_length d \<longleftrightarrow>
     list_all (\<lambda>(exp, case_bytes).
       unwrap_test (RemainingLengthSlice_parse d case_bytes) (\<lambda>(len, rest).
         length rest = 0 \<and> RemainingLength_read d len = Ok exp \<and>
         write_test (RemainingLengthSlice_write_sync d exp) (\<lambda>written _. written = length case_bytes)))
       [(0, [0x00]), (127, [0x7F]), (128, [0x80, 0x01]), (16383, [0xFF, 0x7F]),
        (16384, [0x80, 0x80, 0x01]), (2097151, [0xFF, 0xFF, 0x7F]),
        (2097152, [0x80, 0x80, 0x80, 0x01]), (268435455, [0xFF, 0xFF, 0xFF, 0x7F])]"

definition should_check_too_big :: "crates \<Rightarrow> bool" where
  "should_check_too_big d \<longleftrightarrow>
     unwrap_err_test (fst (RemainingLengthArray_write_sync d 4 0xFFFFFFFF vec_writer)) (\<lambda>err.
       kind err = OutOfRange)"

definition should_parse_fixed_headers_and_remaining_length :: "crates \<Rightarrow> bool" where
  "should_parse_fixed_headers_and_remaining_length d \<longleftrightarrow>
     list_all (\<lambda>(exp, bytes).
       unwrap_test (FixedHeaderSlice_parse d bytes) (\<lambda>(fixed, rest).
         rest = [] \<and> RemainingLength_read d (remaining_length fixed) = Ok exp))
       [(0, [0b00010000, 0x00]), (127, [0b00010000, 0x7F]), (128, [0b00010000, 0x80, 0x01]),
        (16383, [0b00010000, 0xFF, 0x7F]), (16384, [0b00010000, 0x80, 0x80, 0x01]),
        (2097151, [0b00010000, 0xFF, 0xFF, 0x7F]), (2097152, [0b00010000, 0x80, 0x80, 0x80, 0x01]),
        (268435455, [0b00010000, 0xFF, 0xFF, 0xFF, 0x7F])]"

definition should_parse_packet_type_and_flag :: "crates \<Rightarrow> bool" where
  "should_parse_packet_type_and_flag d \<longleftrightarrow>
     list_all (\<lambda>(exp_packet, exp_type, case_byte).
       unwrap_test (ControlPacketType_parse d case_byte) (\<lambda>res. res = (exp_packet, exp_type)))
       [(Connect, TypeFlags_empty, 0b00010000), (ConnAck, TypeFlags_empty, 0b00100000),
        (Publish, bf_bitor d (bf_bitor d PUBLISH_DUP PUBLISH_QOS_2) PUBLISH_RETAIN, 0b00111101),
        (PubAck, TypeFlags_empty, 0b01000000), (PubRec, TypeFlags_empty, 0b01010000),
        (PubRel, TypeFlags_PUBREL, 0b01100010), (PubComp, TypeFlags_empty, 0b01110000),
        (Subscribe, TypeFlags_SUBSCRIBE, 0b10000010), (SubAck, TypeFlags_empty, 0b10010000),
        (Unsubscribe, TypeFlags_UNSUBSCRIBE, 0b10100010), (UnsubAck, TypeFlags_empty, 0b10110000),
        (PingReq, TypeFlags_empty, 0b11000000), (PingResp, TypeFlags_empty, 0b11010000),
        (Disconnect, TypeFlags_empty, 0b11100000)]"

definition should_convert_packet_type :: bool where
  "should_convert_packet_type \<longleftrightarrow>
     list_all (\<lambda>i. unwrap_test (ControlPacketType_try_from i) (\<lambda>t. i = u8_from_ControlPacketType t))
       (map word_of_nat [1..<14])"

definition should_require_more_bytes_for_fixed_header :: "crates \<Rightarrow> bool" where
  "should_require_more_bytes_for_fixed_header d \<longleftrightarrow>
     unwrap_err_test (FixedHeaderSlice_parse d [0b00010000, 0x80]) (\<lambda>err. kind err = NotEnoughSpace)"

section \<open>CONNECT\<close>

definition should_set_clean_session_on_empty :: "crates \<Rightarrow> bool" where
  "should_set_clean_session_on_empty d \<longleftrightarrow>
     (let conn = ConnectBuilder_with_empty_client_id d in bf_contains d (cb_flags conn) CLEAN_SESSION)"

definition should_permit_keep_alive_zero :: "crates \<Rightarrow> bool" where
  "should_permit_keep_alive_zero d \<longleftrightarrow>
     KeepAlive_from d 0 = \<lparr>seconds = 0\<rparr> \<and>
     unwrap_test (KeepAlive_try_from d (0 * nanos_per_sec)) (\<lambda>keep_alive. keep_alive = \<lparr>seconds = 0\<rparr>)"

definition should_encode_connect :: "crates \<Rightarrow> bool" where
  "should_encode_connect d \<longleftrightarrow>
     unwrap_test (KeepAlive_try_from d (10 * nanos_per_sec)) (\<lambda>keepalive.
     unwrap_test (ConnectBuilder_create (str_literal ''client_id'')) (\<lambda>builder.
       let builder = ConnectBuilder_keepalive keepalive builder;
           builder = ConnectBuilder_will d (str_literal ''/will'') (str_literal ''hello'') AtLeastOnce True builder;
           builder = ConnectBuilder_clean_session d builder;
           builder = ConnectBuilder_username_password d (str_literal ''username'') (str_literal ''passwd'') builder;
           expect = [0b00010000, 53, 0, 4] @ str_literal ''MQTT'' @ [4, 0b11101110, 0, 10,
             0, 9] @ str_literal ''client_id'' @ [0, 5] @ str_literal ''/will'' @ [0, 5] @ str_literal ''hello'' @
             [0, 8] @ str_literal ''username'' @ [0, 6] @ str_literal ''passwd''
       in write_test (Connect_write_sync d builder) (\<lambda>written buf. written = length expect \<and> buf = expect)))"

section \<open>The packets without a body\<close>

definition disconnect_roundtrip :: "crates \<Rightarrow> bool" where
  "disconnect_roundtrip d \<longleftrightarrow>
     write_test (Disconnect_write_sync d) (\<lambda>written buf.
       length buf = written \<and>
       unwrap_test (Disconnect_parse d buf) (\<lambda>_. True) \<and>
       snapshot
       ''Length: 2 (0x2) bytes''
       [(''0000: | 1110 0000 | (e0)'', CHR ''.''),
        (''0001: | 0000 0000 | (00)'', CHR ''.'')]
       (hexdump buf))"

definition should_encode_and_decode_pingreq :: "crates \<Rightarrow> bool" where
  "should_encode_and_decode_pingreq d \<longleftrightarrow>
     write_test (PingReq_write_sync d) (\<lambda>written buf.
       length buf = written \<and>
       unwrap_test (PingReq_parse d buf) (\<lambda>_. True) \<and>
       snapshot
       ''Length: 2 (0x2) bytes''
       [(''0000: | 1100 0000 | (c0)'', CHR ''.''),
        (''0001: | 0000 0000 | (00)'', CHR ''.'')]
       (hexdump buf))"

definition should_encode_and_decode_pingresp :: "crates \<Rightarrow> bool" where
  "should_encode_and_decode_pingresp d \<longleftrightarrow>
     write_test (PingResp_write_sync d) (\<lambda>written buf.
       length buf = written \<and>
       unwrap_test (PingResp_parse d buf) (\<lambda>_. True) \<and>
       snapshot
       ''Length: 2 (0x2) bytes''
       [(''0000: | 1101 0000 | (d0)'', CHR ''.''),
        (''0001: | 0000 0000 | (00)'', CHR ''.'')]
       (hexdump buf))"

section \<open>The acknowledgements\<close>

definition puback_roundtrip :: "crates \<Rightarrow> bool" where
  "puback_roundtrip d \<longleftrightarrow>
     write_test (PubAck_write_sync d 10) (\<lambda>written buf.
       written = length buf \<and>
       unwrap_test (Decode_consume (PubAck_parse d) buf) (\<lambda>res. PacketId_read (puback_pkid res) = Ok 10) \<and>
       snapshot
       ''Length: 4 (0x4) bytes''
       [(''0000: | 0100 0000 | (40)'', CHR ''@''),
        (''0001: | 0000 0010 | (02)'', CHR ''.''),
        (''0002: | 0000 0000 | (00)'', CHR ''.''),
        (''0003: | 0000 1010 | (0a)'', CHR ''.'')]
       (hexdump buf))"

definition pubrec_roundtrip :: "crates \<Rightarrow> bool" where
  "pubrec_roundtrip d \<longleftrightarrow>
     write_test (PubRec_write_sync d 10) (\<lambda>written buf.
       written = length buf \<and>
       unwrap_test (Decode_consume (PubRec_parse d) buf) (\<lambda>res. PacketId_read (pubrec_pkid res) = Ok 10) \<and>
       snapshot
       ''Length: 4 (0x4) bytes''
       [(''0000: | 0101 0000 | (50)'', CHR ''P''),
        (''0001: | 0000 0010 | (02)'', CHR ''.''),
        (''0002: | 0000 0000 | (00)'', CHR ''.''),
        (''0003: | 0000 1010 | (0a)'', CHR ''.'')]
       (hexdump buf))"

definition pubrel_roundtrip :: "crates \<Rightarrow> bool" where
  "pubrel_roundtrip d \<longleftrightarrow>
     write_test (PubRel_write_sync d 10) (\<lambda>written buf.
       written = length buf \<and>
       unwrap_test (Decode_consume (PubRel_parse d) buf) (\<lambda>res. PacketId_read (pubrel_pkid res) = Ok 10) \<and>
       snapshot
       ''Length: 4 (0x4) bytes''
       [(''0000: | 0110 0010 | (62)'', CHR ''b''),
        (''0001: | 0000 0010 | (02)'', CHR ''.''),
        (''0002: | 0000 0000 | (00)'', CHR ''.''),
        (''0003: | 0000 1010 | (0a)'', CHR ''.'')]
       (hexdump buf))"

definition pubcomp_roundtrip :: "crates \<Rightarrow> bool" where
  "pubcomp_roundtrip d \<longleftrightarrow>
     write_test (PubComp_write_sync d 10) (\<lambda>written buf.
       written = length buf \<and>
       unwrap_test (Decode_consume (PubComp_parse d) buf) (\<lambda>res. PacketId_read (pubcomp_pkid res) = Ok 10) \<and>
       snapshot
       ''Length: 4 (0x4) bytes''
       [(''0000: | 0111 0000 | (70)'', CHR ''p''),
        (''0001: | 0000 0010 | (02)'', CHR ''.''),
        (''0002: | 0000 0000 | (00)'', CHR ''.''),
        (''0003: | 0000 1010 | (0a)'', CHR ''.'')]
       (hexdump buf))"

definition unsuback_roundtrip :: "crates \<Rightarrow> bool" where
  "unsuback_roundtrip d \<longleftrightarrow>
     write_test (UnsubAck_write_sync d 10) (\<lambda>written buf.
       written = length buf \<and>
       unwrap_test (Decode_consume (UnsubAck_parse d) buf) (\<lambda>res. PacketId_read (unsuback_pkid res) = Ok 10) \<and>
       snapshot
       ''Length: 4 (0x4) bytes''
       [(''0000: | 1011 0000 | (b0)'', CHR ''.''),
        (''0001: | 0000 0010 | (02)'', CHR ''.''),
        (''0002: | 0000 0000 | (00)'', CHR ''.''),
        (''0003: | 0000 1010 | (0a)'', CHR ''.'')]
       (hexdump buf))"

section \<open>PUBLISH, SUBSCRIBE and UNSUBSCRIBE\<close>

definition should_match_whildcard :: "crates \<Rightarrow> bool" where
  "should_match_whildcard d \<longleftrightarrow>
     list_all (\<lambda>topic. contains_wildcard_char d (str_literal topic)) [''/foo/+'', ''/foo/#'']"

definition should_encode_and_decode_publish :: "crates \<Rightarrow> bool" where
  "should_encode_and_decode_publish d \<longleftrightarrow>
     (let publish = PublishBuilder_qos d (PublishQos_AtLeastOnce True 10) (PublishBuilder_new (str_literal ''a/b'') [42])
      in write_test (Publish_write_sync d publish) (\<lambda>len buf.
        length buf = len \<and>
        unwrap_test (Decode_consume (Publish_parse d) buf) (\<lambda>res.
          FixedHeader_flags (publish_fixed res) = bf_bitor d PUBLISH_QOS_1 PUBLISH_DUP \<and>
          map_option PacketId_read (publish_packet_id res) = map_option Ok (pb_pkid publish) \<and>
          MqttStr_as_str (publish_topic res) = pb_topic publish \<and>
          publish_payload res = pb_payload publish) \<and>
        snapshot
       ''Length: 10 (0xa) bytes''
       [(''0000: | 0011 1010 | (3a)'', CHR '':''),
        (''0001: | 0000 1000 | (08)'', CHR ''.''),
        (''0002: | 0000 0000 | (00)'', CHR ''.''),
        (''0003: | 0000 0011 | (03)'', CHR ''.''),
        (''0004: | 0110 0001 | (61)'', CHR ''a''),
        (''0005: | 0010 1111 | (2f)'', CHR ''/''),
        (''0006: | 0110 0010 | (62)'', CHR ''b''),
        (''0007: | 0000 0000 | (00)'', CHR ''.''),
        (''0008: | 0000 1010 | (0a)'', CHR ''.''),
        (''0009: | 0010 1010 | (2a)'', CHR ''*'')]
       (hexdump buf)))"

definition suback_roundtrip :: "crates \<Rightarrow> bool" where
  "suback_roundtrip d \<longleftrightarrow>
     (let suback = \<lparr>sab_pkid = 10, sab_return_codes = [Qos0, Qos1, Qos2, Failure]\<rparr>
      in write_test (SubAck_write_sync d suback) (\<lambda>written buf.
        written = length buf \<and>
        unwrap_test (Decode_consume (SubAck_parse d) buf) (\<lambda>res.
          PacketId_read (suback_pkid res) = Ok (sab_pkid suback) \<and>
          suback_return_codes res = sab_return_codes suback) \<and>
        snapshot
       ''Length: 8 (0x8) bytes''
       [(''0000: | 1001 0000 | (90)'', CHR ''.''),
        (''0001: | 0000 0110 | (06)'', CHR ''.''),
        (''0002: | 0000 0000 | (00)'', CHR ''.''),
        (''0003: | 0000 1010 | (0a)'', CHR ''.''),
        (''0004: | 0000 0000 | (00)'', CHR ''.''),
        (''0005: | 0000 0001 | (01)'', CHR ''.''),
        (''0006: | 0000 0010 | (02)'', CHR ''.''),
        (''0007: | 1000 0000 | (80)'', CHR ''.'')]
       (hexdump buf)))"

text \<open>Reading a cursor in a loop and checking each element against the expected one, and that
  nothing is left after the last.\<close>

primrec cursor_test :: "'o nxt \<Rightarrow> ('o \<Rightarrow> 'e \<Rightarrow> bool) \<Rightarrow> 'e list \<Rightarrow> cursor \<Rightarrow> bool" where
  "cursor_test read eq [] c \<longleftrightarrow> unwrap_test (read c) (\<lambda>(x, _). x = None)"
| "cursor_test read eq (e # es) c \<longleftrightarrow>
     unwrap_test (read c) (\<lambda>(x, c). case x of None \<Rightarrow> False | Some x \<Rightarrow> eq x e \<and> cursor_test read eq es c)"

definition subscribe_iter_cursor :: "crates \<Rightarrow> bool" where
  "subscribe_iter_cursor d \<longleftrightarrow>
     cursor_test (RawSubscribeCursor_read d)
       (\<lambda>filter (topic, qos). MqttStr_as_str (tf_topic filter) = topic \<and> tf_qos filter = qos)
       [(str_literal ''a/b'', Requested_AtLeastOnce), (str_literal ''c/d'', Requested_ExactlyOnce)]
       \<lparr>cur_bytes = [0, 3, 0x61, 0x2F, 0x62, 1, 0, 3, 0x63, 0x2F, 0x64, 2], cur_pos = 0\<rparr>"

definition unsubscribe_iter_cursor :: "crates \<Rightarrow> bool" where
  "unsubscribe_iter_cursor d \<longleftrightarrow>
     cursor_test (RawUnsubscribeCursor_read d) (\<lambda>filter topic. MqttStr_as_str filter = topic)
       [str_literal ''a/b'', str_literal ''c/d'']
       \<lparr>cur_bytes = [0, 3, 0x61, 0x2F, 0x62, 0, 3, 0x63, 0x2F, 0x64], cur_pos = 0\<rparr>"

text \<open>Comparing an iterator with a list element by element; a fold that does not return or a panic
  fails the test.\<close>

definition filters_eq_test :: "('x list, 'e) result option \<Rightarrow> ('x \<Rightarrow> 'y \<Rightarrow> bool) \<Rightarrow> 'y list \<Rightarrow> bool" where
  "filters_eq_test filters eq ys =
     (case filters of None \<Rightarrow> False | Some r \<Rightarrow> unwrap_test r (\<lambda>xs. list_all2 eq xs ys))"

definition subscribe_roundtrip :: "crates \<Rightarrow> bool" where
  "subscribe_roundtrip d \<longleftrightarrow>
     (let packet = SubscribeBuilder_new 10
            [\<lparr>sf_topic = str_literal ''a/b'', sf_qos = Requested_AtLeastOnce\<rparr>,
             \<lparr>sf_topic = str_literal ''c/d'', sf_qos = Requested_ExactlyOnce\<rparr>]
      in write_test (Subscribe_write_sync d packet) (\<lambda>written buf.
        written = length buf \<and>
        (case Subscribe_parse d buf of None \<Rightarrow> False | Some r \<Rightarrow>
          unwrap_test (Decode_consume (\<lambda>_. r) buf) (\<lambda>subscribe.
            PacketId_read (subscribe_pkid subscribe) = Ok (sb_pkid packet) \<and>
            filters_eq_test (Subscribe_filters d subscribe) TopicFilter_eq (sb_filters packet))) \<and>
        snapshot
       ''Length: 16 (0x10) bytes''
       [(''0000: | 1000 0010 | (82)'', CHR ''.''),
        (''0001: | 0000 1110 | (0e)'', CHR ''.''),
        (''0002: | 0000 0000 | (00)'', CHR ''.''),
        (''0003: | 0000 1010 | (0a)'', CHR ''.''),
        (''0004: | 0000 0000 | (00)'', CHR ''.''),
        (''0005: | 0000 0011 | (03)'', CHR ''.''),
        (''0006: | 0110 0001 | (61)'', CHR ''a''),
        (''0007: | 0010 1111 | (2f)'', CHR ''/''),
        (''0008: | 0110 0010 | (62)'', CHR ''b''),
        (''0009: | 0000 0001 | (01)'', CHR ''.''),
        (''0010: | 0000 0000 | (00)'', CHR ''.''),
        (''0011: | 0000 0011 | (03)'', CHR ''.''),
        (''0012: | 0110 0011 | (63)'', CHR ''c''),
        (''0013: | 0010 1111 | (2f)'', CHR ''/''),
        (''0014: | 0110 0100 | (64)'', CHR ''d''),
        (''0015: | 0000 0010 | (02)'', CHR ''.'')]
       (hexdump buf)))"

definition unsubscribe_roundtrip :: "crates \<Rightarrow> bool" where
  "unsubscribe_roundtrip d \<longleftrightarrow>
     (let packet = UnsubscribeBuilder_new 10 [str_literal ''a/b'', str_literal ''c/d'']
      in write_test (Unsubscribe_write_sync d packet) (\<lambda>written buf.
        written = length buf \<and>
        (case Unsubscribe_parse d buf of None \<Rightarrow> False | Some r \<Rightarrow>
          unwrap_test (Decode_consume (\<lambda>_. r) buf) (\<lambda>res.
            PacketId_read (unsubscribe_pkid res) = Ok (ub_pkid packet) \<and>
            filters_eq_test (Unsubscribe_filters d res) MqttStr_eq (ub_filters packet))) \<and>
        snapshot
       ''Length: 14 (0xe) bytes''
       [(''0000: | 1010 0010 | (a2)'', CHR ''.''),
        (''0001: | 0000 1100 | (0c)'', CHR ''.''),
        (''0002: | 0000 0000 | (00)'', CHR ''.''),
        (''0003: | 0000 1010 | (0a)'', CHR ''.''),
        (''0004: | 0000 0000 | (00)'', CHR ''.''),
        (''0005: | 0000 0011 | (03)'', CHR ''.''),
        (''0006: | 0110 0001 | (61)'', CHR ''a''),
        (''0007: | 0010 1111 | (2f)'', CHR ''/''),
        (''0008: | 0110 0010 | (62)'', CHR ''b''),
        (''0009: | 0000 0000 | (00)'', CHR ''.''),
        (''0010: | 0000 0011 | (03)'', CHR ''.''),
        (''0011: | 0110 0011 | (63)'', CHR ''c''),
        (''0012: | 0010 1111 | (2f)'', CHR ''/''),
        (''0013: | 0110 0100 | (64)'', CHR ''d'')]
       (hexdump buf)))"

text \<open>The filter of the tests in \<open>subscribe/topic.rs\<close>.\<close>

definition at_most_once :: "string \<Rightarrow> SubscribeFilter" where
  "at_most_once topic = \<lparr>sf_topic = str_literal topic, sf_qos = Requested_AtMostOnce\<rparr>"

definition parse_topic :: "crates \<Rightarrow> bool" where
  "parse_topic d \<longleftrightarrow>
     list_all (\<lambda>topic. unwrap_test (TopicFilter_validate_value d (at_most_once topic)) (\<lambda>_. True))
       [''a/b'', ''/'']"

definition parse_multi_level_wildcard :: "crates \<Rightarrow> bool" where
  "parse_multi_level_wildcard d \<longleftrightarrow>
     list_all (\<lambda>topic. unwrap_test (TopicFilter_validate_value d (at_most_once topic)) (\<lambda>_. True))
       [''#'', ''sport/#'', ''sport/tennis/#'']"

definition parse_single_level_wildcard :: "crates \<Rightarrow> bool" where
  "parse_single_level_wildcard d \<longleftrightarrow>
     list_all (\<lambda>topic. unwrap_test (TopicFilter_validate_value d (at_most_once topic)) (\<lambda>_. True))
       [''+/tennis/#'', ''sport/+/player1'', ''+'', ''/+'', ''+/+'']"

definition filter_invalid_wildcard :: "crates \<Rightarrow> bool" where
  "filter_invalid_wildcard d \<longleftrightarrow>
     list_all (\<lambda>topic. unwrap_err_test (TopicFilter_validate_value d (at_most_once topic)) (\<lambda>_. True))
       [''sport/tennis#'', ''sport/tennis/#/ranking'', ''sport+'']"

text \<open>The test of the snapshot macro compares a text with its recorded output.\<close>

definition assert_snapshot :: "string \<Rightarrow> string \<Rightarrow> bool" where
  "assert_snapshot recorded text \<longleftrightarrow> text = recorded"

definition use_macro :: bool where
  "use_macro \<longleftrightarrow> assert_snapshot ''used the macro'' ''used the macro''"

section \<open>The whole suite\<close>

definition unit_tests :: "crates \<Rightarrow> bool list" where
  "unit_tests d =
     [should_parse_example_str d,
      should_be_a_valid_char,
      alpha_numeric_should_be_valid,
      mqttstr_eq_str d,
      should_parse_packet_id d,
      not_wildcard_topic d,
      multi_level_wildcard d,
      single_level_wildcard d,
      invalid_wildcard d,
      should_encode_remaining_length d,
      should_check_too_big d,
      should_parse_fixed_headers_and_remaining_length d,
      should_parse_packet_type_and_flag d,
      should_convert_packet_type,
      should_require_more_bytes_for_fixed_header d,
      should_set_clean_session_on_empty d,
      should_permit_keep_alive_zero d,
      should_encode_connect d,
      disconnect_roundtrip d,
      should_encode_and_decode_pingreq d,
      should_encode_and_decode_pingresp d,
      puback_roundtrip d,
      pubrec_roundtrip d,
      pubrel_roundtrip d,
      pubcomp_roundtrip d,
      unsuback_roundtrip d,
      should_match_whildcard d,
      should_encode_and_decode_publish d,
      suback_roundtrip d,
      subscribe_iter_cursor d,
      unsubscribe_iter_cursor d,
      subscribe_roundtrip d,
      unsubscribe_roundtrip d,
      parse_topic d,
      parse_multi_level_wildcard d,
      parse_single_level_wildcard d,
      filter_invalid_wildcard d,
      use_macro]"

section \<open>A recorded output fixes the bytes\<close>

lemma hex_digit_inj: "m < 16 \<Longrightarrow> n < 16 \<Longrightarrow> hex_digit m = hex_digit n \<longleftrightarrow> m = n"
proof -
  assume "m < 16" "n < 16"
  then have "hex_digit m = hex_digit n \<longleftrightarrow>
      of_char (hex_digit m) = (of_char (hex_digit n) :: nat)" by (simp add: of_char_eq_iff)
  with \<open>m < 16\<close> \<open>n < 16\<close> show ?thesis by (auto simp: hex_digit_def split: if_splits)
qed

lemma hex_byte: "n < 256 \<Longrightarrow> zero_pad 2 (hex n) = [hex_digit (n div 16), hex_digit (n mod 16)]"
proof -
  assume "n < 256"
  then have "hex (n div 16) = [hex_digit (n div 16)]" by (subst hex.simps) (simp add: less_mult_imp_div_less)
  moreover have "hex_digit 0 = CHR ''0''" by code_simp
  ultimately show ?thesis by (simp add: hex.simps [of n] zero_pad_def)
qed

lemma length_bin_nibble: "length (zero_pad 4 (radix 2 (unat (x AND 0x0f :: u8)))) = 4"
  "length (zero_pad 4 (radix 2 (unat (drop_bit 4 x :: u8)))) = 4"
proof -
  have "list_all (\<lambda>n. length (zero_pad 4 (radix 2 n)) = 4) [0..<16]" by code_simp
  then have len: "length (zero_pad 4 (radix 2 n)) = 4" if "n < 16" for n using that by (simp add: list_all_iff)
  have "unat (x AND 0x0f) \<le> unat (0x0f :: u8)" by (rule word_le_nat_alt [THEN iffD1]) (rule word_and_le1)
  then show "length (zero_pad 4 (radix 2 (unat (x AND 0x0f)))) = 4" by (intro len) simp
  have "unat (drop_bit 4 x) < 16"
    using unat_u8_bound [of x] by (simp only: unat_drop_bit_eq) (simp add: drop_bit_eq_div less_mult_imp_div_less)
  then show "length (zero_pad 4 (radix 2 (unat (drop_bit 4 x)))) = 4" by (rule len)
qed

lemma hexdump_line_inject:
  "hexdump_line i b @ r = hexdump_line i b' @ r' \<longleftrightarrow> b = b' \<and> r = r'"
proof
  assume "hexdump_line i b @ r = hexdump_line i b' @ r'"
  then have "zero_pad 2 (hex (unat b)) = zero_pad 2 (hex (unat b'))" "b = b' \<longrightarrow> r = r'"
    using unat_u8_bound [of b] unat_u8_bound [of b']
    by (simp_all add: hexdump_line_def Let_def length_bin_nibble hex_byte)
  moreover have "unat b < 256" "unat b' < 256" using unat_u8_bound by simp_all
  ultimately have "unat b div 16 = unat b' div 16" "unat b mod 16 = unat b' mod 16"
    by (simp_all add: hex_byte hex_digit_inj less_mult_imp_div_less)
  then have "unat b = unat b'" by (metis div_mult_mod_eq)
  then have "b = b'" by (rule word_unat_eq_iff [THEN iffD2])
  then show "b = b' \<and> r = r'" using \<open>b = b' \<longrightarrow> r = r'\<close> by simp
qed simp

lemma hexdump_lines_inject:
  "concat (map (\<lambda>(i, b). hexdump_line i b) (enumerate k buf)) =
   concat (map (\<lambda>(i, b). hexdump_line i b) (enumerate k buf')) \<longleftrightarrow> buf = buf'"
proof (induction buf arbitrary: k buf')
  case Nil
  then show ?case by (cases buf') (simp_all add: hexdump_line_def Let_def newline_def)
next
  case (Cons b buf)
  then show ?case
    by (cases buf') (simp_all add: hexdump_line_inject, simp add: hexdump_line_def Let_def newline_def)
qed

lemma hexdump_inject: "hexdump buf = hexdump buf' \<longleftrightarrow> buf = buf'"
proof
  assume "hexdump buf = hexdump buf'"
  moreover have "CHR '' '' \<notin> set (dec n)" for n using dec_chars [of n] by auto
  ultimately have "dec (length buf) = dec (length buf')"
    by (auto simp: hexdump_def append_sep_eq_iff)
  then have "length buf = length buf'" by simp
  with \<open>hexdump buf = hexdump buf'\<close> show "buf = buf'"
    by (simp add: hexdump_def hexdump_lines_inject)
qed simp

section \<open>Every test holds\<close>

named_theorems test_simp \<open>unfolding the support of the tests\<close>

lemma unwrap_test_simps [test_simp]:
  "unwrap_test (Ok x) k = k x" "unwrap_test (Err e) k = False" "unwrap_test Panic k = False"
  "unwrap_err_test (Err e) k' = k' e" "unwrap_err_test (Ok x) k' = False" "unwrap_err_test Panic k' = False"
  by (simp_all add: unwrap_test_def unwrap_err_test_def)

lemma write_test_emits: "emits m n bs \<Longrightarrow> write_test m k = k n bs"
  by (simp add: write_test_def emits_vec unwrap_test_def)

text \<open>The packets depend on the crates only through the bytes of an integer.\<close>

lemma u16_bytes_std: "crates_ok d \<Longrightarrow> zc_u16_as_bytes d = zc_u16_as_bytes (std_crates True)"
  by (rule ext) (simp add: zerocopy_laws)

lemma shared_tests_ok:
  assumes "crates_ok d"
  shows "should_parse_example_str d" "mqttstr_eq_str d" "should_parse_packet_id d"
proof -
  have s: "mqtt_str_ok [0x41, 0xF0, 0xAA, 0x9B, 0x94]"
    by (simp add: mqtt_str_ok_def utf8_valid_def str_chars_def utf8_cont_def is_valid_char_def
        is_last_two_supplementary_def Let_def)
  have h: "mqtt_str_ok (str_literal ''Hello'')" by code_simp
  have b: "[0x00, 0x05, 0x41, 0xF0, 0xAA, 0x9B, 0x94] = buff_bytes d [0x41, 0xF0, 0xAA, 0x9B, 0x94] @ []"
    "[0x00, 0x05] @ str_literal ''Hello'' = buff_bytes d (str_literal ''Hello'')"
    using assms by (simp_all add: buff_bytes_def zerocopy_laws)
  show "should_parse_example_str d"
    unfolding should_parse_example_str_def b(1)
    using MqttStr_parse_bytes [OF assms s, of "[]"] by (simp add: test_simp MqttStr_as_str_def str_of_def)
  have "Decode_consume (MqttStr_parse d) (buff_bytes d (str_literal ''Hello'')) = Ok (str_of (str_literal ''Hello''))"
    by (rule mqtt_str.consume_enc [OF assms]) (simp add: h)
  then show "mqttstr_eq_str d"
    unfolding mqttstr_eq_str_def b(2) by (simp only: test_simp) (simp add: MqttStr_as_str_def MqttStr_eq_def)
  have "PacketId_parse d [0, 1, 0x42] = Ok (\<lparr>pkid = 1\<rparr>, [0x42])"
    "PacketId_parse d [0xFF, 0xFF, 0x42] = Ok (\<lparr>pkid = 0xFFFF\<rparr>, [0x42])"
    using assms by (simp_all add: PacketId_parse_iff zerocopy_laws)
  moreover have "PacketId_parse d [0, 0, 0x42] = Err (Error_new Invalid ''packet id cannot be 0'')"
    using assms by (simp add: PacketId_parse_def PacketId_validate_def zerocopy_laws Let_def)
  ultimately show "should_parse_packet_id d"
    by (simp add: should_parse_packet_id_def test_simp PacketId_read_def)
qed

lemma char_tests_ok: "should_be_a_valid_char" "alpha_numeric_should_be_valid" "should_convert_packet_type"
proof -
  show "should_be_a_valid_char"
    by (simp add: should_be_a_valid_char_def char_range_def upt_rec is_valid_char_def
        is_last_two_supplementary_def Let_def)
  show "alpha_numeric_should_be_valid" "should_convert_packet_type" by code_simp+
qed

lemma wildcard_tests_ok:
  assumes "crates_ok d"
  shows "not_wildcard_topic d" "multi_level_wildcard d" "single_level_wildcard d" "invalid_wildcard d"
    "parse_topic d" "parse_multi_level_wildcard d" "parse_single_level_wildcard d" "filter_invalid_wildcard d"
    "should_match_whildcard d"
proof -
  let ?ok = "\<lambda>t. filter_levels_ok (topic_levels (str_literal t))"
  have good: "list_all ?ok [''a/b'', ''/'', ''#'', ''sport/#'', ''sport/tennis/#'', ''+/tennis/#'',
      ''sport/+/player1'', ''+'', ''/+'', ''+/+'']"
    and bad: "list_all (\<lambda>t. \<not> ?ok t) [''sport/tennis#'', ''sport/tennis/#/ranking'', ''sport+'']"
    by code_simp+
  have w: "has_valid_wildcard d (str_literal t) = ?ok t" if "length t \<le> 30" for t
    using that assms by (intro has_valid_wildcard_levels) (simp_all add: usize_max_def)
  from good bad show "not_wildcard_topic d" "multi_level_wildcard d" "single_level_wildcard d" "invalid_wildcard d"
    by (simp_all add: not_wildcard_topic_def multi_level_wildcard_def single_level_wildcard_def
        invalid_wildcard_def w del: length_str_literal)
  from good bad show "parse_topic d" "parse_multi_level_wildcard d" "parse_single_level_wildcard d"
    "filter_invalid_wildcard d"
    by (simp_all add: parse_topic_def parse_multi_level_wildcard_def parse_single_level_wildcard_def
        filter_invalid_wildcard_def at_most_once_def TopicFilter_validate_value_def test_simp w)
  have "\<not> plain_level (str_literal ''/foo/+'')" "\<not> plain_level (str_literal ''/foo/#'')" by code_simp+
  with assms show "should_match_whildcard d"
    by (simp add: should_match_whildcard_def contains_wildcard_char_iff)
qed

lemma remaining_length_test_data:
  assumes "(v, bs) \<in> set [(0, [0x00]), (127, [0x7F]), (128, [0x80, 0x01]), (16383, [0xFF, 0x7F]),
      (16384, [0x80, 0x80, 0x01]), (2097151, [0xFF, 0xFF, 0x7F]),
      (2097152, [0x80, 0x80, 0x80, 0x01]), (268435455, [0xFF, 0xFF, 0xFF, 0x7F])]"
  shows "rl_wf bs \<and> RemainingLength_read d \<lparr>rl_len = bs\<rparr> = Ok v \<and> len_from_u32 v = Ok (length bs)"
proof -
  have data: "rl_wf bs" "rl_value bs = unat v" "len_from_u32 v = Ok (length bs)"
    using assms by (auto simp: rl_wf_def has_continue_flag_iff len_from_u32_def)
  then have "length bs \<le> 4" by (simp add: rl_wf_def)
  from read_from_buf_value [OF this, of d] data show ?thesis
    by (auto simp: RemainingLength_read_eq word_unat_eq_iff)
qed

lemma header_tests_ok:
  assumes "crates_ok d"
  shows "should_encode_remaining_length d" "should_check_too_big d"
    "should_parse_fixed_headers_and_remaining_length d" "should_parse_packet_type_and_flag d"
    "should_require_more_bytes_for_fixed_header d"
proof -
  have rl: "unwrap_test (RemainingLengthSlice_parse d bs) (\<lambda>(len, rest).
         length rest = 0 \<and> RemainingLength_read d len = Ok v \<and>
         write_test (RemainingLengthSlice_write_sync d v) (\<lambda>written _. written = length bs))"
    if "rl_wf bs \<and> RemainingLength_read d \<lparr>rl_len = bs\<rparr> = Ok v \<and> len_from_u32 v = Ok (length bs)" for v bs
    using that RemainingLengthSlice_parse_wf [of bs d "[]"]
    by (simp add: test_simp write_test_emits [OF RemainingLengthSlice_write_sync_emits])
  have "list_all (\<lambda>(v, bs). unwrap_test (RemainingLengthSlice_parse d bs) (\<lambda>(len, rest).
         length rest = 0 \<and> RemainingLength_read d len = Ok v \<and>
         write_test (RemainingLengthSlice_write_sync d v) (\<lambda>written _. written = length bs)))
      [(0, [0x00]), (127, [0x7F]), (128, [0x80, 0x01]), (16383, [0xFF, 0x7F]),
        (16384, [0x80, 0x80, 0x01]), (2097151, [0xFF, 0xFF, 0x7F]),
        (2097152, [0x80, 0x80, 0x80, 0x01]), (268435455, [0xFF, 0xFF, 0xFF, 0x7F])]"
    unfolding list_all_iff using rl remaining_length_test_data by blast
  then show "should_encode_remaining_length d" unfolding should_encode_remaining_length_def .
  show "should_check_too_big d"
    by (simp add: should_check_too_big_def RemainingLengthArray_write_sync_def RemainingLength_validate_value_def
        w_then_def w_lift_def len_from_u32_def test_simp)
  have "FixedHeaderSlice_parse d (0x10 # bs) = Ok (\<lparr>type_and_flags = 0x10, remaining_length = \<lparr>rl_len = bs\<rparr>\<rparr>, [])"
    if "rl_wf bs" for bs
  proof -
    have "0x10 = encode_type_and_flags Connect (default_flags Connect)" by code_simp
    with that assms show ?thesis
      by (auto simp: FixedHeaderSlice_parse_iff intro!: exI [of _ Connect] exI [of _ "default_flags Connect"])
  qed
  then show "should_parse_fixed_headers_and_remaining_length d"
    using remaining_length_test_data [of _ _ d]
    by (simp add: should_parse_fixed_headers_and_remaining_length_def test_simp)
  show "should_parse_packet_type_and_flag d"
  proof -
    have type_test: "case x of (t, f, b) \<Rightarrow> unwrap_test (ControlPacketType_parse d b) (\<lambda>res. res = (t, f))"
      if "case x of (t, f, b) \<Rightarrow> flags_ok t f \<and> b = encode_type_and_flags t f" for x
      using that assms by (auto simp: ControlPacketType_parse_encode test_simp)
    have "\<forall>(t, f, b) \<in> set [(Connect, TypeFlags_empty, 0b00010000), (ConnAck, TypeFlags_empty, 0b00100000),
        (Publish, PUBLISH_DUP OR PUBLISH_QOS_2 OR PUBLISH_RETAIN, 0b00111101),
        (PubAck, TypeFlags_empty, 0b01000000), (PubRec, TypeFlags_empty, 0b01010000),
        (PubRel, TypeFlags_PUBREL, 0b01100010), (PubComp, TypeFlags_empty, 0b01110000),
        (Subscribe, TypeFlags_SUBSCRIBE, 0b10000010), (SubAck, TypeFlags_empty, 0b10010000),
        (Unsubscribe, TypeFlags_UNSUBSCRIBE, 0b10100010), (UnsubAck, TypeFlags_empty, 0b10110000),
        (PingReq, TypeFlags_empty, 0b11000000), (PingResp, TypeFlags_empty, 0b11010000),
        (Disconnect, TypeFlags_empty, 0b11100000)]. flags_ok t f \<and> b = encode_type_and_flags t f" by code_simp
    then have "list_all (\<lambda>(t, f, b). unwrap_test (ControlPacketType_parse d b) (\<lambda>res. res = (t, f)))
       [(Connect, TypeFlags_empty, 0b00010000), (ConnAck, TypeFlags_empty, 0b00100000),
        (Publish, PUBLISH_DUP OR PUBLISH_QOS_2 OR PUBLISH_RETAIN, 0b00111101),
        (PubAck, TypeFlags_empty, 0b01000000), (PubRec, TypeFlags_empty, 0b01010000),
        (PubRel, TypeFlags_PUBREL, 0b01100010), (PubComp, TypeFlags_empty, 0b01110000),
        (Subscribe, TypeFlags_SUBSCRIBE, 0b10000010), (SubAck, TypeFlags_empty, 0b10010000),
        (Unsubscribe, TypeFlags_UNSUBSCRIBE, 0b10100010), (UnsubAck, TypeFlags_empty, 0b10110000),
        (PingReq, TypeFlags_empty, 0b11000000), (PingResp, TypeFlags_empty, 0b11010000),
        (Disconnect, TypeFlags_empty, 0b11100000)]"
      unfolding list_all_iff using type_test by blast
    then show ?thesis
      by (simp only: should_parse_packet_type_and_flag_def bitflags_laws [OF assms] or.assoc)
  qed
  have "encode_type_and_flags Connect (default_flags Connect) = 0x10" by code_simp
  with ControlPacketType_parse_encode [OF assms flags_ok_default, of Connect]
  have "ControlPacketType_parse d 0x10 = Ok (Connect, default_flags Connect)" by simp
  moreover have "RemainingLengthSlice_parse d [0x80] = Err (Error_new NotEnoughSpace ''remaining length'')"
    by (simp add: RemainingLengthSlice_parse_def count_continue_flags_def RemainingLength_MAX_BYTES_def
        has_continue_flag_def CONTINUE_FLAG_def split_at_checked_def)
  ultimately show "should_require_more_bytes_for_fixed_header d"
    using assms by (simp add: should_require_more_bytes_for_fixed_header_def FixedHeaderSlice_parse_def
        zerocopy_laws test_simp)
qed

lemma connect_tests_ok:
  assumes "crates_ok d"
  shows "should_set_clean_session_on_empty d" "should_permit_keep_alive_zero d" "should_encode_connect d"
proof -
  show "should_set_clean_session_on_empty d"
    using assms by (simp add: should_set_clean_session_on_empty_def ConnectBuilder_with_empty_client_id_def
        ConnectFlags_empty_def ConnectBuilder_clean_session_def CLEAN_SESSION_def bitflags_laws Let_def)
  show "should_permit_keep_alive_zero d"
    using assms
    by (simp add: should_permit_keep_alive_zero_def KeepAlive_try_from_def test_simp)
  let ?b = "\<lparr>cb_client_id = str_literal ''client_id'', cb_flags = 0b11101110, cb_keepalive = \<lparr>seconds = 10\<rparr>,
      cb_will = Some \<lparr>will_topic = str_literal ''/will'', will_message = str_literal ''hello''\<rparr>,
      cb_username = Some (str_literal ''username''), cb_password = Some (str_literal ''passwd'')\<rparr>"
  have ka: "KeepAlive_try_from d (10 * nanos_per_sec) = Ok \<lparr>seconds = 10\<rparr>"
    using assms by (simp add: KeepAlive_try_from_def nanos_per_sec_def)
  have str: "mqtt_str_ok (str_literal ''client_id'')" "mqtt_str_ok (str_literal ''/will'')"
    "mqtt_str_ok (str_literal ''username'')" by code_simp+
  then have "connect_sendable d ?b" by (simp add: connect_sendable_def will_ok_def CONNECT_RESERVED_def)
  note w = write_test_emits [OF Connect_write_sync_emits [OF assms this]]
  have p: "connect_packet d ?b = [0b00010000, 53, 0, 4] @ str_literal ''MQTT'' @ [4, 0b11101110, 0, 10,
             0, 9] @ str_literal ''client_id'' @ [0, 5] @ str_literal ''/will'' @ [0, 5] @ str_literal ''hello'' @
             [0, 8] @ str_literal ''username'' @ [0, 6] @ str_literal ''passwd''"
  proof -
    have "connect_packet d ?b = connect_packet (std_crates True) ?b"
      by (simp only: connect_packet_def connect_body_def connect_payload_def ConnectHeader_as_bytes_def
          will_bytes_def [abs_def] buff_bytes_def [abs_def] u16_bytes_std [OF assms])
    also have "\<dots> = [0b00010000, 53, 0, 4] @ str_literal ''MQTT'' @ [4, 0b11101110, 0, 10,
             0, 9] @ str_literal ''client_id'' @ [0, 5] @ str_literal ''/will'' @ [0, 5] @ str_literal ''hello'' @
             [0, 8] @ str_literal ''username'' @ [0, 6] @ str_literal ''passwd''" by code_simp
    finally show ?thesis .
  qed
  have "ConnectBuilder_username_password d (str_literal ''username'') (str_literal ''passwd'')
      (ConnectBuilder_clean_session d (ConnectBuilder_will d (str_literal ''/will'') (str_literal ''hello'')
        AtLeastOnce True (ConnectBuilder_keepalive \<lparr>seconds = 10\<rparr>
          (ConnectBuilder_new_unchecked (str_literal ''client_id''))))) = ?b"
    using assms by (simp add: ConnectBuilder_username_password_def ConnectBuilder_clean_session_def
        ConnectBuilder_will_def ConnectBuilder_keepalive_def ConnectBuilder_new_unchecked_def bitflags_laws
        ConnectFlags_empty_def CONNECT_USERNAME_def CONNECT_PASSWORD_def CLEAN_SESSION_def WILL_FLAG_def
        WILL_QOS_RESET_def WILL_QOS_1_def WILL_RETAIN_def Let_def)
  moreover have "ConnectBuilder_create (str_literal ''client_id'') =
      Ok (ConnectBuilder_new_unchecked (str_literal ''client_id''))"
    by (simp add: ConnectBuilder_create_def ClientId_validate_value_def ConnectBuilder_new_unchecked_def)
  ultimately show "should_encode_connect d"
    unfolding should_encode_connect_def ka by (simp add: test_simp Let_def w p)
qed

lemma unit_tests_ok:
  assumes "crates_ok d"
  shows "disconnect_roundtrip d" "should_encode_and_decode_pingreq d" "should_encode_and_decode_pingresp d"
proof -
  have bytes: "unit_packet Disconnect = [0xE0, 0]" "unit_packet PingReq = [0xC0, 0]" "unit_packet PingResp = [0xD0, 0]"
    by code_simp+
  have parse: "unit_parse t d (unit_packet t) = Ok ((), [])" for t
    using unit_parse_packet [OF assms, of t "[]"] by simp
  note w = write_test_emits [OF unit_write_emits [OF assms]]
  show "disconnect_roundtrip d"
    unfolding disconnect_roundtrip_def unit_parse_eqs Disconnect_write_sync_def w parse unfolding bytes
    by (simp add: test_simp) code_simp
  show "should_encode_and_decode_pingreq d"
    unfolding should_encode_and_decode_pingreq_def unit_parse_eqs PingReq_write_sync_def w parse unfolding bytes
    by (simp add: test_simp) code_simp
  show "should_encode_and_decode_pingresp d"
    unfolding should_encode_and_decode_pingresp_def unit_parse_eqs PingResp_write_sync_def w parse unfolding bytes
    by (simp add: test_simp) code_simp
qed

lemma ack_tests_ok:
  assumes "crates_ok d"
  shows "puback_roundtrip d" "pubrec_roundtrip d" "pubrel_roundtrip d" "pubcomp_roundtrip d" "unsuback_roundtrip d"
proof -
  have k: "(10 :: u16) \<noteq> 0" by simp
  have "pkid_packet t d 10 = pkid_packet t (std_crates True) 10" for t
    by (simp only: pkid_packet_def u16_bytes_std [OF assms])
  moreover have "pkid_packet PubAck (std_crates True) 10 = [0x40, 2, 0, 10]"
    "pkid_packet PubRec (std_crates True) 10 = [0x50, 2, 0, 10]"
    "pkid_packet PubRel (std_crates True) 10 = [0x62, 2, 0, 10]"
    "pkid_packet PubComp (std_crates True) 10 = [0x70, 2, 0, 10]"
    "pkid_packet UnsubAck (std_crates True) 10 = [0xB0, 2, 0, 10]" by code_simp+
  ultimately have bytes: "pkid_packet PubAck d 10 = [0x40, 2, 0, 10]" "pkid_packet PubRec d 10 = [0x50, 2, 0, 10]"
    "pkid_packet PubRel d 10 = [0x62, 2, 0, 10]" "pkid_packet PubComp d 10 = [0x70, 2, 0, 10]"
    "pkid_packet UnsubAck d 10 = [0xB0, 2, 0, 10]" by simp_all
  note w = write_test_emits [OF pkid_write_emits [OF assms]]
  note c = puback.consume_enc [OF assms k] pubrec.consume_enc [OF assms k] pubrel.consume_enc [OF assms k]
    pubcomp.consume_enc [OF assms k] unsuback.consume_enc [OF assms k]
  show "puback_roundtrip d"
    unfolding puback_roundtrip_def PubAck_write_sync_eq w c test_simp unfolding bytes
    by (simp add: PacketId_read_def) code_simp
  show "pubrec_roundtrip d"
    unfolding pubrec_roundtrip_def PubRec_write_sync_eq w c test_simp unfolding bytes
    by (simp add: PacketId_read_def) code_simp
  show "pubrel_roundtrip d"
    unfolding pubrel_roundtrip_def PubRel_write_sync_eq w c test_simp unfolding bytes
    by (simp add: PacketId_read_def) code_simp
  show "pubcomp_roundtrip d"
    unfolding pubcomp_roundtrip_def PubComp_write_sync_eq w c test_simp unfolding bytes
    by (simp add: PacketId_read_def) code_simp
  show "unsuback_roundtrip d"
    unfolding unsuback_roundtrip_def UnsubAck_write_sync_eq w c test_simp unfolding bytes
    by (simp add: PacketId_read_def) code_simp
qed

lemma filter_strings_ok:
  "mqtt_str_ok (str_literal ''a/b'')" "mqtt_str_ok (str_literal ''c/d'')"
  "filter_levels_ok (topic_levels (str_literal ''a/b''))" "filter_levels_ok (topic_levels (str_literal ''c/d''))"
  "plain_level (str_literal ''a/b'')"
  "str_literal ''a/b'' = [0x61, 0x2F, 0x62]" "str_literal ''c/d'' = [0x63, 0x2F, 0x64]"
  by code_simp+

lemma publish_test_ok:
  assumes "crates_ok d"
  shows "should_encode_and_decode_publish d"
proof -
  let ?q = "PublishQos_AtLeastOnce True 10"
  let ?b = "\<lparr>pb_flags = 0b1010, pb_pkid = Some 10, pb_topic = str_literal ''a/b'', pb_payload = [42]\<rparr>"
  have b: "PublishBuilder_qos d ?q (PublishBuilder_new (str_literal ''a/b'') [42]) = ?b"
    using assms by (simp add: PublishBuilder_qos_def PublishBuilder_new_def bitflags_laws TypeFlags_all_def
        TypeFlags_empty_def PUBLISH_QOS_1_def PUBLISH_QOS_2_def PUBLISH_DUP_def Let_def)
  have ok: "publish_sendable ?b" "publish_consistent ?b"
    using filter_strings_ok by (simp_all add: publish_sendable_def publish_consistent_def flags_ok_def
        TypeFlags_all_def PUBLISH_QOS_1_def PUBLISH_QOS_2_def publish_size_def)
  have "publish_packet d ?b = publish_packet (std_crates True) ?b"
    by (simp only: publish_packet_def pkid_bytes_def buff_bytes_def u16_bytes_std [OF assms])
  also have "\<dots> = [0x3A, 8, 0, 3, 0x61, 0x2F, 0x62, 0, 10, 42]" by code_simp
  finally have bytes: "publish_packet d ?b = [0x3A, 8, 0, 3, 0x61, 0x2F, 0x62, 0, 10, 42]" .
  have "Decode_consume (Publish_parse d) (publish_packet d ?b) = Ok (publish_of ?b)"
    using Publish_parse_packet [OF assms ok, of "[]"] by simp
  note c = this [unfolded bytes]
  note w = write_test_emits [OF Publish_write_sync_emits [OF assms ok(1)], unfolded bytes]
  have fl: "flags_ok Publish 0b1010" by (simp add: flags_ok_def TypeFlags_all_def)
  show ?thesis
    unfolding should_encode_and_decode_publish_def b Let_def w c test_simp
    by (simp add: publish_of_def header_of_simps [OF fl] bitflags_laws [OF assms] PUBLISH_QOS_1_def PUBLISH_DUP_def PacketId_read_def MqttStr_as_str_def)
      code_simp
qed

context decoder
begin

text \<open>Reading a sequence of elements one by one.\<close>

lemma cursor_test_decodes:
  assumes "lawful d" "length bs \<le> usize_max" "pos \<le> length bs"
    and "decodes (parse d) (drop pos bs) xs" "list_all2 eq xs es"
  shows "cursor_test (cursor_read dbg (parse d)) eq es \<lparr>cur_bytes = bs, cur_pos = pos\<rparr>"
  using assms(3-)
proof (induction es arbitrary: pos xs)
  case Nil
  then have "pos = length bs" by (simp add: decodes_Nil_right)
  then show ?case by (simp add: cursor_read_end unwrap_test_def)
next
  case (Cons e es)
  then obtain x xs' where xs: "xs = x # xs'" "eq x e" "list_all2 eq xs' es" by (auto simp: list_all2_Cons2)
  with Cons.prems(2) obtain rest where x: "parse d (drop pos bs) = Ok (x, rest)" "decodes (parse d) rest xs'"
    and pos: "pos < length bs" by (auto simp: decodes_Cons_right)
  note after = drop_after [OF assms(1) x(1)]
  from cursor_read_step [OF assms(1), of "\<lparr>cur_bytes = bs, cur_pos = pos\<rparr>" dbg] assms(2) pos x(1)
  have "cursor_read dbg (parse d) \<lparr>cur_bytes = bs, cur_pos = pos\<rparr> =
      Ok (Some x, \<lparr>cur_bytes = bs, cur_pos = length bs - length rest\<rparr>)" by simp
  with Cons.IH [of "length bs - length rest" xs'] after x(2) xs show ?case by (simp add: unwrap_test_def)
qed

end

lemma subscribe_test_ok:
  assumes "crates_ok d"
  shows "subscribe_roundtrip d" "subscribe_iter_cursor d"
proof -
  let ?fs = "[\<lparr>sf_topic = str_literal ''a/b'', sf_qos = Requested_AtLeastOnce\<rparr>,
      \<lparr>sf_topic = str_literal ''c/d'', sf_qos = Requested_ExactlyOnce\<rparr>]"
  let ?b = "SubscribeBuilder_new 10 ?fs" and ?body = "[0, 3, 0x61, 0x2F, 0x62, 1, 0, 3, 0x63, 0x2F, 0x64, 2 :: u8]"
  have u16: "zc_u16_as_bytes d 3 = [0, 3]" "zc_u16_as_bytes d 10 = [0, 10]" using assms by (simp_all add: zerocopy_laws)
  have body: "concat (map (filter_bytes d) ?fs) = ?body"
    by (simp add: filter_bytes_def buff_bytes_def filter_strings_ok(6,7) u16)
  have ok: "subscribe_ok d ?b" and fs: "list_all filter_ok ?fs"
    using body filter_strings_ok by (simp_all add: subscribe_ok_def filter_ok_def SubscribeBuilder_new_def)
  have "frame_header Subscribe (default_flags Subscribe) 14 = [0x82, 14]" by code_simp
  then have bytes: "subscribe_packet d ?b = [0x82, 14, 0, 10] @ ?body"
    unfolding subscribe_packet_def filters_packet_def by (simp add: SubscribeBuilder_new_def body u16 del: concat.simps list.map)
  from topic_filter.decodes_enc [OF assms fs] body
  have dec: "decodes (TopicFilter_parse d) ?body (map filter_of ?fs)" by simp
  have it: "Subscribe_filters d \<lparr>subscribe_pkid = \<lparr>pkid = 10\<rparr>, subscribe_filters = ?body\<rparr> = Some (Ok (map filter_of ?fs))"
    by (rule Subscribe_filters_decodes [OF assms]) (use dec in \<open>simp_all add: usize_max_def\<close>)
  have parse: "Subscribe_parse d (subscribe_packet d ?b) =
      Some (Ok (\<lparr>subscribe_pkid = \<lparr>pkid = 10\<rparr>, subscribe_filters = ?body\<rparr>, []))"
    using Subscribe_parse_packet [OF assms ok, of "[]"] body by (simp add: SubscribeBuilder_new_def)
  note w = write_test_emits [OF Subscribe_write_sync_emits [OF assms ok]]
  show "subscribe_roundtrip d"
    unfolding subscribe_roundtrip_def Let_def w parse option.case
    unfolding bytes
    by (simp add: test_simp Decode_consume_def it filters_eq_test_def PacketId_read_def SubscribeBuilder_new_def
        TopicFilter_eq_def filter_of_def MqttStr_as_str_def) code_simp
  show "subscribe_iter_cursor d"
    unfolding subscribe_iter_cursor_def RawSubscribeCursor_read_eq
    by (rule topic_filter.cursor_test_decodes [OF assms, where xs = "map filter_of ?fs"])
      (use dec in \<open>simp_all add: usize_max_def filter_of_def MqttStr_as_str_def\<close>)
qed

lemma unsubscribe_test_ok:
  assumes "crates_ok d"
  shows "unsubscribe_roundtrip d" "unsubscribe_iter_cursor d"
proof -
  let ?fs = "[str_literal ''a/b'', str_literal ''c/d'']"
  let ?b = "UnsubscribeBuilder_new 10 ?fs" and ?body = "[0, 3, 0x61, 0x2F, 0x62, 0, 3, 0x63, 0x2F, 0x64 :: u8]"
  have u16: "zc_u16_as_bytes d 3 = [0, 3]" "zc_u16_as_bytes d 10 = [0, 10]" using assms by (simp_all add: zerocopy_laws)
  have body: "concat (map (buff_bytes d) ?fs) = ?body"
    by (simp add: buff_bytes_def filter_strings_ok(6,7) u16)
  have ok: "unsubscribe_ok d ?b" and fs: "list_all topic_ok ?fs"
    using body filter_strings_ok by (simp_all add: unsubscribe_ok_def topic_ok_def UnsubscribeBuilder_new_def)
  have "frame_header Unsubscribe (default_flags Unsubscribe) 12 = [0xA2, 12]" by code_simp
  then have bytes: "unsubscribe_packet d ?b = [0xA2, 12, 0, 10] @ ?body"
    unfolding unsubscribe_packet_def filters_packet_def
    by (simp add: UnsubscribeBuilder_new_def body u16 del: concat.simps list.map)
  from codec.decodes_enc [OF unsub_filter.codec_axioms assms fs] body
  have dec: "decodes (MqttStr_parse d) ?body (map str_of ?fs)" by simp
  have it: "Unsubscribe_filters d \<lparr>unsubscribe_pkid = \<lparr>pkid = 10\<rparr>, unsubscribe_filters = ?body\<rparr> =
      Some (Ok (map str_of ?fs))"
    by (rule Unsubscribe_filters_decodes [OF assms]) (use dec in \<open>simp_all add: usize_max_def\<close>)
  have parse: "Unsubscribe_parse d (unsubscribe_packet d ?b) =
      Some (Ok (\<lparr>unsubscribe_pkid = \<lparr>pkid = 10\<rparr>, unsubscribe_filters = ?body\<rparr>, []))"
    using Unsubscribe_parse_packet [OF assms ok, of "[]"] body by (simp add: UnsubscribeBuilder_new_def)
  note w = write_test_emits [OF Unsubscribe_write_sync_emits [OF assms ok]]
  show "unsubscribe_roundtrip d"
    unfolding unsubscribe_roundtrip_def Let_def w parse option.case
    unfolding bytes
    by (simp add: test_simp Decode_consume_def it filters_eq_test_def PacketId_read_def UnsubscribeBuilder_new_def
        MqttStr_eq_def MqttStr_as_str_def) code_simp
  show "unsubscribe_iter_cursor d"
    unfolding unsubscribe_iter_cursor_def RawUnsubscribeCursor_read_eq
    by (rule mqtt_str.cursor_test_decodes [OF assms, where xs = "map str_of ?fs"])
      (use dec in \<open>simp_all add: usize_max_def MqttStr_as_str_def\<close>)
qed

lemma suback_test_ok:
  assumes "crates_ok d"
  shows "suback_roundtrip d"
proof -
  let ?b = "\<lparr>sab_pkid = 10, sab_return_codes = [Qos0, Qos1, Qos2, Failure]\<rparr>"
  have ok: "suback_ok ?b" by (simp add: suback_ok_def)
  have "suback_packet d ?b = suback_packet (std_crates True) ?b"
    by (simp only: suback_packet_def u16_bytes_std [OF assms])
  also have "\<dots> = [0x90, 6, 0, 10, 0, 1, 2, 0x80]" by code_simp
  finally have bytes: "suback_packet d ?b = [0x90, 6, 0, 10, 0, 1, 2, 0x80]" .
  have "Decode_consume (SubAck_parse d) (suback_packet d ?b) = Ok (suback_of ?b)"
    using SubAck_parse_packet [OF assms ok, of "[]"] by simp
  note c = this [unfolded bytes]
  note w = write_test_emits [OF SubAck_write_sync_emits [OF assms ok], unfolded bytes]
  show ?thesis
    unfolding suback_roundtrip_def Let_def w c test_simp
    by (simp add: suback_of_def PacketId_read_def) code_simp
qed

section \<open>Correctness\<close>

text \<open>Every unit test of the repository holds of the model, in both builds and for any
  implementation of the third-party crates that keeps to what they document.\<close>

lemma unit_tests_hold:
  assumes "crates_ok d"
  shows "list_all (\<lambda>test. test) (unit_tests d)"
  using shared_tests_ok [OF assms] char_tests_ok wildcard_tests_ok [OF assms] header_tests_ok [OF assms]
    connect_tests_ok [OF assms] unit_tests_ok [OF assms] ack_tests_ok [OF assms] publish_test_ok [OF assms]
    suback_test_ok [OF assms] subscribe_test_ok [OF assms] unsubscribe_test_ok [OF assms]
  by (simp add: unit_tests_def use_macro_def assert_snapshot_def)

end
