(* ===== verification/Sync_Reader.thy ===== *)
theory Sync_Reader
  imports Fixed_Header
begin

text \<open>
  The buffered reader of the synchronous client (\<open>Reader\<close> in \<open>src/sync.rs\<close>, l. 437-577) and
  the part of \<open>std::io::Read\<close> it uses. A socket is the script of what its next reads find:
  some bytes, the end of the stream or an error; when the script is exhausted a read would
  block. Quantifying over scripts covers every way the network can split and delay a stream.
\<close>

section \<open>Sockets\<close>

datatype chunk = Data bytes | Fail io_error_kind

type_synonym socket = "chunk list"

text \<open>\<open>read\<close> into a buffer of \<open>n\<close> bytes; no bytes is the end of the stream.\<close>

definition sock_read :: "nat \<Rightarrow> socket \<Rightarrow> (bytes, io_error_kind) result \<times> socket" where
  "sock_read n s =
     (case s of
        [] \<Rightarrow> (Err WouldBlock, [])
      | Fail k # cs \<Rightarrow> (Err k, cs)
      | Data bs # cs \<Rightarrow>
          (Ok (take n bs), if length bs \<le> n then cs else Data (drop n bs) # cs))"

text \<open>
  The default \<open>read_exact\<close>: it retries on \<open>Interrupted\<close>, and on any other error the bytes
  it already read are in the caller's buffer and gone from the socket.
\<close>

function read_exact :: "nat \<Rightarrow> socket \<Rightarrow> (unit, io_error_kind) result \<times> bytes \<times> socket" where
  "read_exact n s =
     (if n = 0 then (Ok (), [], s)
      else case s of
        [] \<Rightarrow> (Err WouldBlock, [], [])
      | Fail k # cs \<Rightarrow> if k = Interrupted then read_exact n cs else (Err k, [], cs)
      | Data bs # cs \<Rightarrow>
          if bs = [] then (Err UnexpectedEof, [], cs)
          else if length bs \<le> n
            then (case read_exact (n - length bs) cs of (r, got, s') \<Rightarrow> (r, bs @ got, s'))
            else (Ok (), take n bs, Data (drop n bs) # cs))"
  by pat_completeness auto
termination by (relation "measure (\<lambda>(n, s). length s)") auto

declare read_exact.simps [simp del]

section \<open>The reader\<close>

record Reader =
  rd_buf :: bytes
  rd_pos :: usize
  rd_frame :: "usize option"
  rd_filled :: usize
  rd_inner :: socket

definition Reader_MIN :: usize where
  "Reader_MIN = 1 + RemainingLength_MAX_BYTES"

definition Reader_with_capacity :: "socket \<Rightarrow> usize \<Rightarrow> Reader option" where
  "Reader_with_capacity reader capacity =
     (if capacity < Reader_MIN then None
      else Some \<lparr>rd_buf = replicate capacity 0, rd_pos = 0, rd_frame = None, rd_filled = 0,
                 rd_inner = reader\<rparr>)"

text \<open>Indexing with a range panics when the range is not inside the slice.\<close>

definition slice_range :: "nat \<Rightarrow> nat \<Rightarrow> 'a list \<Rightarrow> 'a list option" where
  "slice_range a b xs = (if a \<le> b \<and> b \<le> length xs then Some (take (b - a) (drop a xs)) else None)"

definition write_at :: "nat \<Rightarrow> 'a list \<Rightarrow> 'a list \<Rightarrow> 'a list" where
  "write_at i ys xs = take i xs @ ys @ drop (i + length ys) xs"

definition Reader_buff :: "Reader \<Rightarrow> bytes res" where
  "Reader_buff this = expect (slice_range (rd_pos this) (rd_filled this) (rd_buf this))"

definition Reader_backshift :: "bool \<Rightarrow> (Reader, unit) st" where
  "Reader_backshift dbg this =
     (case slice_range (rd_pos this) (rd_filled this) (rd_buf this) of
        None \<Rightarrow> (Panic, this)
      | Some bs \<Rightarrow>
          let this = this\<lparr>rd_buf := write_at 0 bs (rd_buf this)\<rparr> in
          (case usize_sub dbg (rd_filled this) (rd_pos this) of
             Ok n \<Rightarrow> (Ok (), this\<lparr>rd_filled := n, rd_pos := 0\<rparr>)
           | Err e \<Rightarrow> (Err e, this)
           | Panic \<Rightarrow> (Panic, this)))"

definition Reader_fill_head :: "bool \<Rightarrow> (Reader, unit) st" where
  "Reader_fill_head dbg this =
     (case and_then (usize_sub dbg (rd_filled this) (rd_pos this)) (\<lambda>avail.
           and_then (usize_sub dbg Reader_MIN avail) (\<lambda>to_read.
           and_then (usize_add dbg (rd_filled this) to_read) (\<lambda>end.
           and_then (ok_or (Error_new NotEnoughSpace ''for header'')
                       (slice_range (rd_filled this) end (rd_buf this))) (\<lambda>buf.
           Ok (length buf))))) of
        Ok n \<Rightarrow>
          (case sock_read n (rd_inner this) of
             (Ok bs, s) \<Rightarrow>
               let this = this\<lparr>rd_inner := s, rd_buf := write_at (rd_filled this) bs (rd_buf this)\<rparr> in
               if length bs = 0
               then (Err (Error_new (StdIo UnexpectedEof) ''while reading''), this)
               else (case usize_add dbg (rd_filled this) (length bs) of
                   Ok f \<Rightarrow> (Ok (), this\<lparr>rd_filled := f\<rparr>)
                 | Err e \<Rightarrow> (Err e, this)
                 | Panic \<Rightarrow> (Panic, this))
           | (Err k, s) \<Rightarrow> (Err (Error_new (StdIo k) ''while reading''), this\<lparr>rd_inner := s\<rparr>)
           | (Panic, s) \<Rightarrow> (Panic, this\<lparr>rd_inner := s\<rparr>))
      | Err e \<Rightarrow> (Err e, this)
      | Panic \<Rightarrow> (Panic, this))"

text \<open>The loop of \<open>next_frame\<close>; not returning is \<open>None\<close>.\<close>

partial_function (option) Reader_next_frame_loop ::
    "crates \<Rightarrow> Reader \<Rightarrow> (usize res \<times> Reader) option" where
  "Reader_next_frame_loop d this =
     (case and_then (Reader_buff this) (FixedHeader_next_frame d) of
        Ok (Some frame) \<Rightarrow> Some (Ok frame, this\<lparr>rd_frame := Some frame\<rparr>)
      | Ok None \<Rightarrow>
          (case Reader_fill_head (debug_assertions d) this of
             (Ok _, this) \<Rightarrow> Reader_next_frame_loop d this
           | (Err e, this) \<Rightarrow> Some (Err e, this)
           | (Panic, this) \<Rightarrow> Some (Panic, this))
      | Err e \<Rightarrow> Some (Err e, this)
      | Panic \<Rightarrow> Some (Panic, this))"

declare Reader_next_frame_loop.simps [code]

definition Reader_next_frame :: "crates \<Rightarrow> Reader \<Rightarrow> (usize res \<times> Reader) option" where
  "Reader_next_frame d this =
     (let dbg = debug_assertions d in
      case (if dbg
            then and_then (usize_sub dbg (rd_filled this) (rd_pos this)) (\<lambda>n.
                 debug_assert dbg (n < Reader_MIN) (Ok ()))
            else Ok ()) of
        Ok _ \<Rightarrow>
          (case Reader_backshift dbg this of
             (Ok _, this) \<Rightarrow> Reader_next_frame_loop d this
           | (Err e, this) \<Rightarrow> Some (Err e, this)
           | (Panic, this) \<Rightarrow> Some (Panic, this))
      | Err e \<Rightarrow> Some (Err e, this)
      | Panic \<Rightarrow> Some (Panic, this))"

definition Reader_read_frame :: "usize \<Rightarrow> (Reader, bytes) st" where
  "Reader_read_frame bytes this =
     (if length (rd_buf this) < bytes
      then (Err (Error_new OutOfRange ''payload is too big''), this)
      else if rd_filled this < bytes
      then (case read_exact (bytes - rd_filled this) (rd_inner this) of
          (Ok _, got, s) \<Rightarrow>
            let this = this\<lparr>rd_inner := s, rd_buf := write_at (rd_filled this) got (rd_buf this),
                            rd_filled := bytes\<rparr>
            in (Reader_buff this, this)
        | (Err k, got, s) \<Rightarrow>
            (Err (Error_new (StdIo k) ''while reading''),
             this\<lparr>rd_inner := s, rd_buf := write_at (rd_filled this) got (rd_buf this)\<rparr>)
        | (Panic, got, s) \<Rightarrow> (Panic, this\<lparr>rd_inner := s\<rparr>))
      else (Reader_buff this, this))"

definition Reader_read :: "crates \<Rightarrow> Reader \<Rightarrow> (bytes res \<times> Reader) option" where
  "Reader_read d this =
     (case (case rd_frame this of
              None \<Rightarrow> Reader_next_frame d this
            | Some frame \<Rightarrow> Some (Ok frame, this)) of
        Some (Ok frame, this) \<Rightarrow> Some (Reader_read_frame frame this)
      | Some (Err e, this) \<Rightarrow> Some (Err e, this)
      | Some (Panic, this) \<Rightarrow> Some (Panic, this)
      | None \<Rightarrow> None)"

definition Reader_consume :: "bool \<Rightarrow> (Reader, unit) st" where
  "Reader_consume dbg this =
     (case rd_frame this of
        None \<Rightarrow> (Ok (), this)
      | Some frame \<Rightarrow>
          let this = this\<lparr>rd_frame := None\<rparr> in
          (case usize_add dbg (rd_pos this) frame of
             Ok n \<Rightarrow> (Ok (), this\<lparr>rd_pos := min n (rd_filled this)\<rparr>)
           | Err e \<Rightarrow> (Err e, this)
           | Panic \<Rightarrow> (Panic, this)))"

section \<open>Buffers\<close>

lemma Reader_MIN_5 [simp]: "Reader_MIN = 5"
  by (simp add: Reader_MIN_def RemainingLength_MAX_BYTES_def)

lemma length_write_at: "i + length ys \<le> length xs \<Longrightarrow> length (write_at i ys xs) = length xs"
  by (simp add: write_at_def)

lemma take_write_at: "i \<le> length xs \<Longrightarrow> take (i + length ys) (write_at i ys xs) = take i xs @ ys"
  by (simp add: write_at_def)

text \<open>The bytes in the buffer that were not handed out, and those the socket still holds.\<close>

definition pending :: "Reader \<Rightarrow> bytes" where
  "pending r = take (rd_filled r - rd_pos r) (drop (rd_pos r) (rd_buf r))"

primrec chunk_bytes :: "chunk \<Rightarrow> bytes" where
  "chunk_bytes (Data bs) = bs"
| "chunk_bytes (Fail k) = []"

definition avail :: "socket \<Rightarrow> bytes" where
  "avail s = concat (map chunk_bytes s)"

definition stream :: "Reader \<Rightarrow> bytes" where
  "stream r = pending r @ avail (rd_inner r)"

text \<open>A socket that neither fails nor reports the end of the stream while it has data.\<close>

definition steady :: "socket \<Rightarrow> bool" where
  "steady s \<longleftrightarrow> list_all (\<lambda>c. case c of Data bs \<Rightarrow> bs \<noteq> [] | Fail _ \<Rightarrow> False) s"

definition reader_inv :: "Reader \<Rightarrow> bool" where
  "reader_inv r \<longleftrightarrow>
     rd_pos r \<le> rd_filled r \<and> rd_filled r \<le> length (rd_buf r) \<and> 5 \<le> length (rd_buf r) \<and>
     length (rd_buf r) \<le> usize_max \<and>
     (case rd_frame r of
        None \<Rightarrow> rd_filled r - rd_pos r \<le> 5
      | Some n \<Rightarrow> rd_pos r = 0 \<and> 2 \<le> n \<and> n \<le> usize_max \<and> (rd_filled r \<le> 5 \<or> rd_filled r = n))"

text \<open>The reader may look for a header: fewer bytes are buffered than the longest one has.\<close>

definition reader_ready :: "Reader \<Rightarrow> bool" where
  "reader_ready r \<longleftrightarrow> reader_inv r \<and> (rd_frame r = None \<longrightarrow> rd_filled r - rd_pos r < 5)"

lemma length_pending: "reader_inv r \<Longrightarrow> length (pending r) = rd_filled r - rd_pos r"
  by (auto simp: pending_def reader_inv_def min_def)

lemma Reader_buff_pending: "reader_inv r \<Longrightarrow> Reader_buff r = Ok (pending r)"
  by (simp add: Reader_buff_def slice_range_def pending_def reader_inv_def)

lemma pending_pos0: "rd_pos r = 0 \<Longrightarrow> pending r = take (rd_filled r) (rd_buf r)"
  by (simp add: pending_def)

lemma sock_read_avail:
  "sock_read n s = (Ok bs, s') \<Longrightarrow> avail s = bs @ avail s' \<and> length bs \<le> n"
  "sock_read n s = (Err k, s') \<Longrightarrow> avail s = avail s'"
  "sock_read n s \<noteq> (Panic, s')"
  by (auto simp: sock_read_def avail_def split: list.splits chunk.splits if_splits)

lemma sock_read_steady:
  assumes "steady s" "avail s \<noteq> []" "0 < n"
  shows "\<exists>bs s'. sock_read n s = (Ok bs, s') \<and> bs \<noteq> [] \<and> steady s'"
proof -
  from assms(1,2) obtain bs cs where s: "s = Data bs # cs" "bs \<noteq> []" "steady cs"
    by (cases s) (auto simp: steady_def avail_def split: chunk.splits)
  with assms(3) show ?thesis
    by (cases "length bs \<le> n") (auto simp: sock_read_def steady_def)
qed

section \<open>Looking for a header\<close>

lemma fill_head_eq:
  assumes "rd_pos r = 0" "rd_filled r < 5" "5 \<le> length (rd_buf r)" "length (rd_buf r) \<le> usize_max"
    and read: "sock_read (5 - rd_filled r) (rd_inner r) = (res, s)"
  shows "Reader_fill_head dbg r =
    (case res of
       Ok bs \<Rightarrow>
         if bs = []
         then (Err (Error_new (StdIo UnexpectedEof) ''while reading''),
               r\<lparr>rd_inner := s, rd_buf := write_at (rd_filled r) bs (rd_buf r)\<rparr>)
         else (Ok (), r\<lparr>rd_inner := s, rd_buf := write_at (rd_filled r) bs (rd_buf r),
                        rd_filled := rd_filled r + length bs\<rparr>)
     | Err k \<Rightarrow> (Err (Error_new (StdIo k) ''while reading''), r\<lparr>rd_inner := s\<rparr>)
     | Panic \<Rightarrow> (Panic, r\<lparr>rd_inner := s\<rparr>))"
proof -
  have l: "rd_filled r + (5 - rd_filled r) = 5" using assms(2) by simp
  have n: "and_then (usize_sub dbg (rd_filled r) (rd_pos r)) (\<lambda>avail.
           and_then (usize_sub dbg Reader_MIN avail) (\<lambda>to_read.
           and_then (usize_add dbg (rd_filled r) to_read) (\<lambda>end.
           and_then (ok_or (Error_new NotEnoughSpace ''for header'')
                       (slice_range (rd_filled r) end (rd_buf r))) (\<lambda>buf.
           Ok (length buf))))) = (Ok (5 - rd_filled r) :: usize res)"
    using assms l by (simp add: usize_sub_def usize_add_def slice_range_def)
  show ?thesis
  proof (cases res)
    case (Ok bs)
    then have "length bs \<le> 5 - rd_filled r" using sock_read_avail(1) read by blast
    then have "rd_filled r + length bs \<le> usize_max" using assms(2-4) by simp
    with Ok show ?thesis
      unfolding Reader_fill_head_def n by (simp add: read Let_def usize_add_eq)
  qed (unfold Reader_fill_head_def n, simp_all add: read)
qed

lemma fill_head_pending:
  assumes "rd_pos r = 0" "rd_filled r < 5" "5 \<le> length (rd_buf r)" "length bs \<le> 5 - rd_filled r"
  shows "pending (r\<lparr>rd_inner := s, rd_buf := write_at (rd_filled r) bs (rd_buf r),
      rd_filled := rd_filled r + length bs\<rparr>) = pending r @ bs"
  using assms take_write_at [of "rd_filled r" "rd_buf r" bs] by (simp add: pending_pos0)

text \<open>What the search for a header leaves behind.\<close>

definition head_state :: "Reader \<Rightarrow> bool" where
  "head_state r \<longleftrightarrow>
     rd_pos r = 0 \<and> rd_frame r = None \<and> rd_filled r \<le> 5 \<and> 5 \<le> length (rd_buf r) \<and>
     length (rd_buf r) \<le> usize_max"

definition head_result :: "crates \<Rightarrow> usize res \<Rightarrow> Reader \<Rightarrow> bool" where
  "head_result d res r \<longleftrightarrow>
     (case res of
        Ok n \<Rightarrow> head_state (r\<lparr>rd_frame := None\<rparr>) \<and> rd_frame r = Some n \<and>
                FixedHeader_next_frame d (pending r) = Ok (Some n)
      | Err e \<Rightarrow> head_state r \<and>
          (rd_filled r < 5 \<and> (\<exists>k. e = Error_new (StdIo k) ''while reading'') \<or>
           FixedHeader_next_frame d (pending r) = Err e)
      | Panic \<Rightarrow> False)"

lemma head_state_inv: "head_state r \<Longrightarrow> reader_inv r"
  by (simp add: head_state_def reader_inv_def)

lemma pending_frame [simp]: "pending (r\<lparr>rd_frame := x\<rparr>) = pending r"
  by (simp add: pending_def)

lemma head_fill:
  assumes h: "head_state r" and f: "rd_filled r < 5"
    and read: "sock_read (5 - rd_filled r) (rd_inner r) = (Ok bs, s)" and bs: "bs \<noteq> []"
  shows "\<exists>r'. Reader_fill_head dbg r = (Ok (), r') \<and> head_state r' \<and> stream r' = stream r \<and>
    rd_inner r' = s \<and> length (rd_buf r') = length (rd_buf r) \<and> rd_filled r < rd_filled r'"
proof -
  from h have r: "rd_pos r = 0" "5 \<le> length (rd_buf r)" "length (rd_buf r) \<le> usize_max" "rd_frame r = None"
    by (simp_all add: head_state_def)
  from sock_read_avail(1) [OF read] have len: "length bs \<le> 5 - rd_filled r" and av: "avail (rd_inner r) = bs @ avail s"
    by blast+
  let ?r = "r\<lparr>rd_inner := s, rd_buf := write_at (rd_filled r) bs (rd_buf r), rd_filled := rd_filled r + length bs\<rparr>"
  have "Reader_fill_head dbg r = (Ok (), ?r)"
    using fill_head_eq [OF r(1) f r(2,3) read] bs by simp
  moreover have "stream ?r = stream r"
    using fill_head_pending [OF r(1) f r(2) len] av by (simp add: stream_def)
  moreover have "length (rd_buf ?r) = length (rd_buf r)"
    using len f r(2) by (simp add: length_write_at)
  ultimately show ?thesis using r f len bs by (intro exI [of _ ?r]) (simp add: head_state_def)
qed

lemma write_at_Nil [simp]: "write_at i [] xs = xs"
  by (simp add: write_at_def)

lemma head_stop:
  assumes h: "head_state r" and f: "rd_filled r < 5"
    and read: "sock_read (5 - rd_filled r) (rd_inner r) = (res, s)" and "\<nexists>bs. res = Ok bs \<and> bs \<noteq> []"
  shows "\<exists>k. Reader_fill_head dbg r = (Err (Error_new (StdIo k) ''while reading''), r\<lparr>rd_inner := s\<rparr>) \<and>
    head_state (r\<lparr>rd_inner := s\<rparr>) \<and> stream (r\<lparr>rd_inner := s\<rparr>) = stream r"
proof -
  from h have r: "rd_pos r = 0" "5 \<le> length (rd_buf r)" "length (rd_buf r) \<le> usize_max"
    by (simp_all add: head_state_def)
  have hs: "head_state (r\<lparr>rd_inner := s\<rparr>)" using h by (simp add: head_state_def)
  from assms(4) read sock_read_avail(3) [of "5 - rd_filled r" "rd_inner r" s]
  have cases: "res = Ok [] \<or> (\<exists>k. res = Err k)" by (cases res) auto
  then have "avail (rd_inner r) = avail s" using read sock_read_avail(1,2) by fastforce
  then have st: "stream (r\<lparr>rd_inner := s\<rparr>) = stream r" by (simp add: stream_def pending_def)
  have upd: "r\<lparr>rd_inner := s, rd_buf := rd_buf r\<rparr> = r\<lparr>rd_inner := s\<rparr>" by simp
  from cases have "\<exists>k. Reader_fill_head dbg r = (Err (Error_new (StdIo k) ''while reading''), r\<lparr>rd_inner := s\<rparr>)"
    using fill_head_eq [OF r(1) f r(2,3) read, of dbg] by (auto simp: upd)
  with hs st show ?thesis by blast
qed

text \<open>The search ends on every socket, without a panic, and loses no byte.\<close>

lemma next_frame_loop_total:
  assumes "head_state r"
  shows "\<exists>res r'. Reader_next_frame_loop d r = Some (res, r') \<and> head_result d res r' \<and>
    stream r' = stream r \<and> length (rd_buf r') = length (rd_buf r)"
  using assms
proof (induction "5 - rd_filled r" arbitrary: r rule: less_induct)
  case less
  note buff = Reader_buff_pending [OF head_state_inv [OF less.prems]]
  show ?case
  proof (cases "FixedHeader_next_frame d (pending r)")
    case (Ok ov)
    show ?thesis
    proof (cases ov)
      case (Some n)
      with Ok buff less.prems show ?thesis
        by (subst Reader_next_frame_loop.simps)
          (simp add: head_result_def head_state_def stream_def)
    next
      case None
      with Ok have "length (pending r) \<le> 4" by (simp add: FixedHeader_next_frame_None) auto
      then have f: "rd_filled r < 5"
        using length_pending [OF head_state_inv [OF less.prems]] less.prems by (simp add: head_state_def)
      obtain res s where read: "sock_read (5 - rd_filled r) (rd_inner r) = (res, s)" by fastforce
      show ?thesis
      proof (cases "\<exists>bs. res = Ok bs \<and> bs \<noteq> []")
        case True
        with head_fill [OF less.prems f] read obtain r' where r':
          "Reader_fill_head (debug_assertions d) r = (Ok (), r')" "head_state r'" "stream r' = stream r"
          "length (rd_buf r') = length (rd_buf r)" "rd_filled r < rd_filled r'" by blast
        from r'(5) f have "5 - rd_filled r' < 5 - rd_filled r" by linarith
        from less.hyps [OF this r'(2)] r' Ok None buff show ?thesis
          by (subst Reader_next_frame_loop.simps) simp
      next
        case False
        from head_stop [OF less.prems f read False] obtain k where k:
          "Reader_fill_head (debug_assertions d) r = (Err (Error_new (StdIo k) ''while reading''), r\<lparr>rd_inner := s\<rparr>)"
          "head_state (r\<lparr>rd_inner := s\<rparr>)" "stream (r\<lparr>rd_inner := s\<rparr>) = stream r" by blast
        with f Ok None buff show ?thesis
          by (subst Reader_next_frame_loop.simps) (auto simp: head_result_def)
      qed
    qed
  next
    case (Err e)
    with buff less.prems show ?thesis
      by (subst Reader_next_frame_loop.simps) (simp add: head_result_def)
  next
    case Panic
    with FixedHeader_next_frame_no_Panic show ?thesis by blast
  qed
qed

section \<open>Reading the rest of a frame\<close>

lemma read_exact_cases:
  "read_exact 0 s = (Ok (), [], s)"
  "0 < n \<Longrightarrow> read_exact n [] = (Err WouldBlock, [], [])"
  "0 < n \<Longrightarrow> read_exact n (Fail k # cs) =
     (if k = Interrupted then read_exact n cs else (Err k, [], cs))"
  "0 < n \<Longrightarrow> read_exact n (Data bs # cs) =
     (if bs = [] then (Err UnexpectedEof, [], cs)
      else if length bs \<le> n
        then (case read_exact (n - length bs) cs of (r, got, s') \<Rightarrow> (r, bs @ got, s'))
        else (Ok (), take n bs, Data (drop n bs) # cs))"
  by (subst read_exact.simps, simp)+

lemma read_exact_avail:
  "read_exact n s = (res, got, s') \<Longrightarrow>
   res \<noteq> Panic \<and> length got \<le> n \<and> avail s = got @ avail s' \<and> (res = Ok () \<longrightarrow> length got = n)"
proof (induction n s arbitrary: res got s' rule: read_exact.induct)
  case (1 n s)
  show ?case
  proof (cases "n = 0")
    case False
    show ?thesis
    proof (cases s)
      case Nil
      with False 1(3) show ?thesis by (auto simp: read_exact_cases avail_def)
    next
      case (Cons c cs)
      show ?thesis
      proof (cases c)
        case (Fail k)
        with Cons False 1 show ?thesis
          by (cases "k = Interrupted") (auto simp: read_exact_cases avail_def)
      next
        case (Data bs)
        with Cons have sd: "s = Data bs # cs" by simp
        show ?thesis
        proof (cases "bs = [] \<or> n < length bs")
          case True
          with sd False 1(3) show ?thesis
            by (cases "bs = []") (auto simp: read_exact_cases avail_def split: if_splits)
        next
          case long: False
          then have bs: "bs \<noteq> []" "length bs \<le> n" by simp_all
          obtain r g t where rec: "read_exact (n - length bs) cs = (r, g, t)" by (metis prod_cases3)
          from 1(1) [OF False sd refl bs rec] 1(3) sd False bs rec show ?thesis
            by (auto simp: read_exact_cases avail_def)
        qed
      qed
    qed
  qed (use 1(3) in \<open>auto simp: read_exact_cases\<close>)
qed

lemma read_exact_steady:
  "steady s \<Longrightarrow> n \<le> length (avail s) \<Longrightarrow> \<exists>got s'. read_exact n s = (Ok (), got, s') \<and> steady s'"
proof (induction n s rule: read_exact.induct)
  case (1 n s)
  show ?case
  proof (cases "n = 0")
    case True
    with 1(3) show ?thesis by (simp add: read_exact_cases)
  next
    case False
    with 1(3,4) obtain bs cs where s: "s = Data bs # cs" "bs \<noteq> []" "steady cs"
      by (cases s) (auto simp: steady_def avail_def split: chunk.splits)
    show ?thesis
    proof (cases "length bs \<le> n")
      case True
      with 1(4) s have "n - length bs \<le> length (avail cs)" by (auto simp: avail_def)
      with 1(1) [OF False s(1) refl s(2) True s(3)] s True False show ?thesis
        by (auto simp: read_exact_cases)
    next
      case long: False
      with s False show ?thesis by (auto simp: read_exact_cases steady_def)
    qed
  qed
qed

lemma backshift_eq:
  assumes "reader_inv r"
  shows "\<exists>r'. Reader_backshift dbg r = (Ok (), r') \<and> rd_pos r' = 0 \<and> rd_filled r' = rd_filled r - rd_pos r \<and>
    pending r' = pending r \<and> rd_frame r' = rd_frame r \<and> length (rd_buf r') = length (rd_buf r) \<and>
    rd_inner r' = rd_inner r"
proof -
  let ?n = "rd_filled r - rd_pos r"
  let ?r = "r\<lparr>rd_buf := write_at 0 (pending r) (rd_buf r), rd_filled := ?n, rd_pos := 0\<rparr>"
  have l: "length (pending r) = ?n" by (rule length_pending [OF assms])
  from assms have r: "rd_pos r \<le> rd_filled r" "rd_filled r \<le> length (rd_buf r)"
    by (simp_all add: reader_inv_def)
  have "Reader_backshift dbg r = (Ok (), ?r)"
    using r by (simp add: Reader_backshift_def slice_range_def pending_def usize_sub_eq Let_def)
  moreover have "pending ?r = pending r"
    using take_write_at [of 0 "rd_buf r" "pending r"] l by (simp add: pending_pos0)
  moreover have "length (rd_buf ?r) = length (rd_buf r)" using l r by (simp add: length_write_at)
  ultimately show ?thesis by (intro exI [of _ ?r]) simp
qed

lemma Reader_next_frame_start:
  assumes "reader_ready r" "rd_frame r = None"
  shows "\<exists>r1. Reader_next_frame d r = Reader_next_frame_loop d r1 \<and> head_state r1 \<and>
    stream r1 = stream r \<and> rd_inner r1 = rd_inner r \<and> length (rd_buf r1) = length (rd_buf r)"
proof -
  from assms have r: "reader_inv r" "rd_filled r - rd_pos r < 5" "rd_pos r \<le> rd_filled r"
    "5 \<le> length (rd_buf r)" "length (rd_buf r) \<le> usize_max"
    by (simp_all add: reader_ready_def reader_inv_def)
  obtain r1 where r1: "Reader_backshift (debug_assertions d) r = (Ok (), r1)" "rd_pos r1 = 0"
    "rd_filled r1 = rd_filled r - rd_pos r" "pending r1 = pending r" "rd_frame r1 = rd_frame r"
    "length (rd_buf r1) = length (rd_buf r)" "rd_inner r1 = rd_inner r"
    using backshift_eq [OF r(1)] by blast
  have "head_state r1" using r1 r assms(2) by (simp add: head_state_def)
  moreover have "stream r1 = stream r" using r1 by (simp add: stream_def)
  moreover have "Reader_next_frame d r = Reader_next_frame_loop d r1"
    using r r1(1) by (cases "debug_assertions d") (simp_all add: Reader_next_frame_def usize_sub_eq Let_def)
  ultimately show ?thesis using r1 by auto
qed

lemma Reader_next_frame_total:
  assumes "reader_ready r" "rd_frame r = None"
  shows "\<exists>res r'. Reader_next_frame d r = Some (res, r') \<and> head_result d res r' \<and>
    stream r' = stream r \<and> length (rd_buf r') = length (rd_buf r)"
proof -
  from Reader_next_frame_start [OF assms, of d] obtain r1
    where "Reader_next_frame d r = Reader_next_frame_loop d r1" "head_state r1"
      "stream r1 = stream r" "length (rd_buf r1) = length (rd_buf r)" by blast
  with next_frame_loop_total [of r1 d] show ?thesis by auto
qed

lemma next_frame_bounds:
  assumes "FixedHeader_next_frame d buf = Ok (Some n)"
  shows "2 \<le> n" "n \<le> usize_max"
proof -
  from assms obtain b bs rest where *: "rl_wf bs" "n = 1 + length bs + rl_value bs"
    by (auto simp: FixedHeader_next_frame_Some)
  then have l: "0 < length bs" "length bs \<le> 4" by (simp_all add: rl_wf_def)
  then show "2 \<le> n" using *(2) by linarith
  have "(128 :: nat) ^ length bs \<le> 128 ^ 4" using l(2) by (intro power_increasing) simp_all
  with rl_value_bound [of bs] l(2) show "n \<le> usize_max" by (simp add: * usize_max_def)
qed

lemma head_result_Ok_inv:
  assumes "head_result d (Ok n) r"
  shows "reader_inv r" "rd_frame r = Some n" "rd_filled r \<le> 5" "rd_pos r = 0"
proof -
  from assms have h: "head_state (r\<lparr>rd_frame := None\<rparr>)" and f: "rd_frame r = Some n"
    and n: "FixedHeader_next_frame d (pending r) = Ok (Some n)" by (simp_all add: head_result_def)
  from h f next_frame_bounds [OF n] show "reader_inv r" "rd_frame r = Some n" "rd_filled r \<le> 5" "rd_pos r = 0"
    by (simp_all add: head_state_def reader_inv_def)
qed

text \<open>One frame, from a reader that knows its length.\<close>

lemma Reader_read_frame_total:
  assumes "reader_inv r" "rd_frame r = Some n" "Reader_read_frame n r = (res, r')"
  shows "res \<noteq> Panic" "reader_inv r'" "rd_frame r' = Some n" "length (rd_buf r') = length (rd_buf r)"
    and "\<And>bs. res = Ok bs \<Longrightarrow> pending r' = bs \<and> n \<le> length bs \<and> length bs \<le> max 5 n \<and> stream r' = stream r"
proof -
  from assms(1,2) have r: "rd_pos r = 0" "2 \<le> n" "n \<le> usize_max" "rd_filled r \<le> 5 \<or> rd_filled r = n"
    "rd_filled r \<le> length (rd_buf r)" "5 \<le> length (rd_buf r)" "length (rd_buf r) \<le> usize_max"
    by (simp_all add: reader_inv_def)
  note pend = length_pending [OF assms(1)]
  have "res \<noteq> Panic \<and> reader_inv r' \<and> rd_frame r' = Some n \<and> length (rd_buf r') = length (rd_buf r) \<and>
    (\<forall>bs. res = Ok bs \<longrightarrow> pending r' = bs \<and> n \<le> length bs \<and> length bs \<le> max 5 n \<and> stream r' = stream r)"
  proof (cases "length (rd_buf r) < n \<or> n \<le> rd_filled r")
    case True
    with assms Reader_buff_pending [OF assms(1)] pend r show ?thesis
      by (auto simp: Reader_read_frame_def split: if_splits)
  next
    case False
    then have n: "n \<le> length (rd_buf r)" "rd_filled r < n" by simp_all
    obtain er got s where ex: "read_exact (n - rd_filled r) (rd_inner r) = (er, got, s)" by (metis prod_cases3)
    note ra = read_exact_avail [OF ex]
    let ?buf = "write_at (rd_filled r) got (rd_buf r)"
    have lb: "length ?buf = length (rd_buf r)" using ra n by (intro length_write_at) linarith
    show ?thesis
    proof (cases er)
      case (Ok u)
      let ?r = "r\<lparr>rd_inner := s, rd_buf := ?buf, rd_filled := n\<rparr>"
      have inv: "reader_inv ?r" using r n lb assms(2) by (simp add: reader_inv_def)
      have g: "length got = n - rd_filled r" using ra Ok by simp
      then have p: "pending ?r = pending r @ got"
        using take_write_at [of "rd_filled r" "rd_buf r" got] r n by (simp add: pending_pos0)
      have "(res, r') = (Ok (pending ?r), ?r)"
        using assms(3) n ex Ok Reader_buff_pending [OF inv]
        by (auto simp: Reader_read_frame_def Let_def)
      moreover have "stream ?r = stream r" using p ra by (simp add: stream_def)
      moreover have "length (pending ?r) = n" using p g pend r n by simp
      ultimately show ?thesis using inv lb assms(2) by simp
    next
      case (Err k)
      with assms(3) n ex have "res = Err (Error_new (StdIo k) ''while reading'')"
        "r' = r\<lparr>rd_inner := s, rd_buf := ?buf\<rparr>" by (simp_all add: Reader_read_frame_def)
      with r n lb assms(2) show ?thesis by (simp add: reader_inv_def)
    qed (use ra in simp)
  qed
  then show "res \<noteq> Panic" "reader_inv r'" "rd_frame r' = Some n" "length (rd_buf r') = length (rd_buf r)"
    and "\<And>bs. res = Ok bs \<Longrightarrow> pending r' = bs \<and> n \<le> length bs \<and> length bs \<le> max 5 n \<and> stream r' = stream r"
    by blast+
qed

text \<open>Reading ends, never panics and keeps the reader usable, whatever the socket does.\<close>

lemma Reader_read_total_aux:
  assumes "reader_ready r"
  shows "\<exists>res r'. Reader_read d r = Some (res, r') \<and> res \<noteq> Panic \<and> reader_inv r' \<and>
    length (rd_buf r') = length (rd_buf r) \<and>
    (reader_ready r' \<or> (\<exists>e. res = Err e \<and> FixedHeader_next_frame d (pending r') = Err e))"
proof (cases "rd_frame r")
  case (Some n)
  obtain res r' where rf: "Reader_read_frame n r = (res, r')" by fastforce
  have inv: "reader_inv r" using assms by (simp add: reader_ready_def)
  from Reader_read_frame_total [OF inv Some rf] Some rf show ?thesis
    by (simp add: Reader_read_def reader_ready_def)
next
  case None
  from Reader_next_frame_total [OF assms None, of d] obtain hr r1 where
    h: "Reader_next_frame d r = Some (hr, r1)" "head_result d hr r1" "length (rd_buf r1) = length (rd_buf r)"
    by blast
  show ?thesis
  proof (cases hr)
    case (Ok n)
    note inv = head_result_Ok_inv [OF h(2) [unfolded Ok]]
    obtain res r' where rf: "Reader_read_frame n r1 = (res, r')" by fastforce
    from Reader_read_frame_total [OF inv(1,2) rf] None h Ok rf show ?thesis
      by (simp add: Reader_read_def reader_ready_def)
  next
    case (Err e)
    with h(2) have hs: "head_state r1" and e: "rd_filled r1 < 5 \<or> FixedHeader_next_frame d (pending r1) = Err e"
      by (auto simp: head_result_def)
    from hs have "reader_inv r1" "rd_pos r1 = 0" by (simp_all add: head_state_inv head_state_def)
    with e None h Err show ?thesis by (auto simp: Reader_read_def reader_ready_def)
  qed (use h in \<open>simp add: head_result_def\<close>)
qed

section \<open>Consuming\<close>

lemma Reader_consume_total:
  assumes "reader_inv r" "rd_filled r \<le> length (rd_buf r)"
  shows "\<exists>r'. Reader_consume dbg r = (Ok (), r') \<and> rd_frame r' = None \<and> rd_inner r' = rd_inner r \<and>
    rd_buf r' = rd_buf r \<and>
    pending r' = (case rd_frame r of None \<Rightarrow> pending r | Some n \<Rightarrow> drop n (pending r)) \<and> reader_inv r' \<and>
    (rd_frame r \<noteq> None \<longrightarrow> reader_ready r')"
proof (cases "rd_frame r")
  case None
  with assms show ?thesis by (simp add: Reader_consume_def)
next
  case (Some n)
  with assms have r: "rd_pos r = 0" "2 \<le> n" "n \<le> usize_max" "rd_filled r \<le> 5 \<or> rd_filled r = n"
    "rd_filled r \<le> length (rd_buf r)" "5 \<le> length (rd_buf r)" "length (rd_buf r) \<le> usize_max"
    by (simp_all add: reader_inv_def)
  let ?r = "r\<lparr>rd_frame := None, rd_pos := min n (rd_filled r)\<rparr>"
  have "Reader_consume dbg r = (Ok (), ?r)"
    using Some r by (simp add: Reader_consume_def usize_add_eq Let_def)
  moreover have "pending ?r = drop n (pending r)"
    using r by (cases "n \<le> rd_filled r") (auto simp: pending_def drop_take min_def)
  moreover have "reader_ready ?r"
    using r by (auto simp: reader_ready_def reader_inv_def min_def)
  ultimately show ?thesis using Some by (intro exI [of _ ?r]) (simp add: reader_ready_def)
qed

section \<open>Framing a steady stream\<close>

text \<open>A header that is not complete is waited for; one that is complete is found.\<close>

lemma next_frame_prefix:
  assumes "FixedHeader_next_frame d (a @ b) = Ok (Some n)"
  shows "FixedHeader_next_frame d a \<in> {Ok None, Ok (Some n)}"
proof -
  from assms obtain c bs rest where e: "a @ b = c # bs @ rest" "rl_wf bs" "n = 1 + length bs + rl_value bs"
    by (auto simp: FixedHeader_next_frame_Some)
  show ?thesis
  proof (cases "1 + length bs \<le> length a")
    case True
    then have "a = (c # bs) @ drop (1 + length bs) a"
      using e(1) by (metis (no_types, opaque_lifting) append_Cons append_eq_append_conv_if append_take_drop_id
          length_Cons plus_1_eq_Suc)
    then have "FixedHeader_next_frame d a = Ok (Some n)"
      using FixedHeader_next_frame_wf [OF e(2), of d c "drop (1 + length bs) a"] e(3) by simp
    then show ?thesis by simp
  next
    case False
    have "list_all has_continue_flag (tl a) \<and> length a \<le> 4" if "a \<noteq> []"
    proof -
      from that obtain c' a' where a: "a = c' # a'" by (cases a) auto
      with e(1) have "a' @ b = bs @ rest" by simp
      with False a have "a' = take (length a') bs" by (auto simp: append_eq_append_conv_if)
      moreover have "length a' \<le> length bs - 1" using False a by simp
      ultimately have "a' = take (length a') (butlast bs)" by (metis butlast_conv_take take_take min.absorb1)
      moreover have "list_all has_continue_flag (butlast bs)" "length bs \<le> 4"
        using e(2) by (simp_all add: rl_wf_def list_all_iff)
      ultimately show ?thesis
        using False a by (metis (mono_tags, lifting) Suc_leI in_set_takeD le_trans length_Cons list.sel(3) list_all_iff not_le plus_1_eq_Suc)
    qed
    then show ?thesis by (cases "a = []") (simp_all add: FixedHeader_next_frame_None)
  qed
qed

lemma next_frame_append:
  assumes "FixedHeader_next_frame d a = Ok (Some n)"
  shows "FixedHeader_next_frame d (a @ b) = Ok (Some n)"
  using assms unfolding FixedHeader_next_frame_Some by fastforce

lemma next_frame_loop_steady:
  assumes "head_state r" "steady (rd_inner r)" "FixedHeader_next_frame d (stream r) = Ok (Some n)"
  shows "\<exists>r'. Reader_next_frame_loop d r = Some (Ok n, r') \<and> steady (rd_inner r') \<and> stream r' = stream r \<and>
    head_result d (Ok n) r' \<and> length (rd_buf r') = length (rd_buf r)"
  using assms
proof (induction "5 - rd_filled r" arbitrary: r rule: less_induct)
  case less
  note buff = Reader_buff_pending [OF head_state_inv [OF less.prems(1)]]
  from next_frame_prefix [of d "pending r" "avail (rd_inner r)" n] less.prems(3)
  consider (found) "FixedHeader_next_frame d (pending r) = Ok (Some n)"
    | (more) "FixedHeader_next_frame d (pending r) = Ok None" by (auto simp: stream_def)
  then show ?case
  proof cases
    case found
    with buff less.prems show ?thesis
      by (subst Reader_next_frame_loop.simps) (simp add: head_result_def head_state_def stream_def)
  next
    case more
    then have "length (pending r) \<le> 4" by (simp add: FixedHeader_next_frame_None) auto
    then have f: "rd_filled r < 5"
      using length_pending [OF head_state_inv [OF less.prems(1)]] less.prems(1) by (simp add: head_state_def)
    have "avail (rd_inner r) \<noteq> []" using more less.prems(3) by (auto simp: stream_def)
    from sock_read_steady [OF less.prems(2) this, of "5 - rd_filled r"] f obtain bs s
      where s: "sock_read (5 - rd_filled r) (rd_inner r) = (Ok bs, s)" "bs \<noteq> []" "steady s" by auto
    from head_fill [OF less.prems(1) f s(1,2), of "debug_assertions d"] obtain r' where r':
      "Reader_fill_head (debug_assertions d) r = (Ok (), r')" "head_state r'" "stream r' = stream r"
      "rd_inner r' = s" "length (rd_buf r') = length (rd_buf r)" "rd_filled r < rd_filled r'" by blast
    from r'(6) f have "5 - rd_filled r' < 5 - rd_filled r" by linarith
    from less.hyps [OF this r'(2)] r' s(3) less.prems(3) more buff show ?thesis
      by (subst Reader_next_frame_loop.simps) simp
  qed
qed

lemma Reader_read_frame_steady:
  assumes "reader_inv r" "rd_frame r = Some n" "steady (rd_inner r)"
    and "n \<le> length (stream r)" "n \<le> length (rd_buf r)"
  shows "\<exists>bs r'. Reader_read_frame n r = (Ok bs, r') \<and> steady (rd_inner r')"
proof (cases "rd_filled r < n")
  case True
  from assms(1,2) have r: "rd_pos r = 0" "rd_filled r \<le> length (rd_buf r)" by (simp_all add: reader_inv_def)
  have "n - rd_filled r \<le> length (avail (rd_inner r))"
    using assms(4) length_pending [OF assms(1)] r(1) by (simp add: stream_def)
  from read_exact_steady [OF assms(3) this] obtain got s
    where ex: "read_exact (n - rd_filled r) (rd_inner r) = (Ok (), got, s)" "steady s" by blast
  obtain res r' where rf: "Reader_read_frame n r = (res, r')" by fastforce
  have "rd_inner r' = s" "\<exists>x. res = Reader_buff x"
    using rf True ex(1) assms(5) by (auto simp: Reader_read_frame_def Let_def)
  moreover from this(2) have "res \<noteq> Panic \<Longrightarrow> \<exists>bs. res = Ok bs"
    by (auto simp: Reader_buff_def)
  ultimately show ?thesis
    using Reader_read_frame_total(1) [OF assms(1,2) rf] ex(2) rf by auto
next
  case False
  with assms Reader_buff_pending [OF assms(1)] show ?thesis by (simp add: Reader_read_frame_def)
qed

text \<open>
  A packet at the front of a steady stream is handed out whole; what follows it comes along
  only when the packet is shorter than the longest header.
\<close>

lemma Reader_read_steady:
  assumes "reader_ready r" "rd_frame r = None" "steady (rd_inner r)"
    and "stream r = pkt @ rest" "FixedHeader_next_frame d pkt = Ok (Some (length pkt))"
    and "length pkt \<le> length (rd_buf r)"
  shows "\<exists>extra r'. Reader_read d r = Some (Ok (pkt @ extra), r') \<and> reader_inv r' \<and>
    rd_frame r' = Some (length pkt) \<and> pending r' = pkt @ extra \<and> steady (rd_inner r') \<and>
    extra @ avail (rd_inner r') = rest \<and> length extra \<le> 5 - length pkt \<and>
    length (rd_buf r') = length (rd_buf r)"
proof -
  let ?n = "length pkt"
  have nf: "FixedHeader_next_frame d (stream r) = Ok (Some ?n)"
    unfolding assms(4) by (rule next_frame_append [OF assms(5)])
  from Reader_next_frame_start [OF assms(1,2), of d] obtain r1 where r1:
    "Reader_next_frame d r = Reader_next_frame_loop d r1" "head_state r1" "stream r1 = stream r"
    "rd_inner r1 = rd_inner r" "length (rd_buf r1) = length (rd_buf r)" by blast
  with next_frame_loop_steady [of r1 d ?n] assms(3) nf obtain r2 where r2:
    "Reader_next_frame d r = Some (Ok ?n, r2)" "steady (rd_inner r2)" "stream r2 = stream r"
    "head_result d (Ok ?n) r2" "length (rd_buf r2) = length (rd_buf r)" by auto
  note inv = head_result_Ok_inv [OF r2(4)]
  have "?n \<le> length (stream r2)" "?n \<le> length (rd_buf r2)" using r2(3,5) assms(4,6) by simp_all
  from Reader_read_frame_steady [OF inv(1,2) r2(2) this] obtain bs r' where
    rf: "Reader_read_frame ?n r2 = (Ok bs, r')" and st: "steady (rd_inner r')" by blast
  note tot = Reader_read_frame_total [OF inv(1,2) rf]
  from tot(5) [OF refl] have bs: "pending r' = bs" "?n \<le> length bs" "length bs \<le> max 5 ?n" "stream r' = stream r2"
    by blast+
  have "bs @ avail (rd_inner r') = pkt @ rest" using bs(1,4) r2(3) assms(4) by (simp add: stream_def)
  with bs(2) obtain extra where extra: "bs = pkt @ extra" "extra @ avail (rd_inner r') = rest"
    by (auto simp: append_eq_append_conv2)
  moreover have "Reader_read d r = Some (Ok bs, r')"
    using r2(1) rf assms(2) by (simp add: Reader_read_def)
  moreover have "length extra \<le> 5 - ?n" using bs(3) extra(1) by auto
  ultimately show ?thesis using tot(2-4) bs(1) st r2(5) by auto
qed

text \<open>
  The same packet on a socket of which nothing is assumed: it may fail, end or would-block at any
  point. A failure before the header is complete loses nothing. A failure later loses the bytes
  that \<open>read_exact\<close> had taken by then, and the reader still waits for the whole frame.
\<close>

lemma Reader_read_frame_Err:
  assumes "reader_inv r" "rd_frame r = Some n" "n \<le> length (rd_buf r)"
    and "Reader_read_frame n r = (Err e, r')"
  shows "\<exists>k lost. e = Error_new (StdIo k) ''while reading'' \<and> pending r' = pending r \<and>
    avail (rd_inner r) = lost @ avail (rd_inner r') \<and> length (pending r) + length lost \<le> n"
proof -
  from assms(1,2) have r: "rd_pos r = 0" "rd_filled r \<le> length (rd_buf r)" by (simp_all add: reader_inv_def)
  show ?thesis
  proof (cases "rd_filled r < n")
    case True
    obtain er got s where ex: "read_exact (n - rd_filled r) (rd_inner r) = (er, got, s)" by (metis prod_cases3)
    note ra = read_exact_avail [OF ex]
    have er: "\<exists>k. er = Err k \<and> e = Error_new (StdIo k) ''while reading''"
      "r' = r\<lparr>rd_inner := s, rd_buf := write_at (rd_filled r) got (rd_buf r)\<rparr>"
    proof (atomize (full), cases er)
      case (Ok u)
      let ?r = "r\<lparr>rd_inner := s, rd_buf := write_at (rd_filled r) got (rd_buf r), rd_filled := n\<rparr>"
      have "Reader_buff ?r \<noteq> Err e" by (cases "slice_range (rd_pos ?r) (rd_filled ?r) (rd_buf ?r)") (simp_all add: Reader_buff_def)
      with Ok True assms(3,4) ex show "(\<exists>k. er = Err k \<and> e = Error_new (StdIo k) ''while reading'') \<and>
          r' = r\<lparr>rd_inner := s, rd_buf := write_at (rd_filled r) got (rd_buf r)\<rparr>"
        by (simp add: Reader_read_frame_def Let_def)
    qed (use True assms(3,4) ex in \<open>simp_all add: Reader_read_frame_def\<close>)
    have "take (rd_filled r) (write_at (rd_filled r) got (rd_buf r)) = take (rd_filled r) (rd_buf r)"
      using r by (simp add: write_at_def)
    then have "pending r' = pending r" using er(2) r(1) by (simp add: pending_pos0)
    with er ra True length_pending [OF assms(1)] r(1) show ?thesis by auto
  qed (use assms Reader_buff_pending [OF assms(1)] in \<open>simp add: Reader_read_frame_def\<close>)
qed

lemma head_result_Err:
  assumes "head_result d (Err e) r" "FixedHeader_next_frame d (stream r) = Ok (Some n)"
  shows "rd_frame r = None" "reader_ready r" "\<exists>k. e = Error_new (StdIo k) ''while reading''"
proof -
  from next_frame_prefix [of d "pending r" "avail (rd_inner r)" n] assms(2)
  have "FixedHeader_next_frame d (pending r) \<noteq> Err e" by (auto simp: stream_def)
  with assms(1) have h: "head_state r" "rd_filled r < 5" "\<exists>k. e = Error_new (StdIo k) ''while reading''"
    by (simp_all add: head_result_def)
  then show "rd_frame r = None" "reader_ready r" "\<exists>k. e = Error_new (StdIo k) ''while reading''"
    by (simp_all add: head_state_def reader_ready_def reader_inv_def)
qed

lemma Reader_read_any_socket:
  assumes "reader_ready r" "rd_frame r = None"
    and "stream r = pkt @ rest" "FixedHeader_next_frame d pkt = Ok (Some (length pkt))"
    and "length pkt \<le> length (rd_buf r)" and read: "Reader_read d r = Some (res, r')"
  shows "case res of
      Ok bs \<Rightarrow> \<exists>extra. bs = pkt @ extra \<and> rd_frame r' = Some (length pkt) \<and> stream r' = pkt @ rest \<and>
        extra @ avail (rd_inner r') = rest \<and> length extra \<le> 5 - length pkt
    | Err e \<Rightarrow> (\<exists>k. e = Error_new (StdIo k) ''while reading'') \<and>
        (rd_frame r' = None \<and> reader_ready r' \<and> stream r' = pkt @ rest \<or>
         rd_frame r' = Some (length pkt) \<and> (\<exists>head lost tail. pkt = head @ lost @ tail \<and> pending r' = head \<and>
           FixedHeader_next_frame d head = Ok (Some (length pkt)) \<and> stream r' = head @ tail @ rest))
    | Panic \<Rightarrow> False"
proof -
  let ?n = "length pkt"
  from Reader_next_frame_total [OF assms(1,2), of d] obtain hr r1 where
    h: "Reader_next_frame d r = Some (hr, r1)" "head_result d hr r1" "stream r1 = stream r"
      "length (rd_buf r1) = length (rd_buf r)" by blast
  have nf: "FixedHeader_next_frame d (stream r1) = Ok (Some ?n)"
    unfolding h(3) assms(3) by (rule next_frame_append [OF assms(4)])
  show ?thesis
  proof (cases hr)
    case (Ok n)
    with h(2) have "FixedHeader_next_frame d (pending r1) = Ok (Some n)" by (simp add: head_result_def)
    from next_frame_append [OF this, of "avail (rd_inner r1)"] nf have n: "n = ?n" by (simp add: stream_def)
    with h(2) Ok have pf: "FixedHeader_next_frame d (pending r1) = Ok (Some ?n)" by (simp add: head_result_def)
    note inv = head_result_Ok_inv [OF h(2) [unfolded Ok n]]
    from read h(1) Ok n assms(2) have rf: "Reader_read_frame ?n r1 = (res, r')" by (simp add: Reader_read_def)
    note tot = Reader_read_frame_total [OF inv(1,2) rf]
    show ?thesis
    proof (cases res)
      case (Ok bs)
      from tot(5) [OF Ok] have bs: "pending r' = bs" "?n \<le> length bs" "length bs \<le> max 5 ?n" "stream r' = stream r"
        using h(3) by simp_all
      then have "bs @ avail (rd_inner r') = pkt @ rest" using assms(3) by (simp add: stream_def)
      with bs(2) obtain extra where extra: "bs = pkt @ extra" "extra @ avail (rd_inner r') = rest"
        by (auto simp: append_eq_append_conv2)
      with bs(3) have "length extra \<le> 5 - ?n" by auto
      with Ok extra bs(4) assms(3) tot(3) show ?thesis by simp
    next
      case (Err e)
      have "?n \<le> length (rd_buf r1)" using h(4) assms(5) by simp
      from Reader_read_frame_Err [OF inv(1,2) this rf [unfolded Err]] obtain k lost where
        k: "e = Error_new (StdIo k) ''while reading''" "pending r' = pending r1"
          "avail (rd_inner r1) = lost @ avail (rd_inner r')" "length (pending r1) + length lost \<le> ?n" by blast
      have "(pending r1 @ lost) @ avail (rd_inner r') = pkt @ rest" using h(3) assms(3) k(3) by (simp add: stream_def)
      with k(4) obtain tail where "pkt = (pending r1 @ lost) @ tail" "avail (rd_inner r') = tail @ rest"
        by (auto simp: append_eq_append_conv2)
      then have "pkt = pending r1 @ lost @ tail" "stream r' = pending r1 @ tail @ rest"
        using k(2) by (simp_all add: stream_def)
      with Err k(1,2) pf tot(3) show ?thesis by auto
    qed (use tot in simp)
  next
    case (Err e)
    with read h(1) assms(2) have "res = Err e" "r' = r1" by (simp_all add: Reader_read_def)
    with head_result_Err [OF h(2) [unfolded Err] nf] h(3) assms(3) show ?thesis by simp
  qed (use h in \<open>simp add: head_result_def\<close>)
qed

section \<open>Reads and packet boundaries\<close>

text \<open>The header, when the next read finds all of it: up to five bytes are taken.\<close>

lemma next_frame_first_chunk:
  assumes "reader_ready r" "rd_frame r = None" "pending r = []"
    and inner: "rd_inner r = Data bs # cs" and nf: "FixedHeader_next_frame d (take 5 bs) = Ok (Some n)"
  shows "\<exists>r'. Reader_next_frame d r = Some (Ok n, r') \<and> head_result d (Ok n) r' \<and> pending r' = take 5 bs \<and>
    rd_inner r' = (if length bs \<le> 5 then cs else Data (drop 5 bs) # cs) \<and>
    length (rd_buf r') = length (rd_buf r)"
proof -
  let ?s = "if length bs \<le> 5 then cs else Data (drop 5 bs) # cs"
  from Reader_next_frame_start [OF assms(1,2), of d] obtain r1 where r1:
    "Reader_next_frame d r = Reader_next_frame_loop d r1" "head_state r1" "stream r1 = stream r"
    "rd_inner r1 = rd_inner r" "length (rd_buf r1) = length (rd_buf r)" by blast
  have p1: "pending r1 = []" using r1(3,4) assms(3) by (simp add: stream_def)
  have f1: "rd_filled r1 = 0"
    using p1 length_pending [OF head_state_inv [OF r1(2)]] r1(2) by (simp add: head_state_def)
  have none: "FixedHeader_next_frame d [] = Ok None" by (simp add: FixedHeader_next_frame_None)
  with nf have ne: "take 5 bs \<noteq> []" by fastforce
  have read: "sock_read (5 - rd_filled r1) (rd_inner r1) = (Ok (take 5 bs), ?s)"
    using r1(4) inner f1 by (simp add: sock_read_def)
  from head_fill [OF r1(2) _ read ne, of "debug_assertions d"] f1 obtain r2 where r2:
    "Reader_fill_head (debug_assertions d) r1 = (Ok (), r2)" "head_state r2" "stream r2 = stream r1"
    "rd_inner r2 = ?s" "length (rd_buf r2) = length (rd_buf r1)" by auto
  have "pending r2 @ avail ?s = [] @ avail (rd_inner r1)" using r2(3) unfolding stream_def r2(4) p1 .
  also have "\<dots> = take 5 bs @ avail ?s" using sock_read_avail(1) [OF read] by (simp only: append_Nil)
  finally have p2: "pending r2 = take 5 bs" by (simp only: append_same_eq)
  have "Reader_next_frame_loop d r1 = Some (Ok n, r2\<lparr>rd_frame := Some n\<rparr>)"
    using r2(1) p1 p2 nf none Reader_buff_pending [OF head_state_inv [OF r1(2)]]
      Reader_buff_pending [OF head_state_inv [OF r2(2)]]
    by (simp add: Reader_next_frame_loop.simps [of d r1] Reader_next_frame_loop.simps [of d r2])
  with r1(1,5) r2 p2 nf show ?thesis
    by (intro exI [of _ "r2\<lparr>rd_frame := Some n\<rparr>"]) (simp add: head_result_def head_state_def)
qed

text \<open>
  A short packet at the start of what the next read finds. The read asks for five bytes, so
  the bytes of the chunk that follow the packet come along.
\<close>

lemma read_first_chunk:
  assumes "reader_ready r" "rd_frame r = None" "pending r = []"
    and inner: "rd_inner r = Data (pkt @ after) # cs" and short: "length pkt \<le> 5"
    and nf: "FixedHeader_next_frame d pkt = Ok (Some (length pkt))"
  shows "\<exists>r'. Reader_read d r = Some (Ok (take 5 (pkt @ after)), r') \<and> reader_inv r' \<and>
    rd_frame r' = Some (length pkt) \<and> pending r' = take 5 (pkt @ after) \<and>
    rd_inner r' = (if length (pkt @ after) \<le> 5 then cs else Data (drop 5 (pkt @ after)) # cs) \<and>
    length (rd_buf r') = length (rd_buf r)"
proof -
  have "take 5 (pkt @ after) = pkt @ take (5 - length pkt) after" using short by simp
  then have "FixedHeader_next_frame d (take 5 (pkt @ after)) = Ok (Some (length pkt))"
    using next_frame_append [OF nf] by simp
  from next_frame_first_chunk [OF assms(1-4) this] obtain r1 where r1:
    "Reader_next_frame d r = Some (Ok (length pkt), r1)" "head_result d (Ok (length pkt)) r1"
    "pending r1 = take 5 (pkt @ after)"
    "rd_inner r1 = (if length (pkt @ after) \<le> 5 then cs else Data (drop 5 (pkt @ after)) # cs)"
    "length (rd_buf r1) = length (rd_buf r)" by blast
  note inv = head_result_Ok_inv [OF r1(2)]
  have "rd_filled r1 = length (take 5 (pkt @ after))"
    using r1(3) length_pending [OF inv(1)] inv(4) by simp
  then have "\<not> length (rd_buf r1) < length pkt" "\<not> rd_filled r1 < length pkt"
    using inv(1) short by (simp_all add: reader_inv_def)
  then have "Reader_read_frame (length pkt) r1 = (Ok (take 5 (pkt @ after)), r1)"
    using Reader_buff_pending [OF inv(1)] r1(3) by (simp add: Reader_read_frame_def)
  with assms(2) r1 inv show ?thesis by (simp add: Reader_read_def)
qed

text \<open>A packet that is all of what the next read finds.\<close>

lemma read_whole_chunk:
  assumes "reader_ready r" "rd_frame r = None" "pending r = []"
    and inner: "rd_inner r = Data pkt # cs" and fits: "length pkt \<le> length (rd_buf r)"
    and nf: "FixedHeader_next_frame d pkt = Ok (Some (length pkt))"
  shows "\<exists>r'. Reader_read d r = Some (Ok pkt, r') \<and> reader_inv r' \<and> rd_frame r' = Some (length pkt) \<and>
    pending r' = pkt \<and> rd_inner r' = cs \<and> length (rd_buf r') = length (rd_buf r)"
proof (cases "length pkt \<le> 5")
  case True
  from read_first_chunk [OF assms(1-3), of pkt "[]" cs d] inner nf True show ?thesis by simp
next
  case False
  let ?n = "length pkt"
  from next_frame_prefix [of d "take 5 pkt" "drop 5 pkt" ?n] nf False
  have "FixedHeader_next_frame d (take 5 pkt) = Ok (Some ?n)"
    by (auto simp: FixedHeader_next_frame_None)
  from next_frame_first_chunk [OF assms(1-3) inner this] False obtain r1 where r1:
    "Reader_next_frame d r = Some (Ok ?n, r1)" "head_result d (Ok ?n) r1" "pending r1 = take 5 pkt"
    "rd_inner r1 = Data (drop 5 pkt) # cs" "length (rd_buf r1) = length (rd_buf r)" by auto
  note inv = head_result_Ok_inv [OF r1(2)]
  have filled: "rd_filled r1 = 5" using r1(3) length_pending [OF inv(1)] inv(4) False by simp
  have ex: "read_exact (?n - 5) (rd_inner r1) = (Ok (), drop 5 pkt, cs)"
    using False by (simp add: r1(4) read_exact_cases)
  obtain res r' where rf: "Reader_read_frame ?n r1 = (res, r')" by fastforce
  have rr: "rd_inner r' = cs" "\<exists>x. res = Reader_buff x"
    using rf False filled ex r1(5) fits by (auto simp: Reader_read_frame_def Let_def)
  note tot = Reader_read_frame_total [OF inv(1,2) rf]
  from rr(2) tot(1) obtain bs where bs: "res = Ok bs" by (auto simp: Reader_buff_def)
  from tot(5) [OF bs] have "bs @ avail cs = stream r1" using rr(1) by (auto simp: stream_def)
  also have "\<dots> = pkt @ avail cs" by (simp add: stream_def r1(3,4) avail_def)
  finally have "bs = pkt" by simp
  with tot bs rr(1) r1 rf assms(2) show ?thesis by (simp add: Reader_read_def)
qed

text \<open>
  A frame that does not arrive in one piece: \<open>read_exact\<close> has taken the first bytes from the
  socket when it reports that it would block, and the reader does not count them.
\<close>

lemma read_frame_would_block:
  assumes "reader_inv r" "rd_frame r = Some n" "n \<le> length (rd_buf r)" "rd_filled r < n"
    and inner: "rd_inner r = Data a # Fail WouldBlock # Data b # cs"
    and a: "a \<noteq> []" "length a < n - rd_filled r" and b: "n - rd_filled r \<le> length b"
  shows "\<exists>r1 r2. Reader_read d r = Some (Err (Error_new (StdIo WouldBlock) ''while reading''), r1) \<and>
    Reader_read d r1 = Some (Ok (pending r @ take (n - rd_filled r) b), r2)"
proof -
  let ?k = "n - rd_filled r"
  let ?r1 = "r\<lparr>rd_inner := Data b # cs, rd_buf := write_at (rd_filled r) a (rd_buf r)\<rparr>"
  from assms(1,2) have pos: "rd_pos r = 0" by (simp add: reader_inv_def)
  have bne: "b \<noteq> []" using b a by auto
  have ex1: "read_exact ?k (rd_inner r) = (Err WouldBlock, a, Data b # cs)"
    using a by (simp add: inner read_exact_cases)
  have ex2: "\<exists>s. read_exact ?k (Data b # cs) = (Ok (), take ?k b, s)"
    using a b bne by (auto simp: read_exact_cases)
  then obtain s where ex2: "read_exact ?k (Data b # cs) = (Ok (), take ?k b, s)" by blast
  have read1: "Reader_read d r = Some (Err (Error_new (StdIo WouldBlock) ''while reading''), ?r1)"
    using assms(2-4) ex1 by (simp add: Reader_read_def Reader_read_frame_def)
  have l1: "length (write_at (rd_filled r) a (rd_buf r)) = length (rd_buf r)"
    using a(2) assms(3) by (intro length_write_at) linarith
  let ?buf = "write_at (rd_filled r) (take ?k b) (write_at (rd_filled r) a (rd_buf r))"
  have lk: "length (take ?k b) = ?k" using b by simp
  have "take (rd_filled r + length (take ?k b)) ?buf =
      take (rd_filled r) (write_at (rd_filled r) a (rd_buf r)) @ take ?k b"
    using l1 assms(3,4) by (intro take_write_at) simp
  moreover have "take (rd_filled r) (write_at (rd_filled r) a (rd_buf r)) = take (rd_filled r) (rd_buf r)"
    using assms(3,4) by (simp add: write_at_def)
  ultimately have t: "take n ?buf = pending r @ take ?k b"
    using lk assms(4) pos by (simp add: pending_pos0)
  have "length ?buf = length (rd_buf r)" using l1 lk assms(3,4) by (subst length_write_at) simp_all
  then have "Reader_read d ?r1 = Some (Ok (pending r @ take ?k b),
      ?r1\<lparr>rd_inner := s, rd_buf := ?buf, rd_filled := n\<rparr>)"
    using assms(2-4) ex2 t l1 pos
    by (simp add: Reader_read_def Reader_read_frame_def Reader_buff_def slice_range_def)
  with read1 show ?thesis by blast
qed

section \<open>Correctness\<close>

definition sample_reader :: "socket \<Rightarrow> Reader" where
  "sample_reader s = \<lparr>rd_buf = replicate 16 0, rd_pos = 0, rd_frame = None, rd_filled = 0, rd_inner = s\<rparr>"

lemma sample_reader_ready: "reader_ready (sample_reader s)"
  by (simp add: reader_ready_def reader_inv_def sample_reader_def usize_max_def)

text \<open>C6: Reading a frame ends whatever the socket delivers, in any pieces and with any errors: no index
  is out of bounds, no subtraction underflows, no assertion fails and the invariant holds
  afterwards. The reader can be used again unless the header itself was malformed.\<close>

theorem reader_read_total:
  assumes "reader_ready r"
  shows "\<exists>res r'. Reader_read d r = Some (res, r') \<and> res \<noteq> Panic \<and> reader_inv r' \<and>
    length (rd_buf r') = length (rd_buf r) \<and>
    (reader_ready r' \<or> (\<exists>e. res = Err e \<and> FixedHeader_next_frame d (pending r') = Err e))"
  by (rule Reader_read_total_aux [OF assms])

theorem reader_read_total_witness:
  "\<exists>res r'. Reader_read (std_crates True) (sample_reader [Data [0x30], Fail Interrupted, Data [0x80]]) = Some (res, r') \<and>
     res \<noteq> Panic \<and> reader_inv r'"
  using reader_read_total [OF sample_reader_ready, of "std_crates True"] by blast

text \<open>C7: A packet at the front of the stream that fits the buffer, on a socket that may fail, end or
  would-block between any two bytes. A read that succeeds hands the packet out whole, in however many
  pieces it came, and loses no byte; the bytes after the packet come along only when it is shorter
  than the longest header. A read that fails reports the error of the socket: before the header is complete
  nothing is lost and the next read starts over; after that the reader keeps the bytes it had
  counted, and exactly those the failed read had taken since are lost. When the socket does none of
  this while it has data, the read succeeds.\<close>

theorem reader_frames_stream:
  assumes "reader_ready r" "rd_frame r = None"
    and "stream r = pkt @ rest" "FixedHeader_next_frame d pkt = Ok (Some (length pkt))"
    and "length pkt \<le> length (rd_buf r)"
  shows "\<exists>res r'. Reader_read d r = Some (res, r') \<and> reader_inv r' \<and>
    (steady (rd_inner r) \<longrightarrow> (\<exists>bs. res = Ok bs)) \<and>
    (case res of
      Ok bs \<Rightarrow> \<exists>extra. bs = pkt @ extra \<and> rd_frame r' = Some (length pkt) \<and> stream r' = pkt @ rest \<and>
        extra @ avail (rd_inner r') = rest \<and> length extra \<le> 5 - length pkt
    | Err e \<Rightarrow> (\<exists>k. e = Error_new (StdIo k) ''while reading'') \<and>
        (rd_frame r' = None \<and> reader_ready r' \<and> stream r' = pkt @ rest \<or>
         rd_frame r' = Some (length pkt) \<and> (\<exists>head lost tail. pkt = head @ lost @ tail \<and> pending r' = head \<and>
           FixedHeader_next_frame d head = Ok (Some (length pkt)) \<and> stream r' = head @ tail @ rest))
    | Panic \<Rightarrow> False)"
proof -
  from Reader_read_total_aux [OF assms(1), of d] obtain res r' where
    r': "Reader_read d r = Some (res, r')" "reader_inv r'" by blast
  have "\<exists>bs. res = Ok bs" if "steady (rd_inner r)"
    using Reader_read_steady [OF assms(1,2) that assms(3-5)] r'(1) by auto
  with r' Reader_read_any_socket [OF assms r'(1)] show ?thesis
    by (intro exI [of _ res] exI [of _ r'] conjI impI)
qed

theorem reader_frames_stream_witness:
  "\<exists>extra r'. Reader_read (std_crates True) (sample_reader [Data [0x40], Data [2, 0], Data [10, 0xD0], Data [0]]) =
     Some (Ok ([0x40, 2, 0, 10] @ extra), r') \<and> extra @ avail (rd_inner r') = [0xD0, 0]"
proof -
  let ?r = "sample_reader [Data [0x40], Data [2, 0], Data [10, 0xD0], Data [0]]"
  have "rl_wf [2]" by (simp add: rl_wf_def has_continue_flag_iff)
  from FixedHeader_next_frame_wf [OF this, of "std_crates True" "0x40" "[0, 10]"]
  have "FixedHeader_next_frame (std_crates True) [0x40, 2, 0, 10] = Ok (Some 4)" by simp
  moreover have "rd_frame ?r = None" "steady (rd_inner ?r)" "stream ?r = [0x40, 2, 0, 10] @ [0xD0, 0]"
    "length (rd_buf ?r) = 16"
    by (simp_all add: sample_reader_def steady_def stream_def pending_def avail_def)
  ultimately show ?thesis
    using reader_frames_stream [OF sample_reader_ready, of "[Data [0x40], Data [2, 0], Data [10, 0xD0], Data [0]]"
        "[0x40, 2, 0, 10]" "[0xD0, 0]" "std_crates True"] by auto
qed

text \<open>C34: When a frame arrives in two pieces and the socket would block in between, the first read
  reports that it would block, having taken the first piece from the socket; the second read
  reports success with a frame from which the first piece is missing.\<close>

theorem reader_loses_partial_frame:
  assumes "reader_inv r" "rd_frame r = Some n" "n \<le> length (rd_buf r)" "rd_filled r < n"
    and "rd_inner r = Data a # Fail WouldBlock # Data b # cs"
    and "a \<noteq> []" "length a < n - rd_filled r" "n - rd_filled r \<le> length b"
  shows "\<exists>r1 r2. Reader_read d r = Some (Err (Error_new (StdIo WouldBlock) ''while reading''), r1) \<and>
    Reader_read d r1 = Some (Ok (pending r @ take (n - rd_filled r) b), r2)"
  by (rule read_frame_would_block [OF assms])

theorem reader_loses_partial_frame_witness:
  "\<exists>r1 r2. Reader_read (std_crates True) \<lparr>rd_buf = [0x30, 5, 0, 1, 0x61, 0, 0, 0], rd_pos = 0, rd_frame = Some 7,
       rd_filled = 5, rd_inner = [Data [1], Fail WouldBlock, Data [2, 0xD0, 0]]\<rparr> =
      Some (Err (Error_new (StdIo WouldBlock) ''while reading''), r1) \<and>
    Reader_read (std_crates True) r1 = Some (Ok [0x30, 5, 0, 1, 0x61, 2, 0xD0], r2)"
proof -
  let ?r = "\<lparr>rd_buf = [0x30, 5, 0, 1, 0x61, 0, 0, 0], rd_pos = 0, rd_frame = Some 7, rd_filled = 5,
    rd_inner = [Data [1], Fail WouldBlock, Data [2, 0xD0, 0]]\<rparr> :: Reader"
  have "reader_inv ?r" by (simp add: reader_inv_def usize_max_def)
  from reader_loses_partial_frame [OF this, of 7 "[1]" "[2, 0xD0, 0]" "[]" "std_crates True"]
  show ?thesis by (simp add: pending_def numeral_2_eq_2)
qed

end
