(* ===== verification/Sync_Writer.thy ===== *)
theory Sync_Writer
  imports Publish_Packet Subscribe_Packet Unsubscribe_Packet Ping
begin

text \<open>
  The sending side of the synchronous client (\<open>WriterHalf\<close> in \<open>src/sync.rs\<close>, l. 179-280): every
  operation writes a packet, flushes the socket and keeps the flag from which the keep-alive
  timer decides whether to ping.
\<close>

section \<open>Sequencing\<close>

definition st_then :: "('s, 'a) st \<Rightarrow> ('a \<Rightarrow> ('s, 'b) st) \<Rightarrow> ('s, 'b) st" where
  "st_then m f s =
     (case m s of
        (Ok x, s') \<Rightarrow> f x s'
      | (Err e, s') \<Rightarrow> (Err e, s')
      | (Panic, s') \<Rightarrow> (Panic, s'))"

definition st_mod :: "('s \<Rightarrow> 's) \<Rightarrow> ('s, unit) st" where
  "st_mod f s = (Ok (), f s)"

section \<open>The writer half\<close>

record WriterHalf =
  sent_flag :: bool
  w_inner :: writer

definition on_inner :: "'a wr \<Rightarrow> (WriterHalf, 'a) st" where
  "on_inner m this = (case m (w_inner this) of (r, w) \<Rightarrow> (r, this\<lparr>w_inner := w\<rparr>))"

definition WriterHalf_flush :: "(WriterHalf, unit) st" where
  "WriterHalf_flush = on_inner (write_flush ''while flusing the writer'')"

definition WriterHalf_handle_ping :: "crates \<Rightarrow> (WriterHalf, unit) st" where
  "WriterHalf_handle_ping d this =
     (if sent_flag this then (Ok (), this\<lparr>sent_flag := False\<rparr>)
      else
        st_then (on_inner (PingReq_write_sync d)) (\<lambda>_.
        st_then WriterHalf_flush (\<lambda>_.
        st_mod (\<lambda>this. this\<lparr>sent_flag := False\<rparr>))) this)"

definition WriterHalf_publish :: "crates \<Rightarrow> PublishBuilder \<Rightarrow> (WriterHalf, unit) st" where
  "WriterHalf_publish d publish =
     st_then (on_inner (Publish_write_sync d publish)) (\<lambda>_.
     st_then WriterHalf_flush (\<lambda>_.
     st_mod (\<lambda>this. this\<lparr>sent_flag := True\<rparr>)))"

definition WriterHalf_subscribe :: "crates \<Rightarrow> SubscribeBuilder \<Rightarrow> (WriterHalf, unit) st" where
  "WriterHalf_subscribe d subscribe =
     st_then (on_inner (Subscribe_write_sync d subscribe)) (\<lambda>_.
     st_then WriterHalf_flush (\<lambda>_.
     st_mod (\<lambda>this. this\<lparr>sent_flag := True\<rparr>)))"

definition WriterHalf_unsubscribe :: "crates \<Rightarrow> UnsubscribeBuilder \<Rightarrow> (WriterHalf, unit) st" where
  "WriterHalf_unsubscribe d unsubscribe =
     st_then (on_inner (Unsubscribe_write_sync d unsubscribe)) (\<lambda>_.
     st_then WriterHalf_flush (\<lambda>_.
     st_mod (\<lambda>this. this\<lparr>sent_flag := True\<rparr>)))"

definition WriterHalf_disconnect :: "crates \<Rightarrow> (WriterHalf, unit) st" where
  "WriterHalf_disconnect d =
     st_then (on_inner (Disconnect_write_sync d)) (\<lambda>_.
     st_then WriterHalf_flush (\<lambda>_.
     st_mod (\<lambda>this. this)))"

section \<open>Sending\<close>

text \<open>Write a packet, flush, then record in the flag that it went out.\<close>

definition send :: "'a wr \<Rightarrow> (bool \<Rightarrow> bool) \<Rightarrow> (WriterHalf, unit) st" where
  "send m f =
     st_then (on_inner m) (\<lambda>_. st_then WriterHalf_flush (\<lambda>_.
     st_mod (\<lambda>this. this\<lparr>sent_flag := f (sent_flag this)\<rparr>)))"

lemma send_eqs:
  "WriterHalf_publish d b = send (Publish_write_sync d b) (\<lambda>_. True)"
  "WriterHalf_subscribe d sb = send (Subscribe_write_sync d sb) (\<lambda>_. True)"
  "WriterHalf_unsubscribe d ub = send (Unsubscribe_write_sync d ub) (\<lambda>_. True)"
  "WriterHalf_disconnect d = send (Disconnect_write_sync d) (\<lambda>f. f)"
  by (simp_all add: send_def WriterHalf_publish_def WriterHalf_subscribe_def WriterHalf_unsubscribe_def
      WriterHalf_disconnect_def)

lemma send_cases:
  "send m f w =
     (case m (w_inner w) of
        (Ok _, v) \<Rightarrow>
          (case write_flush ''while flusing the writer'' v of
             (Ok _, v) \<Rightarrow> (Ok (), \<lparr>sent_flag = f (sent_flag w), w_inner = v\<rparr>)
           | (Err e, v) \<Rightarrow> (Err e, w\<lparr>w_inner := v\<rparr>)
           | (Panic, v) \<Rightarrow> (Panic, w\<lparr>w_inner := v\<rparr>))
      | (Err e, v) \<Rightarrow> (Err e, w\<lparr>w_inner := v\<rparr>)
      | (Panic, v) \<Rightarrow> (Panic, w\<lparr>w_inner := v\<rparr>))"
  by (cases w) (simp add: send_def st_then_def on_inner_def WriterHalf_flush_def st_mod_def split_def
      split: result.split prod.split)

lemma write_flush_sent:
  "write_flush m v = (r, v') \<Longrightarrow> sent v' = sent v \<and> r \<noteq> Panic \<and> (\<forall>e. r = Err e \<longrightarrow> (\<exists>k. kind e = StdIo k))"
  by (auto simp: write_flush_def split: list.splits option.splits)

text \<open>
  Where the bytes of a packet are \<open>bs\<close>: on success all of them went out and the flag was set;
  otherwise the error is the socket's, a prefix went out and the flag is as it was.
\<close>

lemma send_emits:
  assumes "emits m v bs" "send m f w = (r, w')"
  shows "r \<noteq> Panic"
    and "r = Ok () \<Longrightarrow> sent (w_inner w') = sent (w_inner w) @ bs \<and> sent_flag w' = f (sent_flag w)"
    and "r = Err e \<Longrightarrow> (\<exists>k. kind e = StdIo k) \<and> sent_flag w' = sent_flag w \<and>
      (\<exists>p. prefix p bs \<and> sent (w_inner w') = sent (w_inner w) @ p)"
proof -
  obtain r1 v1 where m: "m (w_inner w) = (r1, v1)" by fastforce
  obtain r2 v2 where fl: "write_flush ''while flusing the writer'' v1 = (r2, v2)" by fastforce
  note fs = write_flush_sent [OF fl]
  have "r \<noteq> Panic \<and>
    (r = Ok () \<longrightarrow> sent (w_inner w') = sent (w_inner w) @ bs \<and> sent_flag w' = f (sent_flag w)) \<and>
    (\<forall>e. r = Err e \<longrightarrow> (\<exists>k. kind e = StdIo k) \<and> sent_flag w' = sent_flag w \<and>
      (\<exists>p. prefix p bs \<and> sent (w_inner w') = sent (w_inner w) @ p))"
  proof (cases r1)
    case (Ok x)
    with emits_Ok [OF assms(1)] m have "sent v1 = sent (w_inner w) @ bs" by blast
    with assms(2) fs m Ok fl show ?thesis by (cases r2) (auto simp: send_cases)
  next
    case (Err e)
    with emits_Err [OF assms(1)] m assms(2) show ?thesis by (auto simp: send_cases)
  next
    case Panic
    with emits_no_Panic [OF assms(1)] m show ?thesis by blast
  qed
  then show "r \<noteq> Panic"
    and "r = Ok () \<Longrightarrow> sent (w_inner w') = sent (w_inner w) @ bs \<and> sent_flag w' = f (sent_flag w)"
    and "r = Err e \<Longrightarrow> (\<exists>k. kind e = StdIo k) \<and> sent_flag w' = sent_flag w \<and>
      (\<exists>p. prefix p bs \<and> sent (w_inner w') = sent (w_inner w) @ p)" by blast+
qed

lemma send_run:
  assumes "emits m v bs" "faults (w_inner w) = []"
  shows "send m f w = (Ok (), \<lparr>sent_flag = f (sent_flag w),
     w_inner = (w_inner w)\<lparr>sent := sent (w_inner w) @ bs\<rparr>\<rparr>)"
  using emits_run [OF assms] assms(2) by (simp add: send_cases write_flush_def)

section \<open>Keep alive\<close>

text \<open>The operations that share the writer half; \<open>Tick\<close> is the timer event.\<close>

datatype client_op =
  Op_Publish PublishBuilder | Op_Subscribe SubscribeBuilder | Op_Unsubscribe UnsubscribeBuilder
| Op_Disconnect | Tick

primrec WriterHalf_op :: "crates \<Rightarrow> client_op \<Rightarrow> (WriterHalf, unit) st" where
  "WriterHalf_op d (Op_Publish b) = WriterHalf_publish d b"
| "WriterHalf_op d (Op_Subscribe b) = WriterHalf_subscribe d b"
| "WriterHalf_op d (Op_Unsubscribe b) = WriterHalf_unsubscribe d b"
| "WriterHalf_op d Op_Disconnect = WriterHalf_disconnect d"
| "WriterHalf_op d Tick = WriterHalf_handle_ping d"

primrec op_ok :: "crates \<Rightarrow> client_op \<Rightarrow> bool" where
  "op_ok d (Op_Publish b) \<longleftrightarrow> publish_sendable b"
| "op_ok d (Op_Subscribe b) \<longleftrightarrow> subscribe_ok d b"
| "op_ok d (Op_Unsubscribe b) \<longleftrightarrow> unsubscribe_ok d b"
| "op_ok d Op_Disconnect \<longleftrightarrow> True"
| "op_ok d Tick \<longleftrightarrow> True"

text \<open>What one operation puts on the wire and what becomes of the flag, as a specification.\<close>

primrec op_step :: "crates \<Rightarrow> client_op \<Rightarrow> bool \<Rightarrow> bytes \<times> bool" where
  "op_step d (Op_Publish b) fl = (publish_packet d b, True)"
| "op_step d (Op_Subscribe b) fl = (subscribe_packet d b, True)"
| "op_step d (Op_Unsubscribe b) fl = (unsubscribe_packet d b, True)"
| "op_step d Op_Disconnect fl = (unit_packet Disconnect, fl)"
| "op_step d Tick fl = (if fl then [] else unit_packet PingReq, False)"

lemma Tick_flag: "sent_flag w \<Longrightarrow> WriterHalf_handle_ping d w = (Ok (), w\<lparr>sent_flag := False\<rparr>)"
  by (simp add: WriterHalf_handle_ping_def)

lemma Tick_ping:
  "\<not> sent_flag w \<Longrightarrow> WriterHalf_handle_ping d w = send (PingReq_write_sync d) (\<lambda>_. False) w"
  by (simp add: WriterHalf_handle_ping_def send_def)

lemma unit_emits:
  assumes "crates_ok d"
  shows "emits (PingReq_write_sync d) 2 (unit_packet PingReq)"
    and "emits (Disconnect_write_sync d) 2 (unit_packet Disconnect)"
  using unit_write_emits [OF assms] by (simp_all add: PingReq_write_sync_def Disconnect_write_sync_def)

lemma WriterHalf_op_run:
  assumes "crates_ok d" "op_ok d x" "faults (w_inner w) = []"
  shows "WriterHalf_op d x w =
    (Ok (), \<lparr>sent_flag = snd (op_step d x (sent_flag w)),
       w_inner = (w_inner w)\<lparr>sent := sent (w_inner w) @ fst (op_step d x (sent_flag w))\<rparr>\<rparr>)"
proof (cases x)
  case Tick
  then show ?thesis
    using assms send_run [OF unit_emits(1) [OF assms(1)] assms(3)]
    by (cases "sent_flag w") (simp_all add: Tick_flag Tick_ping)
qed (use assms in \<open>simp_all add: send_eqs send_run [OF Publish_write_sync_emits]
      send_run [OF Subscribe_write_sync_emits] send_run [OF Unsubscribe_write_sync_emits]
      send_run [OF unit_emits(2)]\<close>)

lemma op_is_send:
  assumes "crates_ok d" "op_ok d x" "\<not> (x = Tick \<and> sent_flag w)"
  shows "\<exists>m (n :: usize) f. emits m n (fst (op_step d x (sent_flag w))) \<and> WriterHalf_op d x w = send m f w \<and>
    f (sent_flag w) = snd (op_step d x (sent_flag w))"
proof (cases x)
  case (Op_Publish b)
  with assms Publish_write_sync_emits [OF assms(1), of b] show ?thesis
    by (intro exI [of _ "Publish_write_sync d b"] exI [of _ "length (publish_packet d b)"] exI [of _ "\<lambda>_. True"])
      (simp add: send_eqs)
next
  case (Op_Subscribe b)
  with assms Subscribe_write_sync_emits [OF assms(1), of b] show ?thesis
    by (intro exI [of _ "Subscribe_write_sync d b"] exI [of _ "length (subscribe_packet d b)"] exI [of _ "\<lambda>_. True"])
      (simp add: send_eqs)
next
  case (Op_Unsubscribe b)
  with assms Unsubscribe_write_sync_emits [OF assms(1), of b] show ?thesis
    by (intro exI [of _ "Unsubscribe_write_sync d b"] exI [of _ "length (unsubscribe_packet d b)"]
        exI [of _ "\<lambda>_. True"]) (simp add: send_eqs)
next
  case Op_Disconnect
  with unit_emits(2) [OF assms(1)] show ?thesis
    by (intro exI [of _ "Disconnect_write_sync d"] exI [of _ 2] exI [of _ "\<lambda>f. f"]) (simp add: send_eqs)
next
  case Tick
  with unit_emits(1) [OF assms(1)] assms(3) show ?thesis
    by (intro exI [of _ "PingReq_write_sync d"] exI [of _ 2] exI [of _ "\<lambda>_. False"]) (simp add: Tick_ping)
qed

lemma WriterHalf_op_outcome:
  assumes "crates_ok d" "op_ok d x" "WriterHalf_op d x w = (r, w')"
  shows "r \<noteq> Panic \<and>
    (r = Ok () \<longrightarrow> sent (w_inner w') = sent (w_inner w) @ fst (op_step d x (sent_flag w)) \<and>
       sent_flag w' = snd (op_step d x (sent_flag w))) \<and>
    (\<forall>e. r = Err e \<longrightarrow> (\<exists>k. kind e = StdIo k) \<and> sent_flag w' = sent_flag w \<and>
       (\<exists>p. prefix p (fst (op_step d x (sent_flag w))) \<and> sent (w_inner w') = sent (w_inner w) @ p))"
proof (cases "x = Tick \<and> sent_flag w")
  case True
  with assms(3) show ?thesis by (auto simp: Tick_flag)
next
  case False
  from op_is_send [OF assms(1,2) this] obtain m f and n :: usize where
    m: "emits m n (fst (op_step d x (sent_flag w)))" "WriterHalf_op d x w = send m f w"
      "f (sent_flag w) = snd (op_step d x (sent_flag w))" by blast
  have "send m f w = (r, w')" using m(2) assms(3) by simp
  note out = send_emits [OF m(1) this]
  show ?thesis unfolding m(3) [symmetric] using out(1,2) out(3) by blast
qed

primrec WriterHalf_run :: "crates \<Rightarrow> client_op list \<Rightarrow> (WriterHalf, unit) st" where
  "WriterHalf_run d [] = st_mod (\<lambda>w. w)"
| "WriterHalf_run d (x # xs) = st_then (WriterHalf_op d x) (\<lambda>_. WriterHalf_run d xs)"

primrec op_trace :: "crates \<Rightarrow> client_op list \<Rightarrow> bool \<Rightarrow> bytes \<times> bool" where
  "op_trace d [] fl = ([], fl)"
| "op_trace d (x # xs) fl =
     (fst (op_step d x fl) @ fst (op_trace d xs (snd (op_step d x fl))),
      snd (op_trace d xs (snd (op_step d x fl))))"

lemma WriterHalf_run_trace:
  assumes "crates_ok d" "list_all (op_ok d) xs" "faults (w_inner w) = []"
  shows "WriterHalf_run d xs w =
    (Ok (), \<lparr>sent_flag = snd (op_trace d xs (sent_flag w)),
       w_inner = (w_inner w)\<lparr>sent := sent (w_inner w) @ fst (op_trace d xs (sent_flag w))\<rparr>\<rparr>)"
  using assms(2,3)
proof (induction xs arbitrary: w)
  case (Cons x xs)
  then have x: "op_ok d x" "list_all (op_ok d) xs" by simp_all
  let ?w = "\<lparr>sent_flag = snd (op_step d x (sent_flag w)),
       w_inner = (w_inner w)\<lparr>sent := sent (w_inner w) @ fst (op_step d x (sent_flag w))\<rparr>\<rparr>"
  have "WriterHalf_run d xs ?w = (Ok (), \<lparr>sent_flag = snd (op_trace d xs (sent_flag ?w)),
       w_inner = (w_inner ?w)\<lparr>sent := sent (w_inner ?w) @ fst (op_trace d xs (sent_flag ?w))\<rparr>\<rparr>)"
    using Cons.IH [OF x(2), of ?w] Cons.prems(2) by simp
  with WriterHalf_op_run [OF assms(1) x(1) Cons.prems(2)] show ?case
    by (simp add: st_then_def)
qed (simp add: st_mod_def)

primrec sets_flag :: "client_op \<Rightarrow> bool" where
  "sets_flag (Op_Publish b) \<longleftrightarrow> True"
| "sets_flag (Op_Subscribe b) \<longleftrightarrow> True"
| "sets_flag (Op_Unsubscribe b) \<longleftrightarrow> True"
| "sets_flag Op_Disconnect \<longleftrightarrow> False"
| "sets_flag Tick \<longleftrightarrow> False"

primrec op_packet :: "crates \<Rightarrow> client_op \<Rightarrow> bytes" where
  "op_packet d (Op_Publish b) = publish_packet d b"
| "op_packet d (Op_Subscribe b) = subscribe_packet d b"
| "op_packet d (Op_Unsubscribe b) = unsubscribe_packet d b"
| "op_packet d Op_Disconnect = unit_packet Disconnect"
| "op_packet d Tick = []"

lemma op_trace_interval:
  "Tick \<notin> set xs \<Longrightarrow>
   op_trace d (xs @ [Tick]) fl =
     (concat (map (op_packet d) xs) @ (if fl \<or> list_ex sets_flag xs then [] else unit_packet PingReq),
      False)"
proof (induction xs arbitrary: fl)
  case (Cons x xs)
  then show ?case by (cases x) auto
qed simp

lemma op_packet_nonempty: "sets_flag x \<Longrightarrow> op_packet d x \<noteq> []"
  by (cases x) (simp_all add: publish_packet_def subscribe_packet_def unsubscribe_packet_def filters_packet_def
      frame_header_def)

lemma interval_run:
  assumes "crates_ok d" "list_all (op_ok d) xs" "Tick \<notin> set xs" "faults (w_inner w) = []"
  shows "WriterHalf_run d (xs @ [Tick]) w =
    (Ok (), \<lparr>sent_flag = False, w_inner = (w_inner w)\<lparr>sent := sent (w_inner w) @
       concat (map (op_packet d) xs) @
       (if sent_flag w \<or> list_ex sets_flag xs then [] else unit_packet PingReq)\<rparr>\<rparr>)"
  using WriterHalf_run_trace [OF assms(1), of "xs @ [Tick]" w] assms(2,4)
  by (simp add: op_trace_interval [OF assms(3)])

section \<open>Correctness\<close>

text \<open>C10: The keep-alive timer. Between two ticks the packets the client sends go out in order and
  whole, and at the tick a PINGREQ follows exactly when no PUBLISH, SUBSCRIBE or UNSUBSCRIBE was sent since the
  last one; the record is cleared in both cases. A DISCONNECT, which the documentation calls the
  final packet of a client, is treated like any other: the packets after it go out, and on a line that
  is quiet otherwise the tick after it pings.\<close>

theorem keep_alive_interval:
  assumes "crates_ok d" "list_all (op_ok d) xs" "Tick \<notin> set xs" "faults (w_inner w) = []"
  shows "WriterHalf_run d (xs @ [Tick]) w =
    (Ok (), \<lparr>sent_flag = False, w_inner = (w_inner w)\<lparr>sent := sent (w_inner w) @
       concat (map (op_packet d) xs) @
       (if sent_flag w \<or> list_ex sets_flag xs then [] else unit_packet PingReq)\<rparr>\<rparr>) \<and>
    WriterHalf_run d (Op_Disconnect # xs @ [Tick]) w =
    (Ok (), \<lparr>sent_flag = False, w_inner = (w_inner w)\<lparr>sent := sent (w_inner w) @
       unit_packet Disconnect @ concat (map (op_packet d) xs) @
       (if sent_flag w \<or> list_ex sets_flag xs then [] else unit_packet PingReq)\<rparr>\<rparr>)"
  using interval_run [OF assms] interval_run [of d "Op_Disconnect # xs" w] assms by simp

lemma idle_writer [simp]: "faults (w_inner \<lparr>sent_flag = fl, w_inner = vec_writer\<rparr>) = []"
  by (simp add: vec_writer_def)

theorem keep_alive_interval_witness:
  "sent (w_inner (snd (WriterHalf_run (std_crates True) [Tick]
     \<lparr>sent_flag = False, w_inner = vec_writer\<rparr>))) = [0xC0, 0] \<and>
   sent (w_inner (snd (WriterHalf_run (std_crates True) [Op_Disconnect, Tick]
     \<lparr>sent_flag = False, w_inner = vec_writer\<rparr>))) = [0xE0, 0, 0xC0, 0]"
proof -
  have "unit_packet Disconnect = [0xE0, 0]" "unit_packet PingReq = [0xC0, 0]" by code_simp+
  with keep_alive_interval [OF std_crates_ok, of True "[]" "\<lparr>sent_flag = False, w_inner = vec_writer\<rparr>"]
  show ?thesis by (simp add: vec_writer_def del: WriterHalf_run.simps)
qed

text \<open>C11: Something goes out between every two ticks but one: two ticks in a row never pass without a
  byte on the wire, whatever was recorded before. One tick may: when the record is set the tick only
  clears it. So after a packet \<open>x\<close> that is recorded, the next tick writes nothing, even when \<open>x\<close> was sent right
  after the tick before, and only the second one writes a PINGREQ: the line can be quiet for
  almost two intervals.\<close>

theorem keep_alive_two_ticks:
  assumes "crates_ok d" "list_all (op_ok d) xs" "Tick \<notin> set xs" "faults (w_inner w) = []"
    and "op_ok d x" "sets_flag x"
  shows "(\<exists>bs w'. WriterHalf_run d (Tick # xs @ [Tick]) w = (Ok (), w') \<and>
      sent (w_inner w') = sent (w_inner w) @ bs \<and> bs \<noteq> []) \<and>
    (sent_flag w \<longrightarrow> WriterHalf_handle_ping d w = (Ok (), w\<lparr>sent_flag := False\<rparr>)) \<and>
    WriterHalf_run d [x, Tick] w =
      (Ok (), \<lparr>sent_flag = False, w_inner = (w_inner w)\<lparr>sent := sent (w_inner w) @ op_packet d x\<rparr>\<rparr>) \<and>
    WriterHalf_run d [x, Tick, Tick] w =
      (Ok (), \<lparr>sent_flag = False, w_inner = (w_inner w)\<lparr>sent := sent (w_inner w) @ op_packet d x @
        unit_packet PingReq\<rparr>\<rparr>)"
proof (intro conjI impI)
  let ?bs = "fst (op_trace d (Tick # xs @ [Tick]) (sent_flag w))"
  have "?bs \<noteq> []"
  proof (cases "list_ex sets_flag xs")
    case True
    then obtain x where "x \<in> set xs" "op_packet d x \<noteq> []" using op_packet_nonempty by (auto simp: list_ex_iff)
    then show ?thesis by (auto simp: op_trace_interval [OF assms(3)])
  qed (simp add: op_trace_interval [OF assms(3)] unit_packet_def)
  with WriterHalf_run_trace [OF assms(1), of "Tick # xs @ [Tick]" w] assms(2,4)
  show "\<exists>bs w'. WriterHalf_run d (Tick # xs @ [Tick]) w = (Ok (), w') \<and>
      sent (w_inner w') = sent (w_inner w) @ bs \<and> bs \<noteq> []" by (intro exI [of _ ?bs]) simp
  have x: "x \<noteq> Tick" using assms(6) by (cases x) simp_all
  then have step: "op_step d x fl = (op_packet d x, True)" for fl using assms(6) by (cases x) simp_all
  from WriterHalf_run_trace [OF assms(1), of "[x, Tick]" w] WriterHalf_run_trace [OF assms(1), of "[x, Tick, Tick]" w]
    assms(4,5)
  show "WriterHalf_run d [x, Tick] w =
      (Ok (), \<lparr>sent_flag = False, w_inner = (w_inner w)\<lparr>sent := sent (w_inner w) @ op_packet d x\<rparr>\<rparr>)"
    "WriterHalf_run d [x, Tick, Tick] w =
      (Ok (), \<lparr>sent_flag = False, w_inner = (w_inner w)\<lparr>sent := sent (w_inner w) @ op_packet d x @
        unit_packet PingReq\<rparr>\<rparr>)" by (simp_all add: step del: WriterHalf_run.simps)
qed (rule Tick_flag)

theorem keep_alive_two_ticks_witness:
  "\<exists>bs w'. WriterHalf_run (std_crates True) [Tick, Tick] \<lparr>sent_flag = True, w_inner = vec_writer\<rparr> = (Ok (), w') \<and>
    sent (w_inner w') = bs \<and> bs \<noteq> []"
proof -
  have "publish_sendable sample_publish" by (rule sample_publish_ok)
  with keep_alive_two_ticks [OF std_crates_ok, of True "[]" "\<lparr>sent_flag = True, w_inner = vec_writer\<rparr>"
      "Op_Publish sample_publish"]
  show ?thesis by (simp add: vec_writer_def del: WriterHalf_run.simps)
qed

end
