(* ===== verification/Sync_Loop.thy ===== *)
theory Sync_Loop
  imports Packets Sync_Reader Sync_Writer
begin

text \<open>
  The receiving side of the synchronous client (\<open>ReaderHalf\<close> in \<open>src/sync.rs\<close>, l. 282-435): the
  event loop and \<open>recv\<close>. Polling is a script: each \<open>poll\<close> either fails or returns events, and an
  event carries its token and, for the timer, how many bytes the read of the timer descriptor
  returned. When the script is exhausted the loop keeps polling without an event for ever, which
  is the value \<open>None\<close>.
\<close>

section \<open>The event loop\<close>

record event =
  ev_token :: nat
  ev_timer_read :: "nat option"

datatype poll_result = Poll_Err io_error_kind | Poll_Events "event list"

text \<open>
  The connection with its reader half: the writer half is the one they share through an \<open>Arc\<close>,
  and the poll is its script.
\<close>

record timer_fd =
  tm_abstime :: bool
  tm_interval_sec :: nat
  tm_value_sec :: nat

record Connection =
  cn_writer :: WriterHalf
  cn_reader :: Reader
  cn_timer :: timer_fd
  cn_polls :: "poll_result list"

definition READER_token :: nat where "READER_token = 0"
definition TIMER_token :: nat where "TIMER_token = 1"

definition would_block :: "Error \<Rightarrow> bool" where
  "would_block err \<longleftrightarrow> kind err = StdIo WouldBlock"

text \<open>How the \<open>for\<close> loop over the events of one poll ends.\<close>

datatype loop_exit = Break_loop | Go_on | Raise Error | Crash

fun ReaderHalf_events :: "crates \<Rightarrow> event list \<Rightarrow> Connection \<Rightarrow> (loop_exit \<times> Connection) option" where
  "ReaderHalf_events d [] this = Some (Go_on, this)"
| "ReaderHalf_events d (event # events) this =
     (if ev_token event = READER_token then
        (case Reader_read d (cn_reader this) of
           None \<Rightarrow> None
         | Some (Ok _, r) \<Rightarrow> Some (Break_loop, this\<lparr>cn_reader := r\<rparr>)
         | Some (Err err, r) \<Rightarrow>
             if would_block err then ReaderHalf_events d events (this\<lparr>cn_reader := r\<rparr>)
             else Some (Raise err, this\<lparr>cn_reader := r\<rparr>)
         | Some (Panic, r) \<Rightarrow> Some (Crash, this\<lparr>cn_reader := r\<rparr>))
      else if ev_token event = TIMER_token then
        (if ev_timer_read event = Some 8 then
           (case WriterHalf_handle_ping d (cn_writer this) of
              (Ok _, w) \<Rightarrow> ReaderHalf_events d events (this\<lparr>cn_writer := w\<rparr>)
            | (Err err, w) \<Rightarrow> Some (Raise err, this\<lparr>cn_writer := w\<rparr>)
            | (Panic, w) \<Rightarrow> Some (Crash, this\<lparr>cn_writer := w\<rparr>))
         else Some (Raise (Error_new Invalid ''read''), this))
      else Some (Crash, this))"

fun ReaderHalf_poll_loop :: "crates \<Rightarrow> poll_result list \<Rightarrow> Connection \<Rightarrow> (bytes res \<times> Connection) option" where
  "ReaderHalf_poll_loop d [] this = None"
| "ReaderHalf_poll_loop d (Poll_Err k # polls) this =
     Some (Err (Error_new (StdIo k) ''while polling''), this\<lparr>cn_polls := polls\<rparr>)"
| "ReaderHalf_poll_loop d (Poll_Events events # polls) this =
     (case ReaderHalf_events d events (this\<lparr>cn_polls := polls\<rparr>) of
        None \<Rightarrow> None
      | Some (Go_on, this) \<Rightarrow> ReaderHalf_poll_loop d polls this
      | Some (Break_loop, this) \<Rightarrow> Some (Reader_buff (cn_reader this), this)
      | Some (Raise err, this) \<Rightarrow> Some (Err err, this)
      | Some (Crash, this) \<Rightarrow> Some (Panic, this))"

definition ReaderHalf_poll_event :: "crates \<Rightarrow> Connection \<Rightarrow> (bytes res \<times> Connection) option" where
  "ReaderHalf_poll_event d this = ReaderHalf_poll_loop d (cn_polls this) this"

definition ReaderHalf_recv :: "crates \<Rightarrow> Connection \<Rightarrow> (Packet res \<times> Connection) option" where
  "ReaderHalf_recv d this =
     (case Reader_consume (debug_assertions d) (cn_reader this) of
        (Ok _, r) \<Rightarrow>
          map_option (\<lambda>(read, this). (and_then read (Decode_consume (Packet_parse d)), this))
            (ReaderHalf_poll_event d (this\<lparr>cn_reader := r\<rparr>))
      | (Err e, r) \<Rightarrow> Some (Err e, this\<lparr>cn_reader := r\<rparr>)
      | (Panic, r) \<Rightarrow> Some (Panic, this\<lparr>cn_reader := r\<rparr>))"

section \<open>Receiving\<close>

text \<open>The bytes that are still to be delivered once the frame in hand is consumed.\<close>

definition undelivered :: "Reader \<Rightarrow> bytes" where
  "undelivered r =
     (case rd_frame r of None \<Rightarrow> pending r | Some n \<Rightarrow> drop n (pending r)) @ avail (rd_inner r)"

text \<open>A reader between two calls of \<open>recv\<close>.\<close>

definition reader_between :: "Reader \<Rightarrow> bool" where
  "reader_between r \<longleftrightarrow> reader_inv r \<and> (rd_frame r = None \<longrightarrow> reader_ready r) \<and> steady (rd_inner r)"

abbreviation readable :: event where
  "readable \<equiv> \<lparr>ev_token = 0, ev_timer_read = None\<rparr>"

lemma reader_between_consume:
  assumes "reader_between r"
  shows "\<exists>r'. Reader_consume dbg r = (Ok (), r') \<and> reader_ready r' \<and> rd_frame r' = None \<and>
    steady (rd_inner r') \<and> stream r' = undelivered r \<and> length (rd_buf r') = length (rd_buf r)"
proof -
  from assms have r: "reader_inv r" "rd_frame r = None \<longrightarrow> reader_ready r" "steady (rd_inner r)"
    by (simp_all add: reader_between_def)
  then have "rd_filled r \<le> length (rd_buf r)" by (simp add: reader_inv_def)
  from Reader_consume_total [OF r(1) this, of dbg] obtain r' where r': "Reader_consume dbg r = (Ok (), r')"
    "rd_frame r' = None" "rd_inner r' = rd_inner r" "rd_buf r' = rd_buf r" "reader_inv r'"
    "pending r' = (case rd_frame r of None \<Rightarrow> pending r | Some n \<Rightarrow> drop n (pending r))"
    "rd_frame r \<noteq> None \<longrightarrow> reader_ready r'" by blast
  have "reader_ready r'"
  proof (cases "rd_frame r")
    case None
    with r(2) r'(1) show ?thesis by (simp add: Reader_consume_def)
  qed (use r'(7) in simp)
  with r r' show ?thesis by (auto simp: stream_def undelivered_def)
qed

text \<open>
  One readable event with a whole packet in the stream: the packet and perhaps the bytes after
  it are in the buffer, and the parser decides on those.
\<close>

lemma recv_steady:
  assumes "crates_ok d" "packet_ok p" "reader_between (cn_reader c)"
    and "undelivered (cn_reader c) = packet_bytes d p @ rest"
    and "length (packet_bytes d p) \<le> length (rd_buf (cn_reader c))"
    and "cn_polls c = Poll_Events [readable] # polls"
  shows "\<exists>extra c'. ReaderHalf_recv d c =
      Some (Decode_consume (Packet_parse d) (packet_bytes d p @ extra), c') \<and>
    reader_between (cn_reader c') \<and> undelivered (cn_reader c') = rest \<and> prefix extra rest \<and>
    length extra \<le> 5 - length (packet_bytes d p) \<and> cn_polls c' = polls \<and>
    length (rd_buf (cn_reader c')) = length (rd_buf (cn_reader c)) \<and> cn_writer c' = cn_writer c"
proof -
  let ?pkt = "packet_bytes d p"
  from reader_between_consume [OF assms(3), of "debug_assertions d"] obtain r1 where r1:
    "Reader_consume (debug_assertions d) (cn_reader c) = (Ok (), r1)" "reader_ready r1" "rd_frame r1 = None"
    "steady (rd_inner r1)" "stream r1 = undelivered (cn_reader c)"
    "length (rd_buf r1) = length (rd_buf (cn_reader c))" by blast
  have nf: "FixedHeader_next_frame d ?pkt = Ok (Some (length ?pkt))"
    using packet_bytes_next_frame [OF assms(1,2), of "[]"] by simp
  from r1 assms(4,5) have st: "stream r1 = ?pkt @ rest" "length ?pkt \<le> length (rd_buf r1)" by simp_all
  from Reader_read_steady [OF r1(2-4) st(1) nf st(2)] obtain extra r' where r':
    "Reader_read d r1 = Some (Ok (?pkt @ extra), r')" "reader_inv r'" "rd_frame r' = Some (length ?pkt)"
    "pending r' = ?pkt @ extra" "steady (rd_inner r')" "extra @ avail (rd_inner r') = rest"
    "length extra \<le> 5 - length ?pkt" "length (rd_buf r') = length (rd_buf r1)" by blast
  let ?c = "c\<lparr>cn_reader := r', cn_polls := polls\<rparr>"
  have "ReaderHalf_recv d c = Some (Decode_consume (Packet_parse d) (?pkt @ extra), ?c)"
    using r1(1) r'(1,4) Reader_buff_pending [OF r'(2)] assms(6)
    by (simp add: ReaderHalf_recv_def ReaderHalf_poll_event_def READER_token_def)
  moreover have "reader_between (cn_reader ?c)" "undelivered (cn_reader ?c) = rest" "prefix extra rest"
    using r' by (auto simp: reader_between_def undelivered_def prefix_def)
  ultimately show ?thesis using r'(7,8) r1(6) by (intro exI [of _ extra] exI [of _ ?c]) simp
qed

lemma recv_packet:
  assumes "crates_ok d" "packet_ok p" "reader_between (cn_reader c)"
    and "undelivered (cn_reader c) = packet_bytes d p @ rest"
    and "length (packet_bytes d p) \<le> length (rd_buf (cn_reader c))"
    and "cn_polls c = Poll_Events [readable] # polls"
    and "5 \<le> length (packet_bytes d p) \<or> rest = []"
  shows "\<exists>c'. ReaderHalf_recv d c = Some (Ok (packet_view p), c') \<and>
    reader_between (cn_reader c') \<and> undelivered (cn_reader c') = rest \<and> cn_polls c' = polls \<and>
    length (rd_buf (cn_reader c')) = length (rd_buf (cn_reader c)) \<and> cn_writer c' = cn_writer c"
proof -
  from recv_steady [OF assms(1-6)] obtain extra c' where c': "ReaderHalf_recv d c =
      Some (Decode_consume (Packet_parse d) (packet_bytes d p @ extra), c')"
    "reader_between (cn_reader c')" "undelivered (cn_reader c') = rest" "prefix extra rest"
    "length extra \<le> 5 - length (packet_bytes d p)" "cn_polls c' = polls"
    "length (rd_buf (cn_reader c')) = length (rd_buf (cn_reader c))" "cn_writer c' = cn_writer c" by blast
  have "extra = []" using assms(7) c'(4,5) by auto
  moreover have "Decode_consume (Packet_parse d) (packet_bytes d p) = Ok (packet_view p)"
    by (rule packet.consume_enc [OF assms(1,2)])
  ultimately show ?thesis using c' by auto
qed

section \<open>Runs of \<open>recv\<close>\<close>

text \<open>The receiving loop of a client: packets until an error, at most \<open>n\<close> of them.\<close>

primrec recv_all :: "crates \<Rightarrow> nat \<Rightarrow> Connection \<Rightarrow> (Packet list \<times> Error option \<times> Connection) option" where
  "recv_all d 0 c = Some ([], None, c)"
| "recv_all d (Suc n) c =
     (case ReaderHalf_recv d c of
        None \<Rightarrow> None
      | Some (Ok p, c) \<Rightarrow> map_option (\<lambda>(ps, r). (p # ps, r)) (recv_all d n c)
      | Some (Err e, c) \<Rightarrow> Some ([], Some e, c)
      | Some (Panic, c) \<Rightarrow> None)"

text \<open>The reader holds nothing beyond the frame it has handed out.\<close>

definition drained :: "Reader \<Rightarrow> bool" where
  "drained r \<longleftrightarrow>
     reader_inv r \<and> (case rd_frame r of None \<Rightarrow> pending r | Some n \<Rightarrow> drop n (pending r)) = []"

lemma drained_consume:
  assumes "drained r"
  shows "\<exists>r'. Reader_consume dbg r = (Ok (), r') \<and> reader_ready r' \<and> rd_frame r' = None \<and>
    pending r' = [] \<and> rd_inner r' = rd_inner r \<and> length (rd_buf r') = length (rd_buf r)"
proof -
  from assms have r: "reader_inv r" "rd_filled r \<le> length (rd_buf r)"
    by (simp_all add: drained_def reader_inv_def)
  from Reader_consume_total [OF this, of dbg] obtain r' where r': "Reader_consume dbg r = (Ok (), r')"
    "rd_frame r' = None" "rd_inner r' = rd_inner r" "rd_buf r' = rd_buf r" "reader_inv r'"
    "pending r' = (case rd_frame r of None \<Rightarrow> pending r | Some n \<Rightarrow> drop n (pending r))" by blast
  have p: "pending r' = []" using r'(6) assms by (simp add: drained_def)
  with length_pending [OF r'(5)] r'(5) have "reader_ready r'" by (simp add: reader_ready_def)
  with r' p show ?thesis by simp
qed

lemma ready_drained: "reader_ready r \<Longrightarrow> rd_frame r = None \<Longrightarrow> pending r = [] \<Longrightarrow> drained r"
  by (simp add: drained_def reader_ready_def)

text \<open>One readable event, and the read finds a whole packet and nothing else.\<close>

lemma poll_whole_chunk:
  assumes "reader_ready (cn_reader c)" "rd_frame (cn_reader c) = None" "pending (cn_reader c) = []"
    and "rd_inner (cn_reader c) = Data pkt # cs" "length pkt \<le> length (rd_buf (cn_reader c))"
    and "FixedHeader_next_frame d pkt = Ok (Some (length pkt))"
    and "cn_polls c = Poll_Events [readable] # polls"
  shows "\<exists>r. ReaderHalf_poll_event d c = Some (Ok pkt, c\<lparr>cn_reader := r, cn_polls := polls\<rparr>) \<and>
    drained r \<and> rd_inner r = cs \<and> length (rd_buf r) = length (rd_buf (cn_reader c))"
proof -
  from read_whole_chunk [OF assms(1-6)] obtain r where r: "Reader_read d (cn_reader c) = Some (Ok pkt, r)"
    "reader_inv r" "rd_frame r = Some (length pkt)" "pending r = pkt" "rd_inner r = cs"
    "length (rd_buf r) = length (rd_buf (cn_reader c))" by blast
  then have "drained r" by (simp add: drained_def)
  with r assms(7) Reader_buff_pending [OF r(2)] show ?thesis
    by (intro exI [of _ r]) (simp add: ReaderHalf_poll_event_def READER_token_def)
qed

lemma recv_whole_chunk:
  assumes "crates_ok d" "packet_ok p" "drained (cn_reader c)"
    and "rd_inner (cn_reader c) = Data (packet_bytes d p) # cs"
    and "length (packet_bytes d p) \<le> length (rd_buf (cn_reader c))"
    and "cn_polls c = Poll_Events [readable] # polls"
  shows "\<exists>r. ReaderHalf_recv d c = Some (Ok (packet_view p), c\<lparr>cn_reader := r, cn_polls := polls\<rparr>) \<and>
    drained r \<and> rd_inner r = cs \<and> length (rd_buf r) = length (rd_buf (cn_reader c))"
proof -
  from drained_consume [OF assms(3), of "debug_assertions d"] obtain r1 where r1:
    "Reader_consume (debug_assertions d) (cn_reader c) = (Ok (), r1)" "reader_ready r1" "rd_frame r1 = None"
    "pending r1 = []" "rd_inner r1 = rd_inner (cn_reader c)"
    "length (rd_buf r1) = length (rd_buf (cn_reader c))" by blast
  have nf: "FixedHeader_next_frame d (packet_bytes d p) = Ok (Some (length (packet_bytes d p)))"
    using packet_bytes_next_frame [OF assms(1,2), of "[]"] by simp
  from poll_whole_chunk [of "c\<lparr>cn_reader := r1\<rparr>" "packet_bytes d p" cs d polls] r1 assms(4-6) nf
  obtain r where "ReaderHalf_poll_event d (c\<lparr>cn_reader := r1\<rparr>) =
      Some (Ok (packet_bytes d p), c\<lparr>cn_reader := r, cn_polls := polls\<rparr>)"
    "drained r" "rd_inner r = cs" "length (rd_buf r) = length (rd_buf (cn_reader c))" by auto
  with r1(1) packet.consume_enc [OF assms(1,2)] show ?thesis
    by (intro exI [of _ r]) (simp add: ReaderHalf_recv_def)
qed

lemma recv_all_chunks:
  assumes "crates_ok d" "list_all packet_ok ps" "drained (cn_reader c)"
    and "rd_inner (cn_reader c) = map (\<lambda>p. Data (packet_bytes d p)) ps @ cs"
    and "list_all (\<lambda>p. length (packet_bytes d p) \<le> length (rd_buf (cn_reader c))) ps"
    and "cn_polls c = replicate (length ps) (Poll_Events [readable]) @ polls"
  shows "\<exists>r. recv_all d (length ps) c = Some (map packet_view ps, None, c\<lparr>cn_reader := r, cn_polls := polls\<rparr>) \<and>
    drained r \<and> rd_inner r = cs"
  using assms(2-)
proof (induction ps arbitrary: c)
  case Nil
  then show ?case by (intro exI [of _ "cn_reader c"]) simp
next
  case (Cons p ps)
  let ?polls = "replicate (length ps) (Poll_Events [readable]) @ polls"
  let ?cs = "map (\<lambda>p. Data (packet_bytes d p)) ps @ cs"
  from recv_whole_chunk [OF assms(1), of p c ?cs ?polls] Cons.prems obtain r where r:
    "ReaderHalf_recv d c = Some (Ok (packet_view p), c\<lparr>cn_reader := r, cn_polls := ?polls\<rparr>)"
    "drained r" "rd_inner r = ?cs" "length (rd_buf r) = length (rd_buf (cn_reader c))" by auto
  from Cons.IH [of "c\<lparr>cn_reader := r, cn_polls := ?polls\<rparr>"] r Cons.prems show ?case by auto
qed

text \<open>A short packet with more bytes behind it in the same read: it is lost.\<close>

lemma recv_short_lost:
  assumes "crates_ok d" "packet_ok p" "drained (cn_reader c)"
    and "rd_inner (cn_reader c) = Data (packet_bytes d p @ b # bs) # cs" "length (packet_bytes d p) < 5"
    and "cn_polls c = Poll_Events [readable] # polls"
  shows "\<exists>c'. ReaderHalf_recv d c =
      Some (Err (Error_new Invalid ''remaining bytes in consumed packet''), c') \<and>
    reader_inv (cn_reader c') \<and> undelivered (cn_reader c') = b # bs @ avail cs"
proof -
  let ?pkt = "packet_bytes d p"
  from drained_consume [OF assms(3), of "debug_assertions d"] obtain r1 where r1:
    "Reader_consume (debug_assertions d) (cn_reader c) = (Ok (), r1)" "reader_ready r1" "rd_frame r1 = None"
    "pending r1 = []" "rd_inner r1 = rd_inner (cn_reader c)" by blast
  have nf: "FixedHeader_next_frame d ?pkt = Ok (Some (length ?pkt))"
    using packet_bytes_next_frame [OF assms(1,2), of "[]"] by simp
  from read_first_chunk [OF r1(2-4), of ?pkt "b # bs" cs d] r1(5) assms(4,5) nf obtain r where r:
    "Reader_read d r1 = Some (Ok (take 5 (?pkt @ b # bs)), r)" "reader_inv r" "rd_frame r = Some (length ?pkt)"
    "pending r = take 5 (?pkt @ b # bs)"
    "rd_inner r = (if length (?pkt @ b # bs) \<le> 5 then cs else Data (drop 5 (?pkt @ b # bs)) # cs)" by auto
  let ?c = "c\<lparr>cn_reader := r, cn_polls := polls\<rparr>"
  have take5: "take 5 (?pkt @ b # bs) = ?pkt @ take (5 - length ?pkt) (b # bs)" using assms(5) by simp
  have "take (5 - length ?pkt) (b # bs) \<noteq> []" using assms(5) by simp
  from packet.consume_enc_more [OF assms(1,2) this] take5
  have "ReaderHalf_recv d c = Some (Err (Error_new Invalid ''remaining bytes in consumed packet''), ?c)"
    using r1(1) r(1,4) Reader_buff_pending [OF r(2)] assms(6)
    by (simp add: ReaderHalf_recv_def ReaderHalf_poll_event_def READER_token_def)
  moreover have "pending r @ avail (rd_inner r) = ?pkt @ b # bs @ avail cs"
    using r(4,5) append_take_drop_id [of 5 "?pkt @ b # bs"] by (auto simp: avail_def simp del: take_append drop_append)
  then have "undelivered r = b # bs @ avail cs"
    using r(3,4) take5 by (simp add: undelivered_def)
  ultimately show ?thesis using r(2) by (intro exI [of _ ?c]) simp
qed

text \<open>Without an event for the socket nothing is delivered, whatever the buffer holds.\<close>

definition timer_only :: "poll_result \<Rightarrow> bool" where
  "timer_only p \<longleftrightarrow>
     (case p of Poll_Err _ \<Rightarrow> False
      | Poll_Events es \<Rightarrow> list_all (\<lambda>e. e = \<lparr>ev_token = 1, ev_timer_read = Some 8\<rparr>) es)"

lemma timer_events_go_on:
  assumes "crates_ok d" "list_all (\<lambda>e. e = \<lparr>ev_token = 1, ev_timer_read = Some 8\<rparr>) es"
    and "faults (w_inner (cn_writer c)) = []"
  shows "\<exists>w. ReaderHalf_events d es c = Some (Go_on, c\<lparr>cn_writer := w\<rparr>) \<and> faults (w_inner w) = []"
  using assms(2,3)
proof (induction es arbitrary: c)
  case Nil
  then show ?case by (intro exI [of _ "cn_writer c"]) simp
next
  case (Cons e es)
  from WriterHalf_op_run [OF assms(1) _ Cons.prems(2), of Tick] obtain w where
    w: "WriterHalf_handle_ping d (cn_writer c) = (Ok (), w)" "faults (w_inner w) = []"
    using Cons.prems(2) by simp
  from Cons.IH [of "c\<lparr>cn_writer := w\<rparr>"] Cons.prems w show ?case
    by (simp add: READER_token_def TIMER_token_def)
qed

lemma poll_timer_only:
  assumes "crates_ok d" "list_all timer_only polls" "faults (w_inner (cn_writer c)) = []"
  shows "ReaderHalf_poll_loop d polls c = None"
  using assms(2,3)
proof (induction polls arbitrary: c)
  case (Cons q polls)
  then obtain es where es: "q = Poll_Events es"
    "list_all (\<lambda>e. e = \<lparr>ev_token = 1, ev_timer_read = Some 8\<rparr>) es"
    by (auto simp: timer_only_def split: poll_result.splits)
  from timer_events_go_on [OF assms(1) es(2), of "c\<lparr>cn_polls := polls\<rparr>"] Cons es(1) show ?case by auto
qed simp

section \<open>No panic while receiving\<close>

lemma next_frame_error_kind:
  assumes "FixedHeader_next_frame d buf = Err e"
  shows "\<not> would_block e"
  using assms
  by (auto simp: FixedHeader_next_frame_def would_block_def count_continue_flags_def Error_new_def Let_def
      and_then_Err_iff ok_or_Err_iff read_from_buf_no_Err split: if_splits option.splits)

definition tokens_ok :: "event list \<Rightarrow> bool" where
  "tokens_ok es \<longleftrightarrow> list_all (\<lambda>e. ev_token e = READER_token \<or> ev_token e = TIMER_token) es"

lemma handle_ping_no_Panic: "crates_ok d \<Longrightarrow> WriterHalf_handle_ping d w \<noteq> (Panic, w')"
  using WriterHalf_op_outcome [of d Tick w Panic w'] by auto

text \<open>A header that no packet can have: the reader keeps it and reports it again on every read.\<close>

definition stuck :: "crates \<Rightarrow> Reader \<Rightarrow> Error \<Rightarrow> bool" where
  "stuck d r e \<longleftrightarrow> reader_inv r \<and> rd_frame r = None \<and> FixedHeader_next_frame d (pending r) = Err e"

lemma stuckI:
  "reader_inv r \<Longrightarrow> \<not> reader_ready r \<Longrightarrow> FixedHeader_next_frame d (pending r) = Err e \<Longrightarrow> stuck d r e"
  by (auto simp: stuck_def reader_ready_def)

lemma events_outcome:
  assumes "crates_ok d" "tokens_ok es" "reader_ready (cn_reader c)"
  shows "\<exists>x c'. ReaderHalf_events d es c = Some (x, c') \<and> x \<noteq> Crash \<and> cn_polls c' = cn_polls c \<and>
    (reader_ready (cn_reader c') \<or> (\<exists>e. x = Raise e \<and> stuck d (cn_reader c') e))"
  using assms(2,3)
proof (induction es arbitrary: c)
  case (Cons e es)
  then have es: "tokens_ok es" by (simp add: tokens_ok_def)
  show ?case
  proof (cases "ev_token e = READER_token")
    case True
    from Reader_read_total_aux [OF Cons.prems(2), of d] obtain res r where r:
      "Reader_read d (cn_reader c) = Some (res, r)" "res \<noteq> Panic" "reader_inv r"
      "reader_ready r \<or> (\<exists>e. res = Err e \<and> FixedHeader_next_frame d (pending r) = Err e)" by blast
    show ?thesis
    proof (cases res)
      case (Err err)
      with r(4) next_frame_error_kind have wb: "would_block err \<Longrightarrow> reader_ready r" by blast
      from r(3,4) Err have "reader_ready r \<or> stuck d r err" by (auto intro: stuckI)
      with wb Err True r Cons.IH [OF es, of "c\<lparr>cn_reader := r\<rparr>"] show ?thesis by auto
    qed (use True r in simp_all)
  next
    case False
    with Cons.prems(1) have t: "ev_token e = TIMER_token" by (simp add: tokens_ok_def)
    obtain res w where w: "WriterHalf_handle_ping d (cn_writer c) = (res, w)" by fastforce
    with handle_ping_no_Panic [OF assms(1)] have "res \<noteq> Panic" by blast
    with w t False Cons.prems(2) Cons.IH [OF es, of "c\<lparr>cn_writer := w\<rparr>"] show ?thesis
      by (cases res) simp_all
  qed
qed simp

lemma poll_outcome:
  assumes "crates_ok d" "\<And>es. Poll_Events es \<in> set polls \<Longrightarrow> tokens_ok es" "reader_ready (cn_reader c)"
    and "ReaderHalf_poll_loop d polls c = Some (res, c')"
  shows "res \<noteq> Panic \<and> suffix (cn_polls c') polls \<and>
    (reader_ready (cn_reader c') \<or> (\<exists>e. res = Err e \<and> stuck d (cn_reader c') e))"
  using assms(2-)
proof (induction polls arbitrary: c)
  case (Cons q polls)
  show ?case
  proof (cases q)
    case (Poll_Err k)
    with Cons.prems show ?thesis by (auto intro: suffix_ConsI)
  next
    case (Poll_Events es)
    with Cons.prems(1) have "tokens_ok es" by simp
    from events_outcome [OF assms(1) this, of "c\<lparr>cn_polls := polls\<rparr>"] Cons.prems(2) obtain x c1 where
      x: "ReaderHalf_events d es (c\<lparr>cn_polls := polls\<rparr>) = Some (x, c1)" "x \<noteq> Crash" "cn_polls c1 = polls"
      "reader_ready (cn_reader c1) \<or> (\<exists>e. x = Raise e \<and> stuck d (cn_reader c1) e)" by auto
    show ?thesis
    proof (cases x)
      case Go_on
      with x Poll_Events Cons.prems Cons.IH [of c1] show ?thesis by (auto intro: suffix_ConsI)
    next
      case Break_loop
      with x have "reader_ready (cn_reader c1)" by simp
      with Break_loop x Poll_Events Cons.prems(3) show ?thesis
        by (auto simp: Reader_buff_pending reader_ready_def intro: suffix_ConsI)
    qed (use x Poll_Events Cons.prems(3) in \<open>auto intro: suffix_ConsI\<close>)
  qed
qed simp

lemma recv_outcome:
  assumes "crates_ok d" "reader_ready (cn_reader c)" "\<And>es. Poll_Events es \<in> set (cn_polls c) \<Longrightarrow> tokens_ok es"
    and "ReaderHalf_recv d c = Some (res, c')"
  shows "res \<noteq> Panic \<and> suffix (cn_polls c') (cn_polls c) \<and>
    (reader_ready (cn_reader c') \<or> (\<exists>e. res = Err e \<and> stuck d (cn_reader c') e))"
proof -
  from assms(2) have inv: "reader_inv (cn_reader c)" "rd_filled (cn_reader c) \<le> length (rd_buf (cn_reader c))"
    by (simp_all add: reader_ready_def reader_inv_def)
  from Reader_consume_total [OF this, of "debug_assertions d"] obtain r where
    r: "Reader_consume (debug_assertions d) (cn_reader c) = (Ok (), r)"
      "rd_frame (cn_reader c) \<noteq> None \<longrightarrow> reader_ready r" by blast
  have ready: "reader_ready r"
    using r assms(2) by (cases "rd_frame (cn_reader c)") (simp_all add: Reader_consume_def)
  from assms(4) r(1) obtain read where poll:
    "ReaderHalf_poll_loop d (cn_polls c) (c\<lparr>cn_reader := r\<rparr>) = Some (read, c')"
    "res = and_then read (Decode_consume (Packet_parse d))"
    by (auto simp: ReaderHalf_recv_def ReaderHalf_poll_event_def)
  from poll_outcome [OF assms(1,3) _ poll(1)] ready Packet_parse_no_Panic_aux [OF assms(1)] show ?thesis
    unfolding poll(2) by (auto simp: and_then_Panic_iff)
qed

lemma recv_never_panics:
  "crates_ok d \<Longrightarrow> reader_ready (cn_reader c) \<Longrightarrow> \<forall>es. Poll_Events es \<in> set (cn_polls c) \<longrightarrow> tokens_ok es \<Longrightarrow>
    ReaderHalf_recv d c \<noteq> Some (Panic, c')"
  using recv_outcome by blast

section \<open>Correctness\<close>

definition sample_connection :: "Reader \<Rightarrow> poll_result list \<Rightarrow> Connection" where
  "sample_connection r polls =
     \<lparr>cn_writer = \<lparr>sent_flag = True, w_inner = vec_writer\<rparr>, cn_reader = r,
      cn_timer = \<lparr>tm_abstime = True, tm_interval_sec = 10, tm_value_sec = 10\<rparr>, cn_polls = polls\<rparr>"

lemma sample_connection_simps [simp]:
  "cn_reader (sample_connection r polls) = r" "cn_polls (sample_connection r polls) = polls"
  "cn_writer (sample_connection r polls) = \<lparr>sent_flag = True, w_inner = vec_writer\<rparr>"
  by (simp_all add: sample_connection_def)

lemma sample_reader_drained: "drained (sample_reader s)"
  by (rule ready_drained [OF sample_reader_ready]) (simp_all add: sample_reader_def pending_def)

lemma sample_reader_simps [simp]:
  "rd_inner (sample_reader s) = s" "rd_frame (sample_reader s) = None" "pending (sample_reader s) = []"
  "length (rd_buf (sample_reader s)) = 16"
  by (simp_all add: sample_reader_def pending_def)

text \<open>C35: A packet of fewer than five bytes is lost when the next byte of the stream arrives with it:
  the reader hands out both, \<open>recv\<close> reports that bytes remain, and the next call goes on after
  the packet.\<close>

theorem recv_loses_short_packet:
  assumes "crates_ok d" "packet_ok p" "drained (cn_reader c)"
    and "rd_inner (cn_reader c) = Data (packet_bytes d p @ b # bs) # cs" "length (packet_bytes d p) < 5"
    and "cn_polls c = Poll_Events [readable] # polls"
  shows "\<exists>c'. ReaderHalf_recv d c =
      Some (Err (Error_new Invalid ''remaining bytes in consumed packet''), c') \<and>
    undelivered (cn_reader c') = b # bs @ avail cs"
  using recv_short_lost [OF assms] by blast

theorem recv_loses_short_packet_witness:
  "\<exists>c'. ReaderHalf_recv (std_crates True) (sample_connection (sample_reader [Data [0x40, 2, 0, 10, 0xD0, 0]])
      [Poll_Events [readable]]) =
    Some (Err (Error_new Invalid ''remaining bytes in consumed packet''), c') \<and>
    undelivered (cn_reader c') = [0xD0, 0]"
proof -
  have "packet_bytes (std_crates True) (Send_PubAck 10) = [0x40, 2, 0, 10]" by code_simp
  with recv_loses_short_packet [OF std_crates_ok, of "Send_PubAck 10"
      "sample_connection (sample_reader [Data [0x40, 2, 0, 10, 0xD0, 0]]) [Poll_Events [readable]]" True
      "0xD0" "[0]" "[]" "[]"] sample_reader_drained
  show ?thesis by (simp add: avail_def)
qed

text \<open>C36: \<open>recv\<close> delivers only on an event for the socket. As long as polling reports timer events
  alone it does not return, even when the rest of a read that is already in the buffer is a
  complete packet.\<close>

theorem recv_waits_for_event:
  assumes "crates_ok d" "list_all timer_only (cn_polls c)" "faults (w_inner (cn_writer c)) = []"
    and "reader_inv (cn_reader c)"
  shows "ReaderHalf_recv d c = None"
proof -
  from assms(4) have "rd_filled (cn_reader c) \<le> length (rd_buf (cn_reader c))" by (simp add: reader_inv_def)
  from Reader_consume_total [OF assms(4) this, of "debug_assertions d"] obtain r
    where "Reader_consume (debug_assertions d) (cn_reader c) = (Ok (), r)" by blast
  with poll_timer_only [OF assms(1,2), of "c\<lparr>cn_reader := r\<rparr>"] assms(3) show ?thesis
    by (simp add: ReaderHalf_recv_def ReaderHalf_poll_event_def)
qed

theorem recv_waits_for_event_witness:
  "ReaderHalf_recv (std_crates True) (sample_connection
     \<lparr>rd_buf = [0x40, 2, 0, 0xD0, 0], rd_pos = 3, rd_frame = None, rd_filled = 5, rd_inner = []\<rparr>
     [Poll_Events [], Poll_Events [\<lparr>ev_token = 1, ev_timer_read = Some 8\<rparr>]]) = None"
  by (rule recv_waits_for_event [OF std_crates_ok])
    (simp_all add: timer_only_def reader_inv_def usize_max_def vec_writer_def)

end
