(* ===== verification/Sender.thy ===== *)
theory Sender
  imports Sync_Writer
begin

text \<open>
  The trait \<open>Sender\<close> (\<open>src/sync.rs\<close>, l. 30-46), which \<open>WriterHalf\<close> and \<open>Connection\<close> implement. A
  program that sends knows only the four operations, so what it may rely on is stated as a
  contract, the locale \<open>sender\<close>: every operation puts its packet on the wire and records it, or
  fails with an error of the socket after a prefix of the packet. What follows for a sequence of
  operations is proved once for every implementation.
\<close>

section \<open>The trait\<close>

record 's sender_ops =
  send_publish :: "crates \<Rightarrow> PublishBuilder \<Rightarrow> ('s, unit) st"
  send_subscribe :: "crates \<Rightarrow> SubscribeBuilder \<Rightarrow> ('s, unit) st"
  send_unsubscribe :: "crates \<Rightarrow> UnsubscribeBuilder \<Rightarrow> ('s, unit) st"
  send_disconnect :: "crates \<Rightarrow> ('s, unit) st"

text \<open>The implementation for \<open>WriterHalf\<close>.\<close>

definition WriterHalf_sender :: "WriterHalf sender_ops" where
  "WriterHalf_sender =
     \<lparr>send_publish = WriterHalf_publish, send_subscribe = WriterHalf_subscribe,
      send_unsubscribe = WriterHalf_unsubscribe, send_disconnect = WriterHalf_disconnect\<rparr>"

text \<open>A program over any sender: it performs operations and stops at the first error. A tick is no
  operation of the trait.\<close>

primrec send_op :: "'s sender_ops \<Rightarrow> crates \<Rightarrow> client_op \<Rightarrow> ('s, unit) st" where
  "send_op ops d (Op_Publish b) = send_publish ops d b"
| "send_op ops d (Op_Subscribe b) = send_subscribe ops d b"
| "send_op ops d (Op_Unsubscribe b) = send_unsubscribe ops d b"
| "send_op ops d Op_Disconnect = send_disconnect ops d"
| "send_op ops d Tick = st_mod (\<lambda>s. s)"

primrec send_all :: "'s sender_ops \<Rightarrow> crates \<Rightarrow> client_op list \<Rightarrow> ('s, unit) st" where
  "send_all ops d [] = st_mod (\<lambda>s. s)"
| "send_all ops d (x # xs) = st_then (send_op ops d x) (\<lambda>_. send_all ops d xs)"

section \<open>The contract\<close>

definition sends :: "crates \<Rightarrow> client_op \<Rightarrow> WriterHalf \<Rightarrow> unit res \<Rightarrow> WriterHalf \<Rightarrow> bool" where
  "sends d x w r w' \<longleftrightarrow> r \<noteq> Panic \<and>
     (r = Ok () \<longrightarrow> sent (w_inner w') = sent (w_inner w) @ op_packet d x \<and>
        sent_flag w' = (sets_flag x \<or> sent_flag w)) \<and>
     (\<forall>e. r = Err e \<longrightarrow> (\<exists>k. kind e = StdIo k) \<and> sent_flag w' = sent_flag w \<and>
        (\<exists>p. prefix p (op_packet d x) \<and> sent (w_inner w') = sent (w_inner w) @ p))"

locale sender =
  fixes ops :: "'s sender_ops"
    and half :: "'s \<Rightarrow> WriterHalf"
  assumes publish_sends: "crates_ok d \<Longrightarrow> publish_sendable b \<Longrightarrow> send_publish ops d b s = (r, s') \<Longrightarrow>
      sends d (Op_Publish b) (half s) r (half s')"
    and subscribe_sends: "crates_ok d \<Longrightarrow> subscribe_ok d sb \<Longrightarrow> send_subscribe ops d sb s = (r, s') \<Longrightarrow>
      sends d (Op_Subscribe sb) (half s) r (half s')"
    and unsubscribe_sends: "crates_ok d \<Longrightarrow> unsubscribe_ok d ub \<Longrightarrow> send_unsubscribe ops d ub s = (r, s') \<Longrightarrow>
      sends d (Op_Unsubscribe ub) (half s) r (half s')"
    and disconnect_sends: "crates_ok d \<Longrightarrow> send_disconnect ops d s = (r, s') \<Longrightarrow>
      sends d Op_Disconnect (half s) r (half s')"
begin

lemma send_op_sends:
  "crates_ok d \<Longrightarrow> op_ok d x \<Longrightarrow> x \<noteq> Tick \<Longrightarrow> send_op ops d x s = (r, s') \<Longrightarrow> sends d x (half s) r (half s')"
  by (cases x) (auto intro: publish_sends subscribe_sends unsubscribe_sends disconnect_sends)

text \<open>The operations before the first error went out whole, and of the one that failed a prefix.\<close>

lemma send_all_outcome:
  assumes "crates_ok d" "list_all (op_ok d) xs" "Tick \<notin> set xs" "send_all ops d xs s = (r, s')"
  shows "r \<noteq> Panic \<and> (\<exists>n p. n \<le> length xs \<and>
    sent (w_inner (half s')) = sent (w_inner (half s)) @ concat (map (op_packet d) (take n xs)) @ p \<and>
    sent_flag (half s') = (list_ex sets_flag (take n xs) \<or> sent_flag (half s)) \<and>
    (r = Ok () \<longrightarrow> n = length xs \<and> p = []) \<and>
    (\<forall>e. r = Err e \<longrightarrow> (\<exists>k. kind e = StdIo k) \<and> n < length xs \<and> prefix p (op_packet d (xs ! n))))"
  using assms(2-4)
proof (induction xs arbitrary: s)
  case Nil
  then show ?case by (auto simp: st_mod_def)
next
  case (Cons x xs)
  obtain r1 s1 where run: "send_op ops d x s = (r1, s1)" by fastforce
  with send_op_sends [OF assms(1)] Cons.prems have x: "sends d x (half s) r1 (half s1)" by auto
  show ?case
  proof (cases r1)
    case (Ok u)
    with run Cons.prems have rest: "send_all ops d xs s1 = (r, s')" by (simp add: st_then_def)
    have "list_all (op_ok d) xs" "Tick \<notin> set xs" using Cons.prems by auto
    from Cons.IH [OF this rest] obtain n p where n: "n \<le> length xs"
      "sent (w_inner (half s')) = sent (w_inner (half s1)) @ concat (map (op_packet d) (take n xs)) @ p"
      "sent_flag (half s') = (list_ex sets_flag (take n xs) \<or> sent_flag (half s1))"
      "r = Ok () \<longrightarrow> n = length xs \<and> p = []" "r \<noteq> Panic"
      "\<forall>e. r = Err e \<longrightarrow> (\<exists>k. kind e = StdIo k) \<and> n < length xs \<and> prefix p (op_packet d (xs ! n))" by blast
    with x Ok show ?thesis
      by (intro conjI exI [of _ "Suc n"] exI [of _ p]) (auto simp: sends_def)
  next
    case (Err e)
    with run Cons.prems have r: "r = Err e" "s' = s1" by (simp_all add: st_then_def)
    from x Err obtain p where "prefix p (op_packet d x)" "sent (w_inner (half s1)) = sent (w_inner (half s)) @ p"
      "sent_flag (half s1) = sent_flag (half s)" "\<exists>k. kind e = StdIo k" by (auto simp: sends_def)
    with r show ?thesis by (intro conjI exI [of _ 0] exI [of _ p]) auto
  next
    case Panic
    with x show ?thesis by (simp add: sends_def)
  qed
qed

end

section \<open>The implementations\<close>

lemma WriterHalf_op_sends:
  assumes "crates_ok d" "op_ok d x" "x \<noteq> Tick" "WriterHalf_op d x w = (r, w')"
  shows "sends d x w r w'"
proof -
  have "op_step d x fl = (op_packet d x, sets_flag x \<or> fl)" for fl using assms(3) by (cases x) auto
  with WriterHalf_op_outcome [OF assms(1,2,4)] show ?thesis by (simp add: sends_def)
qed

interpretation writer_half: sender WriterHalf_sender "\<lambda>w. w"
proof unfold_locales
  fix d b w r and w' :: WriterHalf
  assume "crates_ok d" "publish_sendable b" "send_publish WriterHalf_sender d b w = (r, w')"
  then show "sends d (Op_Publish b) w r w'" by (intro WriterHalf_op_sends) (simp_all add: WriterHalf_sender_def)
next
  fix d b w r and w' :: WriterHalf
  assume "crates_ok d" "subscribe_ok d b" "send_subscribe WriterHalf_sender d b w = (r, w')"
  then show "sends d (Op_Subscribe b) w r w'" by (intro WriterHalf_op_sends) (simp_all add: WriterHalf_sender_def)
next
  fix d b w r and w' :: WriterHalf
  assume "crates_ok d" "unsubscribe_ok d b" "send_unsubscribe WriterHalf_sender d b w = (r, w')"
  then show "sends d (Op_Unsubscribe b) w r w'" by (intro WriterHalf_op_sends) (simp_all add: WriterHalf_sender_def)
next
  fix d w r and w' :: WriterHalf
  assume "crates_ok d" "send_disconnect WriterHalf_sender d w = (r, w')"
  then show "sends d Op_Disconnect w r w'" by (intro WriterHalf_op_sends) (simp_all add: WriterHalf_sender_def)
qed

end
