(* ===== verification/Sync.thy ===== *)
theory Sync
  imports Connect_Packet Sync_Loop Sender
begin

text \<open>
  The connection of the synchronous client (\<open>Connection\<close> in \<open>src/sync.rs\<close>, l. 54-177, and the
  set-up of \<open>ReaderHalf\<close>, l. 296-374): opening it, the handshake, and the operations it passes on
  to its two halves.
\<close>

section \<open>The connection\<close>

text \<open>
  Setting a connection up asks the operating system for a socket, a timer and a poll. What it
  answers is the parameter \<open>os\<close>, one field per call and in the order of the calls; the
  attempts are those for the addresses the name resolves to.
\<close>

type_synonym 'a io = "io_error_kind + 'a"

record attempt =
  at_connect_timeout :: "writer io"
  at_set_nodelay :: "unit io"
  at_set_nonblocking :: "unit io"
  at_set_read_timeout :: "unit io"
  at_set_write_timeout :: "unit io"
  at_try_clone :: "socket io"

record os =
  os_to_socket_addrs :: "attempt list io"
  os_timerfd_create :: "unit io"
  os_timerfd_settime :: "unit io"
  os_poll_new :: "unit io"
  os_register_socket :: "unit io"
  os_register_timer :: "unit io"
  os_polls :: "poll_result list"

definition io_try :: "'a io \<Rightarrow> ('a, io_error_kind) result" where
  "io_try m = (case m of Inl k \<Rightarrow> Err k | Inr x \<Rightarrow> Ok x)"

definition io_context :: "string \<Rightarrow> ('a, io_error_kind) result \<Rightarrow> 'a res" where
  "io_context m = map_err (\<lambda>k. Error_new (StdIo k) m)"

definition connect_attempt :: "attempt \<Rightarrow> (writer \<times> socket, io_error_kind) result" where
  "connect_attempt a =
     and_then (io_try (at_connect_timeout a)) (\<lambda>writer.
     and_then (io_try (at_set_nodelay a)) (\<lambda>_.
     and_then (io_try (at_set_nonblocking a)) (\<lambda>_.
     and_then (io_try (at_set_read_timeout a)) (\<lambda>_.
     and_then (io_try (at_set_write_timeout a)) (\<lambda>_.
     and_then (io_try (at_try_clone a)) (\<lambda>reader.
     Ok (writer, reader)))))))"

text \<open>\<open>find(Result::is_ok).transpose()\<close>: the first attempt that succeeds; errors are dropped.\<close>

fun find_is_ok :: "attempt list \<Rightarrow> ((writer \<times> socket) option, io_error_kind) result" where
  "find_is_ok [] = Ok None"
| "find_is_ok (a # as) =
     (case connect_attempt a of
        Ok p \<Rightarrow> Ok (Some p)
      | Err _ \<Rightarrow> find_is_ok as
      | Panic \<Rightarrow> Panic)"

definition Connection_connect_socket :: "os \<Rightarrow> ((writer \<times> socket) option, io_error_kind) result" where
  "Connection_connect_socket os = and_then (io_try (os_to_socket_addrs os)) find_is_ok"

definition ReaderHalf_create_timer_fd :: "os \<Rightarrow> Duration \<Rightarrow> timer_fd res" where
  "ReaderHalf_create_timer_fd os interval =
     and_then (io_context ''while creating timer_fd'' (io_try (os_timerfd_create os))) (\<lambda>_.
     and_then (let secs = interval div nanos_per_sec in
               if secs < 2 ^ 63 then Ok secs else Err (Error_new OutOfRange ''interval seconds'')) (\<lambda>sec.
     and_then (io_context ''while setting interval time'' (io_try (os_timerfd_settime os))) (\<lambda>_.
     Ok \<lparr>tm_abstime = True, tm_interval_sec = sec, tm_value_sec = sec\<rparr>)))"

definition ReaderHalf_create :: "os \<Rightarrow> socket \<Rightarrow> WriterHalf \<Rightarrow> Duration \<Rightarrow> Connection res" where
  "ReaderHalf_create os reader writer timeout =
     and_then (expect (Reader_with_capacity reader (8 * 1024))) (\<lambda>inner.
     and_then (ReaderHalf_create_timer_fd os timeout) (\<lambda>timer_fd.
     and_then (io_context ''while creating polll'' (io_try (os_poll_new os))) (\<lambda>_.
     Ok \<lparr>cn_writer = writer, cn_reader = inner, cn_timer = timer_fd, cn_polls = os_polls os\<rparr>)))"

definition ReaderHalf_register :: "os \<Rightarrow> unit res" where
  "ReaderHalf_register os =
     and_then (io_context ''while registering socket'' (io_try (os_register_socket os))) (\<lambda>_.
     and_then (io_context ''while registering timer'' (io_try (os_register_timer os))) (\<lambda>_.
     Ok ()))"

definition Connection_create :: "os \<Rightarrow> Duration \<Rightarrow> Connection res" where
  "Connection_create os timeout =
     and_then (and_then (io_context ''while opening socket'' (Connection_connect_socket os))
                 (ok_or (Error_new Invalid ''socket addrs''))) (\<lambda>(writer, reader).
     let writer = \<lparr>sent_flag = False, w_inner = writer\<rparr> in
     and_then (ReaderHalf_create os reader writer timeout) (\<lambda>this.
     and_then (ReaderHalf_register os) (\<lambda>_.
     Ok this)))"

definition on_writer :: "(WriterHalf, 'a) st \<Rightarrow> (Connection, 'a) st" where
  "on_writer m this = (case m (cn_writer this) of (r, w) \<Rightarrow> (r, this\<lparr>cn_writer := w\<rparr>))"

definition Connection_connect :: "crates \<Rightarrow> ConnectBuilder \<Rightarrow> Connection \<Rightarrow> (ConnAck res \<times> Connection) option" where
  "Connection_connect d connect this =
     (case st_then (on_writer (on_inner (Connect_write_sync d connect))) (\<lambda>_.
           st_then (on_writer WriterHalf_flush) (\<lambda>_.
           on_writer (st_mod (\<lambda>w. w\<lparr>sent_flag := True\<rparr>)))) this of
        (Ok _, this) \<Rightarrow>
          map_option (\<lambda>(read, this). (and_then read (Decode_consume (ConnAck_parse d)), this))
            (ReaderHalf_poll_event d this)
      | (Err e, this) \<Rightarrow> Some (Err e, this)
      | (Panic, this) \<Rightarrow> Some (Panic, this))"

definition Connection_publish :: "crates \<Rightarrow> PublishBuilder \<Rightarrow> (Connection, unit) st" where
  "Connection_publish d publish = on_writer (WriterHalf_publish d publish)"

definition Connection_subscribe :: "crates \<Rightarrow> SubscribeBuilder \<Rightarrow> (Connection, unit) st" where
  "Connection_subscribe d subscribe = on_writer (WriterHalf_subscribe d subscribe)"

definition Connection_unsubscribe :: "crates \<Rightarrow> UnsubscribeBuilder \<Rightarrow> (Connection, unit) st" where
  "Connection_unsubscribe d unsubscribe = on_writer (WriterHalf_unsubscribe d unsubscribe)"

definition Connection_disconnect :: "crates \<Rightarrow> (Connection, unit) st" where
  "Connection_disconnect d = on_writer (WriterHalf_disconnect d)"

text \<open>The implementation of the trait \<open>Sender\<close> for \<open>Connection\<close>.\<close>

definition Connection_sender :: "Connection sender_ops" where
  "Connection_sender =
     \<lparr>send_publish = Connection_publish, send_subscribe = Connection_subscribe,
      send_unsubscribe = Connection_unsubscribe, send_disconnect = Connection_disconnect\<rparr>"

definition Connection_recv :: "crates \<Rightarrow> Connection \<Rightarrow> (Packet res \<times> Connection) option" where
  "Connection_recv d this = ReaderHalf_recv d this"

section \<open>Sending\<close>

lemma on_writerE:
  assumes "on_writer m c = (r, c')"
  obtains w where "m (cn_writer c) = (r, w)" "c' = c\<lparr>cn_writer := w\<rparr>"
  using assms by (auto simp: on_writer_def split: prod.splits)

lemmas Connection_ops = Connection_sender_def Connection_publish_def Connection_subscribe_def
  Connection_unsubscribe_def Connection_disconnect_def

lemma on_writer_sends:
  assumes "crates_ok d" "op_ok d x" "x \<noteq> Tick" "on_writer (WriterHalf_op d x) c = (r, c')"
  shows "sends d x (cn_writer c) r (cn_writer c')"
  using assms(4) by (rule on_writerE) (simp add: WriterHalf_op_sends [OF assms(1-3)])

interpretation connection: sender Connection_sender cn_writer
proof unfold_locales
  fix d b c r c'
  assume "crates_ok d" "publish_sendable b" "send_publish Connection_sender d b c = (r, c')"
  then show "sends d (Op_Publish b) (cn_writer c) r (cn_writer c')"
    by (intro on_writer_sends) (simp_all add: Connection_ops)
next
  fix d b c r c'
  assume "crates_ok d" "subscribe_ok d b" "send_subscribe Connection_sender d b c = (r, c')"
  then show "sends d (Op_Subscribe b) (cn_writer c) r (cn_writer c')"
    by (intro on_writer_sends) (simp_all add: Connection_ops)
next
  fix d b c r c'
  assume "crates_ok d" "unsubscribe_ok d b" "send_unsubscribe Connection_sender d b c = (r, c')"
  then show "sends d (Op_Unsubscribe b) (cn_writer c) r (cn_writer c')"
    by (intro on_writer_sends) (simp_all add: Connection_ops)
next
  fix d c r c'
  assume "crates_ok d" "send_disconnect Connection_sender d c = (r, c')"
  then show "sends d Op_Disconnect (cn_writer c) r (cn_writer c')"
    by (intro on_writer_sends) (simp_all add: Connection_ops)
qed

lemma ping_failure:
  assumes "crates_ok d" "WriterHalf_handle_ping d w = (r, w')"
  shows "r \<noteq> Panic \<and> (\<forall>e. r = Err e \<longrightarrow> (\<exists>k. kind e = StdIo k) \<and> sent_flag w' = sent_flag w \<and>
    (\<exists>p. prefix p (unit_packet PingReq) \<and> sent (w_inner w') = sent (w_inner w) @ p))"
proof (cases "sent_flag w")
  case True
  with assms(2) show ?thesis by (auto simp: Tick_flag [of _ d])
next
  case False
  with WriterHalf_op_outcome [OF assms(1), of Tick w r w'] assms(2) show ?thesis by auto
qed

section \<open>Setting up\<close>

lemma io_try_eqs [simp]: "io_try (Inl k) = Err k" "io_try (Inr x) = Ok x" "io_try m \<noteq> Panic"
  by (simp_all add: io_try_def split: sum.split)

lemma io_context_simps [simp]:
  "io_context m r = Ok x \<longleftrightarrow> r = Ok x" "io_context m r = Panic \<longleftrightarrow> r = Panic"
  by (cases r; simp add: io_context_def)+

lemma connect_attempt_no_Panic [simp]: "connect_attempt a \<noteq> Panic"
  by (simp add: connect_attempt_def and_then_Panic_iff)

lemma find_is_ok_no_Panic [simp]: "find_is_ok as \<noteq> Panic"
  by (induction "as" rule: find_is_ok.induct) (auto split: result.split)

lemma find_is_ok_first:
  "find_is_ok as = Ok (Some p) \<longleftrightarrow>
     (\<exists>i < length as. connect_attempt (as ! i) = Ok p \<and> (\<forall>j < i. \<exists>k. connect_attempt (as ! j) = Err k))"
proof (induction "as")
  case (Cons a "as")
  then show ?case by (cases "connect_attempt a") (auto simp: Ex_less_Suc2 All_less_Suc2)
qed simp

lemma Connection_create_no_Panic: "Connection_create os timeout \<noteq> Panic"
  by (auto simp: Connection_create_def Connection_connect_socket_def ReaderHalf_create_def
      ReaderHalf_create_timer_fd_def ReaderHalf_register_def Reader_with_capacity_def and_then_Panic_iff
      Let_def split: if_splits)

lemma Connection_create_Ok:
  assumes "Connection_create os timeout = Ok c"
  shows "\<exists>w s. Connection_connect_socket os = Ok (Some (w, s)) \<and>
    c = \<lparr>cn_writer = \<lparr>sent_flag = False, w_inner = w\<rparr>,
      cn_reader = \<lparr>rd_buf = replicate 8192 0, rd_pos = 0, rd_frame = None, rd_filled = 0, rd_inner = s\<rparr>,
      cn_timer = \<lparr>tm_abstime = True, tm_interval_sec = timeout div nanos_per_sec,
        tm_value_sec = timeout div nanos_per_sec\<rparr>,
      cn_polls = os_polls os\<rparr>"
  using assms
  by (auto simp: Connection_create_def ReaderHalf_create_def ReaderHalf_create_timer_fd_def
      Reader_with_capacity_def Let_def ok_or_Ok_iff split: if_splits)

lemma new_reader_ready:
  "reader_ready \<lparr>rd_buf = replicate 8192 0, rd_pos = 0, rd_frame = None, rd_filled = 0, rd_inner = s\<rparr>"
  by (simp add: reader_ready_def reader_inv_def usize_max_def)

section \<open>The handshake\<close>

text \<open>The client sends its CONNECT and takes the next packet, of whatever type, for the answer.\<close>

lemma connect_first_packet_run:
  assumes "crates_ok d" "Connection_create os timeout = Ok c" "faults (w_inner (cn_writer c)) = []"
    and "connect_sendable d b" "packet_ok p" "length (packet_bytes d p) \<le> 8192"
    and "rd_inner (cn_reader c) = Data (packet_bytes d p) # cs"
    and "os_polls os = Poll_Events [readable] # polls"
  shows "\<exists>r. Connection_connect d b c =
      Some (Decode_consume (ConnAck_parse d) (packet_bytes d p), c\<lparr>cn_reader := r, cn_polls := polls,
        cn_writer := \<lparr>sent_flag = True,
          w_inner = (w_inner (cn_writer c))\<lparr>sent := sent (w_inner (cn_writer c)) @ connect_packet d b\<rparr>\<rparr>\<rparr>) \<and>
    drained r \<and> rd_inner r = cs \<and> length (rd_buf r) = 8192"
proof -
  let ?w = "\<lparr>sent_flag = True,
    w_inner = (w_inner (cn_writer c))\<lparr>sent := sent (w_inner (cn_writer c)) @ connect_packet d b\<rparr>\<rparr>"
  from Connection_create_Ok [OF assms(2)] assms(8) obtain s where c:
    "cn_reader c = \<lparr>rd_buf = replicate 8192 0, rd_pos = 0, rd_frame = None, rd_filled = 0, rd_inner = s\<rparr>"
    "cn_polls c = Poll_Events [readable] # polls" by auto
  have send: "st_then (on_writer (on_inner (Connect_write_sync d b))) (\<lambda>_.
      st_then (on_writer WriterHalf_flush) (\<lambda>_. on_writer (st_mod (\<lambda>w. w\<lparr>sent_flag := True\<rparr>)))) c =
      (Ok (), c\<lparr>cn_writer := ?w\<rparr>)"
    using emits_run [OF Connect_write_sync_emits [OF assms(1,4)] assms(3)] assms(3)
    by (simp add: st_then_def on_writer_def on_inner_def WriterHalf_flush_def write_flush_def st_mod_def)
  have ready: "reader_ready (cn_reader c)" "rd_frame (cn_reader c) = None" "pending (cn_reader c) = []"
    "length (rd_buf (cn_reader c)) = 8192"
    using new_reader_ready [of s] c(1) by (simp_all add: pending_def)
  have nf: "FixedHeader_next_frame d (packet_bytes d p) = Ok (Some (length (packet_bytes d p)))"
    using packet_bytes_next_frame [OF assms(1,5), of "[]"] by simp
  from poll_whole_chunk [of "c\<lparr>cn_writer := ?w\<rparr>" "packet_bytes d p" cs d polls] ready assms(6,7) c(2) nf
  obtain r where "ReaderHalf_poll_event d (c\<lparr>cn_writer := ?w\<rparr>) =
      Some (Ok (packet_bytes d p), c\<lparr>cn_writer := ?w, cn_reader := r, cn_polls := polls\<rparr>)"
    "drained r" "rd_inner r = cs" "length (rd_buf r) = 8192" by auto
  with send show ?thesis by (intro exI [of _ r]) (simp add: Connection_connect_def)
qed

lemma connect_handshake_run:
  assumes "crates_ok d" "Connection_create os timeout = Ok c" "faults (w_inner (cn_writer c)) = []"
    and "connect_sendable d b" "rd_inner (cn_reader c) = Data (connack_packet d a) # cs"
    and "os_polls os = Poll_Events [readable] # polls"
  shows "\<exists>r. Connection_connect d b c = Some (Ok a, c\<lparr>cn_reader := r, cn_polls := polls,
      cn_writer := \<lparr>sent_flag = True,
        w_inner = (w_inner (cn_writer c))\<lparr>sent := sent (w_inner (cn_writer c)) @ connect_packet d b\<rparr>\<rparr>\<rparr>) \<and>
    drained r \<and> rd_inner r = cs \<and> length (rd_buf r) = 8192"
proof -
  have "length (connack_packet d a) \<le> 8192"
    by (simp add: connack_packet_def frame_header_short ConnAck_as_bytes_def)
  with connect_first_packet_run [OF assms(1-4), of "Send_ConnAck a" cs polls] assms(5,6)
    connack.consume_enc [OF assms(1), of a] show ?thesis by simp
qed

section \<open>Correctness\<close>

text \<open>C32: Opening a connection never panics. It uses the first address that can be connected and set up,
  starts with an empty buffer, a clear keep-alive record and the timer armed with the whole
  seconds of the connect timeout, which is what decides when the client pings: the keep alive of
  the CONNECT is not asked.\<close>

theorem connection_create_spec:
  "Connection_create os timeout \<noteq> Panic \<and>
   (Connection_create os timeout = Ok c \<longrightarrow>
     (\<exists>as i w s. os_to_socket_addrs os = Inr as \<and> i < length as \<and> connect_attempt (as ! i) = Ok (w, s) \<and>
        (\<forall>j < i. \<exists>k. connect_attempt (as ! j) = Err k) \<and>
        w_inner (cn_writer c) = w \<and> rd_inner (cn_reader c) = s) \<and>
     \<not> sent_flag (cn_writer c) \<and> drained (cn_reader c) \<and> length (rd_buf (cn_reader c)) = 8192 \<and>
     tm_interval_sec (cn_timer c) = timeout div nanos_per_sec \<and>
     tm_value_sec (cn_timer c) = timeout div nanos_per_sec)"
proof (intro conjI impI)
  assume ok: "Connection_create os timeout = Ok c"
  from Connection_create_Ok [OF ok] obtain w s where sock: "Connection_connect_socket os = Ok (Some (w, s))"
    and c: "c = \<lparr>cn_writer = \<lparr>sent_flag = False, w_inner = w\<rparr>,
      cn_reader = \<lparr>rd_buf = replicate 8192 0, rd_pos = 0, rd_frame = None, rd_filled = 0, rd_inner = s\<rparr>,
      cn_timer = \<lparr>tm_abstime = True, tm_interval_sec = timeout div nanos_per_sec,
        tm_value_sec = timeout div nanos_per_sec\<rparr>,
      cn_polls = os_polls os\<rparr>" by blast
  from sock obtain as' where as': "os_to_socket_addrs os = Inr as'" "find_is_ok as' = Ok (Some (w, s))"
    by (cases "os_to_socket_addrs os") (auto simp: Connection_connect_socket_def)
  with c show "\<exists>as i w s. os_to_socket_addrs os = Inr as \<and> i < length as \<and> connect_attempt (as ! i) = Ok (w, s) \<and>
        (\<forall>j < i. \<exists>k. connect_attempt (as ! j) = Err k) \<and>
        w_inner (cn_writer c) = w \<and> rd_inner (cn_reader c) = s"
    unfolding find_is_ok_first by auto
  show "drained (cn_reader c)" using c ready_drained [OF new_reader_ready] by (simp add: pending_def)
  show "\<not> sent_flag (cn_writer c)" "length (rd_buf (cn_reader c)) = 8192"
    "tm_interval_sec (cn_timer c) = timeout div nanos_per_sec"
    "tm_value_sec (cn_timer c) = timeout div nanos_per_sec" using c by simp_all
qed (rule Connection_create_no_Panic)

definition sample_attempt :: "socket \<Rightarrow> attempt" where
  "sample_attempt s =
     \<lparr>at_connect_timeout = Inr vec_writer, at_set_nodelay = Inr (), at_set_nonblocking = Inr (),
      at_set_read_timeout = Inr (), at_set_write_timeout = Inr (), at_try_clone = Inr s\<rparr>"

definition sample_os :: "socket \<Rightarrow> poll_result list \<Rightarrow> os" where
  "sample_os s polls =
     \<lparr>os_to_socket_addrs = Inr [(sample_attempt s)\<lparr>at_connect_timeout := Inl (OtherIo 111)\<rparr>, sample_attempt s],
      os_timerfd_create = Inr (), os_timerfd_settime = Inr (), os_poll_new = Inr (),
      os_register_socket = Inr (), os_register_timer = Inr (), os_polls = polls\<rparr>"

lemma sample_os_create:
  "\<exists>c. Connection_create (sample_os s polls) 10000000000 = Ok c \<and> w_inner (cn_writer c) = vec_writer \<and>
    rd_inner (cn_reader c) = s"
proof -
  have "Connection_connect_socket (sample_os s polls) = Ok (Some (vec_writer, s))"
    by (simp add: Connection_connect_socket_def sample_os_def sample_attempt_def connect_attempt_def)
  moreover have "Reader_with_capacity s 8192 =
      Some \<lparr>rd_buf = replicate 8192 0, rd_pos = 0, rd_frame = None, rd_filled = 0, rd_inner = s\<rparr>"
    by (simp add: Reader_with_capacity_def)
  ultimately show ?thesis
    by (simp add: Connection_create_def ReaderHalf_create_def ReaderHalf_create_timer_fd_def
        ReaderHalf_register_def io_context_def sample_os_def nanos_per_sec_def)
qed

theorem connection_create_spec_witness:
  "\<exists>c. Connection_create (sample_os [] []) 10000000000 = Ok c \<and> tm_interval_sec (cn_timer c) = 10"
proof -
  from sample_os_create obtain c where "Connection_create (sample_os [] []) 10000000000 = Ok c" by blast
  with connection_create_spec [of "sample_os [] []" 10000000000 c] show ?thesis
    by (auto simp: nanos_per_sec_def)
qed

text \<open>C12: A program that sends a sequence of packets over a connection and stops at the first error
  never panics. The operations before the error went out whole and in order; of the one that
  failed a prefix is out, which the peer cannot tell from the start of a packet, and the error is the one of the
  socket. The keep-alive record says exactly whether one of the operations that were completed
  counts as traffic. A ping that fails leaves the record unchanged.\<close>

theorem send_sequence:
  assumes "crates_ok d" "list_all (op_ok d) xs" "Tick \<notin> set xs"
    "send_all Connection_sender d xs c = (r, c')"
    "WriterHalf_handle_ping d (cn_writer c) = (rp, wp)"
  shows "(r \<noteq> Panic \<and> (\<exists>n p. n \<le> length xs \<and>
      sent (w_inner (cn_writer c')) =
        sent (w_inner (cn_writer c)) @ concat (map (op_packet d) (take n xs)) @ p \<and>
      sent_flag (cn_writer c') = (list_ex sets_flag (take n xs) \<or> sent_flag (cn_writer c)) \<and>
      (r = Ok () \<longrightarrow> n = length xs \<and> p = []) \<and>
      (\<forall>e. r = Err e \<longrightarrow> (\<exists>k. kind e = StdIo k) \<and> n < length xs \<and> prefix p (op_packet d (xs ! n))))) \<and>
    (rp \<noteq> Panic \<and> (\<forall>e. rp = Err e \<longrightarrow> (\<exists>k. kind e = StdIo k) \<and>
      sent_flag wp = sent_flag (cn_writer c) \<and>
      (\<exists>p. prefix p (unit_packet PingReq) \<and> sent (w_inner wp) = sent (w_inner (cn_writer c)) @ p)))"
  by (rule conjI [OF connection.send_all_outcome [OF assms(1-4)] ping_failure [OF assms(1,5)]])

theorem send_sequence_witness:
  "\<exists>n p. sent (w_inner (cn_writer (snd (send_all Connection_sender (std_crates True)
       [Op_Disconnect, Op_Disconnect] ((sample_connection (sample_reader []) [])\<lparr>cn_writer :=
         \<lparr>sent_flag = False, w_inner = vec_writer\<lparr>faults := [None, None, None, Some (1, OtherIo 32)]\<rparr>\<rparr>\<rparr>))))) =
     concat (map (op_packet (std_crates True)) (take n [Op_Disconnect, Op_Disconnect])) @ p \<and> n \<le> 2"
  using send_sequence [OF std_crates_ok _ _ surjective_pairing surjective_pairing,
    of True "[Op_Disconnect, Op_Disconnect]" "(sample_connection (sample_reader []) [])\<lparr>cn_writer :=
         \<lparr>sent_flag = False, w_inner = vec_writer\<lparr>faults := [None, None, None, Some (1, OtherIo 32)]\<rparr>\<rparr>\<rparr>"]
  by (auto simp: vec_writer_def)

end
