(* ===== verification/Sync_Stream.thy ===== *)
theory Sync_Stream
  imports Sync_Loop
begin

text \<open>
  Receiving from a non-blocking socket: the reads of one packet may would-block, and the event loop
  then goes on polling. The code loses bytes when that happens between the header and the end of a
  packet (\<open>reader_loses_partial_frame\<close>); this theory says what holds when it happens elsewhere: between packets,
  anywhere inside a header, or between a header and the rest of its packet. Timer events come in between.
\<close>

section \<open>Sockets that would-block at harmless places\<close>

text \<open>The socket has data, and would-blocks only after \<open>i\<close> further bytes with \<open>P i\<close>; it does not fail
  otherwise and does not end.\<close>

fun calm :: "(nat \<Rightarrow> bool) \<Rightarrow> socket \<Rightarrow> bool" where
  "calm P [] \<longleftrightarrow> True"
| "calm P (Data bs # cs) \<longleftrightarrow> bs \<noteq> [] \<and> calm (\<lambda>i. P (length bs + i)) cs"
| "calm P (Fail k # cs) \<longleftrightarrow> k = WouldBlock \<and> P 0 \<and> calm P cs"

definition gaps :: "socket \<Rightarrow> nat" where
  "gaps s = length (filter (\<lambda>c. case c of Fail _ \<Rightarrow> True | Data _ \<Rightarrow> False) s)"

text \<open>A gap after \<open>i\<close> bytes of these packets is harmless: it is between two packets, or the bytes
  before the last one that arrived do not hold a whole header yet.\<close>

fun gap_ok :: "crates \<Rightarrow> server_packet list \<Rightarrow> nat \<Rightarrow> bool" where
  "gap_ok d [] i \<longleftrightarrow> True"
| "gap_ok d (p # ps) i \<longleftrightarrow>
     (if i < length (packet_bytes d p)
      then i = 0 \<or> FixedHeader_next_frame d (take (i - 1) (packet_bytes d p)) = Ok None
      else gap_ok d ps (i - length (packet_bytes d p)))"

lemma gaps_simps [simp]:
  "gaps [] = 0" "gaps (Data bs # cs) = gaps cs" "gaps (Fail k # cs) = Suc (gaps cs)"
  by (simp_all add: gaps_def)

lemma avail_simps [simp]:
  "avail [] = []" "avail (Data bs # cs) = bs @ avail cs" "avail (Fail k # cs) = avail cs"
  by (simp_all add: avail_def)

lemma steady_calm: "steady s \<Longrightarrow> calm P s \<and> gaps s = 0"
  by (induction s arbitrary: P) (auto simp: steady_def split: chunk.splits)

lemma sock_read_calm:
  assumes "calm P s" "avail s \<noteq> []" "0 < n" "sock_read n s = (res, s')"
  shows "(\<exists>bs. res = Ok bs \<and> bs \<noteq> [] \<and> calm (\<lambda>i. P (length bs + i)) s' \<and> gaps s' = gaps s) \<or>
    res = Err WouldBlock \<and> calm P s' \<and> gaps s = Suc (gaps s') \<and> avail s' = avail s"
proof (cases s)
  case (Cons c cs)
  with assms show ?thesis
    by (cases c) (auto simp: sock_read_def min_def add.assoc [symmetric] split: if_splits)
qed (use assms in simp)

lemma read_exact_calm:
  "calm P s \<Longrightarrow> n \<le> length (avail s) \<Longrightarrow> \<forall>i < n. \<not> P i \<Longrightarrow>
   \<exists>got s'. read_exact n s = (Ok (), got, s') \<and> calm (\<lambda>i. P (n + i)) s' \<and> gaps s' = gaps s"
proof (induction n s arbitrary: P rule: read_exact.induct)
  case (1 n s)
  show ?case
  proof (cases "n = 0")
    case True
    with 1(3) show ?thesis by (simp add: read_exact_cases)
  next
    case False
    with 1(3-5) obtain bs cs where s: "s = Data bs # cs" "bs \<noteq> []" "calm (\<lambda>i. P (length bs + i)) cs"
      by (cases s rule: list.exhaust; cases "hd s") auto
    show ?thesis
    proof (cases "length bs \<le> n")
      case True
      with 1(4,5) s have "n - length bs \<le> length (avail cs)" "\<forall>i < n - length bs. \<not> P (length bs + i)" by auto
      from 1(1) [OF False s(1) refl s(2) True s(3) this] True s False show ?thesis
        by (auto simp: read_exact_cases add.assoc [symmetric])
    next
      case long: False
      with s False show ?thesis by (auto simp: read_exact_cases add.assoc [symmetric])
    qed
  qed
qed

lemma read_exact_gap:
  assumes "calm P s" "n \<le> length (avail s)" "\<forall>i. 0 < i \<and> i < n \<longrightarrow> \<not> P i" "0 < n"
  shows "(\<exists>got s'. read_exact n s = (Ok (), got, s') \<and> calm (\<lambda>i. P (n + i)) s' \<and> gaps s' = gaps s) \<or>
    (\<exists>s'. read_exact n s = (Err WouldBlock, [], s') \<and> calm P s' \<and> gaps s = Suc (gaps s') \<and> avail s' = avail s)"
proof (cases s)
  case (Cons c cs)
  show ?thesis
  proof (cases c)
    case (Data bs)
    let ?Q = "\<lambda>i. 0 < i \<and> P i"
    have "calm ?Q s" using assms(1) Cons Data by simp
    moreover have "\<forall>i < n. \<not> ?Q i" using assms(3) by auto
    ultimately show ?thesis using read_exact_calm [of ?Q s n] assms(2,4) by auto
  next
    case (Fail k)
    with assms Cons show ?thesis by (simp add: read_exact_cases)
  qed
qed (use assms in simp)

section \<open>One packet\<close>

text \<open>The offsets count from the start of what the reader has not handed out.\<close>

definition awaits :: "(nat \<Rightarrow> bool) \<Rightarrow> Reader \<Rightarrow> bool" where
  "awaits P r \<longleftrightarrow> calm (\<lambda>i. P (length (pending r) + i)) (rd_inner r)"

lemma next_frame_loop_calm:
  assumes "head_state r" "awaits P r" "FixedHeader_next_frame d (stream r) = Ok (Some n)"
  shows "\<exists>res r'. Reader_next_frame_loop d r = Some (res, r') \<and> stream r' = stream r \<and> awaits P r' \<and>
    head_result d res r' \<and> length (rd_buf r') = length (rd_buf r) \<and>
    (res = Ok n \<and> gaps (rd_inner r') = gaps (rd_inner r) \<or>
     res = Err (Error_new (StdIo WouldBlock) ''while reading'') \<and> gaps (rd_inner r) = Suc (gaps (rd_inner r')))"
  using assms
proof (induction "5 - rd_filled r" arbitrary: r rule: less_induct)
  case less
  note buff = Reader_buff_pending [OF head_state_inv [OF less.prems(1)]]
  from next_frame_prefix [of d "pending r" "avail (rd_inner r)" n] less.prems(3)
  consider (found) "FixedHeader_next_frame d (pending r) = Ok (Some n)"
    | (more) "FixedHeader_next_frame d (pending r) = Ok None" by (auto simp: stream_def)
  then show ?case
  proof cases
    case found
    with buff less.prems show ?thesis
      by (subst Reader_next_frame_loop.simps)
        (simp add: head_result_def head_state_def stream_def awaits_def)
  next
    case more
    then have "length (pending r) \<le> 4" by (simp add: FixedHeader_next_frame_None) auto
    then have f: "rd_filled r < 5"
      using length_pending [OF head_state_inv [OF less.prems(1)]] less.prems(1) by (simp add: head_state_def)
    obtain res s where read: "sock_read (5 - rd_filled r) (rd_inner r) = (res, s)" by fastforce
    have "avail (rd_inner r) \<noteq> []" using more less.prems(3) by (auto simp: stream_def)
    from sock_read_calm [OF less.prems(2) [unfolded awaits_def] this _ read] f
    consider (data) bs where "res = Ok bs" "bs \<noteq> []"
        "calm (\<lambda>i. P (length (pending r) + (length bs + i))) s" "gaps s = gaps (rd_inner r)"
      | (gap) "res = Err WouldBlock" "calm (\<lambda>i. P (length (pending r) + i)) s"
        "gaps (rd_inner r) = Suc (gaps s)" by auto
    then show ?thesis
    proof cases
      case data
      from head_fill [OF less.prems(1) f read [unfolded data(1)] data(2), of "debug_assertions d"] obtain r' where r':
        "Reader_fill_head (debug_assertions d) r = (Ok (), r')" "head_state r'" "stream r' = stream r"
        "rd_inner r' = s" "length (rd_buf r') = length (rd_buf r)" "rd_filled r < rd_filled r'" by blast
      have "pending r' @ avail s = pending r @ bs @ avail s"
        using r'(3,4) sock_read_avail(1) [OF read [unfolded data(1)]] by (simp add: stream_def)
      then have "pending r' = pending r @ bs" by simp
      with data(3) r'(4) have "awaits P r'" by (simp add: awaits_def add.assoc)
      moreover from r'(6) f have "5 - rd_filled r' < 5 - rd_filled r" by linarith
      ultimately show ?thesis
        using less.hyps [of r'] r' data(4) less.prems(3) more buff
        by (subst Reader_next_frame_loop.simps) simp
    next
      case gap
      from fill_head_eq [of r _ s "debug_assertions d"] less.prems(1) f read gap(1)
      have "Reader_fill_head (debug_assertions d) r =
          (Err (Error_new (StdIo WouldBlock) ''while reading''), r\<lparr>rd_inner := s\<rparr>)"
        by (simp add: head_state_def)
      moreover have "stream (r\<lparr>rd_inner := s\<rparr>) = stream r"
        using sock_read_avail(2) [OF read [unfolded gap(1)]] by (simp add: stream_def pending_def)
      ultimately show ?thesis
        using more buff gap(2,3) f less.prems(1)
        by (subst Reader_next_frame_loop.simps)
          (auto simp: awaits_def head_result_def head_state_def pending_def)
    qed
  qed
qed

lemma Reader_read_frame_calm:
  assumes "reader_inv r" "rd_frame r = Some n" "awaits P r" "n \<le> length (stream r)" "n \<le> length (rd_buf r)"
    and "\<forall>i. length (pending r) < i \<and> i < n \<longrightarrow> \<not> P i"
  shows "\<exists>res r'. Reader_read_frame n r = (res, r') \<and> awaits P r' \<and> stream r' = stream r \<and>
    ((\<exists>bs. res = Ok bs) \<and> gaps (rd_inner r') = gaps (rd_inner r) \<or>
     res = Err (Error_new (StdIo WouldBlock) ''while reading'') \<and> pending r' = pending r \<and>
     gaps (rd_inner r) = Suc (gaps (rd_inner r')))"
proof (cases "rd_filled r < n")
  case True
  from assms(1,2) have r: "rd_pos r = 0" "rd_filled r \<le> length (rd_buf r)" by (simp_all add: reader_inv_def)
  have len: "length (pending r) = rd_filled r" using length_pending [OF assms(1)] r(1) by simp
  let ?k = "n - rd_filled r"
  obtain res r' where rf: "Reader_read_frame n r = (res, r')" by fastforce
  note tot = Reader_read_frame_total [OF assms(1,2) rf]
  have "?k \<le> length (avail (rd_inner r))" using assms(4) len by (simp add: stream_def)
  moreover have "\<forall>i. 0 < i \<and> i < ?k \<longrightarrow> \<not> P (length (pending r) + i)" using assms(6) len by auto
  ultimately consider (ok) got s where "read_exact ?k (rd_inner r) = (Ok (), got, s)"
      "calm (\<lambda>i. P (length (pending r) + (?k + i))) s" "gaps s = gaps (rd_inner r)"
    | (gap) s where "read_exact ?k (rd_inner r) = (Err WouldBlock, [], s)"
      "calm (\<lambda>i. P (length (pending r) + i)) s" "gaps (rd_inner r) = Suc (gaps s)" "avail s = avail (rd_inner r)"
    using read_exact_gap [OF assms(3) [unfolded awaits_def], of ?k] True by auto
  then show ?thesis
  proof cases
    case ok
    have rr: "rd_inner r' = s" "\<exists>x. res = Reader_buff x" "rd_filled r' = n"
      using rf True ok(1) assms(5) by (auto simp: Reader_read_frame_def Let_def)
    with tot(1) obtain bs where bs: "res = Ok bs" by (auto simp: Reader_buff_def)
    have "length (pending r') = n"
      using length_pending [OF tot(2)] tot(2,3) rr(3) by (simp add: reader_inv_def)
    then have "awaits P r'" using ok(2) rr(1) len True by (simp add: awaits_def add.assoc [symmetric])
    with tot(5) [OF bs] bs rr(1) ok(3) rf show ?thesis by simp
  next
    case gap
    with True assms(5) rf have "res = Err (Error_new (StdIo WouldBlock) ''while reading'')" "r' = r\<lparr>rd_inner := s\<rparr>"
      by (simp_all add: Reader_read_frame_def)
    with gap rf show ?thesis by (simp add: awaits_def stream_def pending_def)
  qed
next
  case False
  with assms Reader_buff_pending [OF assms(1)] show ?thesis by (simp add: Reader_read_frame_def)
qed

text \<open>A reader that waits for the packet \<open>pkt\<close>: what it holds is a prefix of it, and what comes is the
  rest, with gaps only where they are harmless.\<close>

definition waits_for :: "crates \<Rightarrow> (nat \<Rightarrow> bool) \<Rightarrow> bytes \<Rightarrow> bytes \<Rightarrow> Reader \<Rightarrow> bool" where
  "waits_for d P pkt rest r \<longleftrightarrow>
     reader_ready r \<and> stream r = pkt @ rest \<and> awaits P r \<and> length pkt \<le> length (rd_buf r) \<and>
     (rd_frame r = None \<or>
      rd_frame r = Some (length pkt) \<and> FixedHeader_next_frame d (pending r) = Ok (Some (length pkt)))"

definition handed_out :: "(nat \<Rightarrow> bool) \<Rightarrow> bytes \<Rightarrow> bytes \<Rightarrow> Reader \<Rightarrow> bool" where
  "handed_out P pkt rest r \<longleftrightarrow>
     reader_inv r \<and> rd_frame r = Some (length pkt) \<and> stream r = pkt @ rest \<and> awaits P r \<and>
     (\<exists>extra. pending r = pkt @ extra \<and> length extra \<le> 5 - length pkt)"

lemma no_gap_in_body:
  assumes "\<forall>i. P i \<and> 0 < i \<and> i < length pkt \<longrightarrow> FixedHeader_next_frame d (take (i - 1) pkt) = Ok None"
    and "FixedHeader_next_frame d h = Ok (Some n)" "h @ t = pkt @ rest"
  shows "\<forall>i. length h < i \<and> i < length pkt \<longrightarrow> \<not> P i"
proof (intro allI impI notI)
  fix i assume i: "length h < i \<and> i < length pkt" and "P i"
  with assms(1) have none: "FixedHeader_next_frame d (take (i - 1) pkt) = Ok None" by auto
  have "take (i - 1) pkt = take (i - 1) (h @ t)" using i assms(3) by simp
  moreover have "length h \<le> i - 1" using i by linarith
  then have "take (i - 1) (h @ t) = h @ take (i - 1 - length h) t" by simp
  ultimately show False using none next_frame_append [OF assms(2), of "take (i - 1 - length h) t"] by simp
qed

lemma read_frame_waits:
  assumes "reader_inv r" "rd_frame r = Some (length pkt)" "awaits P r" "stream r = pkt @ rest"
    and "length pkt \<le> length (rd_buf r)" "FixedHeader_next_frame d (pending r) = Ok (Some (length pkt))"
    and P: "\<forall>i. P i \<and> 0 < i \<and> i < length pkt \<longrightarrow> FixedHeader_next_frame d (take (i - 1) pkt) = Ok None"
  shows "\<exists>res r'. Reader_read_frame (length pkt) r = (res, r') \<and> length (rd_buf r') = length (rd_buf r) \<and>
    ((\<exists>bs. res = Ok bs) \<and> handed_out P pkt rest r' \<and> gaps (rd_inner r') = gaps (rd_inner r) \<or>
     res = Err (Error_new (StdIo WouldBlock) ''while reading'') \<and> waits_for d P pkt rest r' \<and>
     gaps (rd_inner r) = Suc (gaps (rd_inner r')))"
proof -
  have "pending r @ avail (rd_inner r) = pkt @ rest" using assms(4) by (simp add: stream_def)
  note body = no_gap_in_body [OF P assms(6) this]
  have "length pkt \<le> length (stream r)" using assms(4) by simp
  from Reader_read_frame_calm [OF assms(1-3) this assms(5) body] obtain res r' where
    rf: "Reader_read_frame (length pkt) r = (res, r')" "awaits P r'" "stream r' = stream r"
    and alt: "(\<exists>bs. res = Ok bs) \<and> gaps (rd_inner r') = gaps (rd_inner r) \<or>
     res = Err (Error_new (StdIo WouldBlock) ''while reading'') \<and> pending r' = pending r \<and>
     gaps (rd_inner r) = Suc (gaps (rd_inner r'))" by blast
  note tot = Reader_read_frame_total [OF assms(1,2) rf(1)]
  from alt show ?thesis
  proof (elim disjE conjE exE)
    fix bs assume bs: "res = Ok bs" "gaps (rd_inner r') = gaps (rd_inner r)"
    from tot(5) [OF bs(1)] have p: "pending r' = bs" "length pkt \<le> length bs" "length bs \<le> max 5 (length pkt)"
      by simp_all
    have "bs @ avail (rd_inner r') = pkt @ rest" using p(1) rf(3) assms(4) unfolding stream_def by simp
    with p(2) obtain extra where "bs = pkt @ extra" by (auto simp: append_eq_append_conv2)
    with p have "\<exists>extra. pending r' = pkt @ extra \<and> length extra \<le> 5 - length pkt" by auto
    then show ?thesis using rf tot(2-4) bs assms(4) by (simp add: handed_out_def)
  qed (use rf tot(2-4) assms(4-6) in \<open>simp add: waits_for_def reader_ready_def\<close>)
qed

lemma read_waits:
  assumes "waits_for d P pkt rest r" "FixedHeader_next_frame d pkt = Ok (Some (length pkt))"
    and P: "\<forall>i. P i \<and> 0 < i \<and> i < length pkt \<longrightarrow> FixedHeader_next_frame d (take (i - 1) pkt) = Ok None"
  shows "\<exists>res r'. Reader_read d r = Some (res, r') \<and> length (rd_buf r') = length (rd_buf r) \<and>
    ((\<exists>bs. res = Ok bs) \<and> handed_out P pkt rest r' \<and> gaps (rd_inner r') = gaps (rd_inner r) \<or>
     res = Err (Error_new (StdIo WouldBlock) ''while reading'') \<and> waits_for d P pkt rest r' \<and>
     gaps (rd_inner r) = Suc (gaps (rd_inner r')))"
proof (cases "rd_frame r")
  case (Some n)
  with assms(1) have r: "reader_inv r" "rd_frame r = Some (length pkt)" "awaits P r" "stream r = pkt @ rest"
    "length pkt \<le> length (rd_buf r)" "FixedHeader_next_frame d (pending r) = Ok (Some (length pkt))"
    by (auto simp: waits_for_def reader_ready_def)
  from read_frame_waits [OF r P] r(2) show ?thesis by (simp add: Reader_read_def)
next
  case None
  from assms(1) have r: "reader_ready r" "awaits P r" "stream r = pkt @ rest" "length pkt \<le> length (rd_buf r)"
    by (simp_all add: waits_for_def)
  from Reader_next_frame_start [OF r(1) None, of d] obtain r1 where r1:
    "Reader_next_frame d r = Reader_next_frame_loop d r1" "head_state r1" "stream r1 = stream r"
    "rd_inner r1 = rd_inner r" "length (rd_buf r1) = length (rd_buf r)" by blast
  have "pending r1 = pending r" using r1(3,4) by (simp add: stream_def)
  with r(2) r1(4) have a: "awaits P r1" by (simp add: awaits_def)
  have nf: "FixedHeader_next_frame d (stream r1) = Ok (Some (length pkt))"
    unfolding r1(3) r(3) by (rule next_frame_append [OF assms(2)])
  from next_frame_loop_calm [OF r1(2) a nf] obtain res r2 where r2:
    "Reader_next_frame_loop d r1 = Some (res, r2)" "stream r2 = stream r1" "awaits P r2" "head_result d res r2"
    "length (rd_buf r2) = length (rd_buf r1)" and
    alt: "res = Ok (length pkt) \<and> gaps (rd_inner r2) = gaps (rd_inner r1) \<or>
     res = Err (Error_new (StdIo WouldBlock) ''while reading'') \<and> gaps (rd_inner r1) = Suc (gaps (rd_inner r2))"
    by blast
  from alt show ?thesis
  proof (elim disjE conjE)
    assume ok: "res = Ok (length pkt)" "gaps (rd_inner r2) = gaps (rd_inner r1)"
    note inv = head_result_Ok_inv [OF r2(4) [unfolded ok(1)]]
    have "stream r2 = pkt @ rest" "length pkt \<le> length (rd_buf r2)"
      "FixedHeader_next_frame d (pending r2) = Ok (Some (length pkt))"
      using r2 r1 r ok(1) by (simp_all add: head_result_def)
    from read_frame_waits [OF inv(1,2) r2(3) this P] None r1 r2 ok show ?thesis by (simp add: Reader_read_def)
  next
    assume gap: "res = Err (Error_new (StdIo WouldBlock) ''while reading'')"
      "gaps (rd_inner r1) = Suc (gaps (rd_inner r2))"
    have "FixedHeader_next_frame d (stream r2) = Ok (Some (length pkt))" using nf r2(2) by simp
    from head_result_Err [OF r2(4) [unfolded gap(1)] this] None r1 r2 gap r show ?thesis
      by (simp add: Reader_read_def waits_for_def)
  qed
qed

section \<open>The event loop\<close>

abbreviation ticking :: event where
  "ticking \<equiv> \<lparr>ev_token = 1, ev_timer_read = Some 8\<rparr>"

text \<open>A poll that reports only the socket and the timer, in any order and number; and one that
  reports the socket.\<close>

definition regular :: "poll_result \<Rightarrow> bool" where
  "regular p \<longleftrightarrow>
     (case p of Poll_Err _ \<Rightarrow> False | Poll_Events es \<Rightarrow> list_all (\<lambda>e. e = readable \<or> e = ticking) es)"

definition reports :: "poll_result \<Rightarrow> bool" where
  "reports p \<longleftrightarrow> (case p of Poll_Err _ \<Rightarrow> False | Poll_Events es \<Rightarrow> readable \<in> set es)"

lemma events_waits:
  assumes "crates_ok d" "FixedHeader_next_frame d pkt = Ok (Some (length pkt))"
    and P: "\<forall>i. P i \<and> 0 < i \<and> i < length pkt \<longrightarrow> FixedHeader_next_frame d (take (i - 1) pkt) = Ok None"
    and "list_all (\<lambda>e. e = readable \<or> e = ticking) es" "waits_for d P pkt rest (cn_reader c)"
    and "faults (w_inner (cn_writer c)) = []"
  shows "\<exists>x c'. ReaderHalf_events d es c = Some (x, c') \<and> faults (w_inner (cn_writer c')) = [] \<and>
    cn_polls c' = cn_polls c \<and> length (rd_buf (cn_reader c')) = length (rd_buf (cn_reader c)) \<and>
    (x = Break_loop \<and> handed_out P pkt rest (cn_reader c') \<and>
       gaps (rd_inner (cn_reader c')) \<le> gaps (rd_inner (cn_reader c)) \<or>
     x = Go_on \<and> waits_for d P pkt rest (cn_reader c') \<and>
       gaps (rd_inner (cn_reader c')) + (if readable \<in> set es then 1 else 0) \<le> gaps (rd_inner (cn_reader c)))"
  using assms(4-)
proof (induction es arbitrary: c)
  case (Cons e es)
  show ?case
  proof (cases "e = readable")
    case True
    from read_waits [OF Cons.prems(2) assms(2) P] obtain res r where r:
      "Reader_read d (cn_reader c) = Some (res, r)" "length (rd_buf r) = length (rd_buf (cn_reader c))"
      and alt: "(\<exists>bs. res = Ok bs) \<and> handed_out P pkt rest r \<and> gaps (rd_inner r) = gaps (rd_inner (cn_reader c)) \<or>
        res = Err (Error_new (StdIo WouldBlock) ''while reading'') \<and> waits_for d P pkt rest r \<and>
        gaps (rd_inner (cn_reader c)) = Suc (gaps (rd_inner r))" by blast
    from alt show ?thesis
    proof (elim disjE conjE exE)
      fix bs assume "res = Ok bs" "handed_out P pkt rest r" "gaps (rd_inner r) = gaps (rd_inner (cn_reader c))"
      with True r Cons.prems(3) show ?thesis by (simp add: READER_token_def)
    next
      assume gap: "res = Err (Error_new (StdIo WouldBlock) ''while reading'')" "waits_for d P pkt rest r"
        "gaps (rd_inner (cn_reader c)) = Suc (gaps (rd_inner r))"
      have "would_block (Error_new (StdIo WouldBlock) ''while reading'')"
        by (simp add: would_block_def Error_new_def)
      with gap True r Cons.prems Cons.IH [of "c\<lparr>cn_reader := r\<rparr>"] show ?thesis
        by (auto simp: READER_token_def)
    qed
  next
    case False
    with Cons.prems(1) have e: "e = ticking" by simp
    from WriterHalf_op_run [OF assms(1) _ Cons.prems(3), of Tick] obtain w where
      w: "WriterHalf_handle_ping d (cn_writer c) = (Ok (), w)" "faults (w_inner w) = []"
      using Cons.prems(3) by simp
    from Cons.IH [of "c\<lparr>cn_writer := w\<rparr>"] Cons.prems w e show ?thesis
      by (auto simp: READER_token_def TIMER_token_def)
  qed
qed simp

lemma poll_waits:
  assumes "crates_ok d" "FixedHeader_next_frame d pkt = Ok (Some (length pkt))"
    and P: "\<forall>i. P i \<and> 0 < i \<and> i < length pkt \<longrightarrow> FixedHeader_next_frame d (take (i - 1) pkt) = Ok None"
    and "list_all regular qs" "waits_for d P pkt rest (cn_reader c)" "faults (w_inner (cn_writer c)) = []"
    and "gaps (rd_inner (cn_reader c)) < length (filter reports qs)"
  shows "\<exists>c' qs'. ReaderHalf_poll_loop d (qs @ polls) c = Some (Ok (pending (cn_reader c')), c') \<and>
    faults (w_inner (cn_writer c')) = [] \<and> cn_polls c' = qs' @ polls \<and> suffix qs' qs \<and>
    length (rd_buf (cn_reader c')) = length (rd_buf (cn_reader c)) \<and> handed_out P pkt rest (cn_reader c') \<and>
    length (filter reports qs) + gaps (rd_inner (cn_reader c')) \<le>
      Suc (length (filter reports qs') + gaps (rd_inner (cn_reader c)))"
  using assms(4-)
proof (induction qs arbitrary: c)
  case (Cons q qs)
  then obtain es where q: "q = Poll_Events es" "list_all (\<lambda>e. e = readable \<or> e = ticking) es"
    by (auto simp: regular_def split: poll_result.splits)
  have rep: "reports q \<longleftrightarrow> readable \<in> set es" by (simp add: reports_def q(1))
  let ?c = "c\<lparr>cn_polls := qs @ polls\<rparr>"
  from events_waits [OF assms(1,2) P q(2), of rest ?c] Cons.prems(2,3) obtain x c1 where c1:
    "ReaderHalf_events d es ?c = Some (x, c1)" "faults (w_inner (cn_writer c1)) = []" "cn_polls c1 = qs @ polls"
    "length (rd_buf (cn_reader c1)) = length (rd_buf (cn_reader c))"
    and alt: "x = Break_loop \<and> handed_out P pkt rest (cn_reader c1) \<and>
       gaps (rd_inner (cn_reader c1)) \<le> gaps (rd_inner (cn_reader c)) \<or>
     x = Go_on \<and> waits_for d P pkt rest (cn_reader c1) \<and>
       gaps (rd_inner (cn_reader c1)) + (if readable \<in> set es then 1 else 0) \<le> gaps (rd_inner (cn_reader c))"
    by auto
  from alt show ?case
  proof (elim disjE conjE)
    assume x: "x = Break_loop" "handed_out P pkt rest (cn_reader c1)"
      "gaps (rd_inner (cn_reader c1)) \<le> gaps (rd_inner (cn_reader c))"
    then have "Reader_buff (cn_reader c1) = Ok (pending (cn_reader c1))"
      by (simp add: Reader_buff_pending handed_out_def)
    with q c1 x show ?thesis
      by (intro exI [of _ c1] exI [of _ qs]) (auto simp: suffix_ConsI)
  next
    assume x: "x = Go_on" "waits_for d P pkt rest (cn_reader c1)"
      "gaps (rd_inner (cn_reader c1)) + (if readable \<in> set es then 1 else 0) \<le> gaps (rd_inner (cn_reader c))"
    then have "gaps (rd_inner (cn_reader c1)) < length (filter reports qs)"
      using Cons.prems(4) by (auto simp: rep split: if_splits)
    from Cons.IH [OF _ x(2) c1(2) this] Cons.prems(1) obtain c' qs' where c':
      "ReaderHalf_poll_loop d (qs @ polls) c1 = Some (Ok (pending (cn_reader c')), c')"
      "faults (w_inner (cn_writer c')) = []" "cn_polls c' = qs' @ polls" "suffix qs' qs"
      "length (rd_buf (cn_reader c')) = length (rd_buf (cn_reader c1))" "handed_out P pkt rest (cn_reader c')"
      "length (filter reports qs) + gaps (rd_inner (cn_reader c')) \<le>
        Suc (length (filter reports qs') + gaps (rd_inner (cn_reader c1)))" by auto
    moreover have "length (filter reports (q # qs)) + gaps (rd_inner (cn_reader c')) \<le>
        Suc (length (filter reports qs') + gaps (rd_inner (cn_reader c)))"
      using c'(7) x(3) by (auto simp: rep split: if_splits)
    moreover have "ReaderHalf_poll_loop d ((q # qs) @ polls) c = Some (Ok (pending (cn_reader c')), c')"
      using c'(1) c1(1) x(1) q(1) by simp
    ultimately show ?thesis using c1(4) by (intro exI [of _ c'] exI [of _ qs']) (simp add: suffix_ConsI)
  qed
qed simp

section \<open>Runs of \<open>recv\<close>\<close>

text \<open>The bytes a reader holds between two calls of \<open>recv\<close>, once the frame in hand is consumed.\<close>

definition kept :: "Reader \<Rightarrow> bytes" where
  "kept r = (case rd_frame r of None \<Rightarrow> pending r | Some n \<Rightarrow> drop n (pending r))"

definition usable :: "Reader \<Rightarrow> bool" where
  "usable r \<longleftrightarrow> reader_inv r \<and> (rd_frame r = None \<longrightarrow> reader_ready r)"

lemma undelivered_kept: "undelivered r = kept r @ avail (rd_inner r)"
  by (simp add: undelivered_def kept_def)

lemma recv_waits:
  assumes "crates_ok d" "packet_ok p" "usable (cn_reader c)"
    and "undelivered (cn_reader c) = packet_bytes d p @ rest"
    and "5 \<le> length (packet_bytes d p)" "length (packet_bytes d p) \<le> length (rd_buf (cn_reader c))"
    and "calm (\<lambda>i. gap_ok d (p # ps) (length (kept (cn_reader c)) + i)) (rd_inner (cn_reader c))"
    and "cn_polls c = qs @ polls" "list_all regular qs" "faults (w_inner (cn_writer c)) = []"
    and "gaps (rd_inner (cn_reader c)) < length (filter reports qs)"
  shows "\<exists>c' qs'. ReaderHalf_recv d c = Some (Ok (packet_view p), c') \<and> usable (cn_reader c') \<and>
    undelivered (cn_reader c') = rest \<and> length (rd_buf (cn_reader c')) = length (rd_buf (cn_reader c)) \<and>
    calm (\<lambda>i. gap_ok d ps (length (kept (cn_reader c')) + i)) (rd_inner (cn_reader c')) \<and>
    cn_polls c' = qs' @ polls \<and> suffix qs' qs \<and> faults (w_inner (cn_writer c')) = [] \<and>
    length (filter reports qs) + gaps (rd_inner (cn_reader c')) \<le>
      Suc (length (filter reports qs') + gaps (rd_inner (cn_reader c)))"
proof -
  let ?pkt = "packet_bytes d p" and ?P = "gap_ok d (p # ps)"
  have inv: "reader_inv (cn_reader c)" "rd_filled (cn_reader c) \<le> length (rd_buf (cn_reader c))"
    using assms(3) by (simp_all add: usable_def reader_inv_def)
  from Reader_consume_total [OF inv, of "debug_assertions d"] obtain r1 where r1:
    "Reader_consume (debug_assertions d) (cn_reader c) = (Ok (), r1)" "rd_frame r1 = None"
    "rd_inner r1 = rd_inner (cn_reader c)" "rd_buf r1 = rd_buf (cn_reader c)" "pending r1 = kept (cn_reader c)"
    "rd_frame (cn_reader c) \<noteq> None \<longrightarrow> reader_ready r1" unfolding kept_def by blast
  have "reader_ready r1"
    using r1(1,6) assms(3) by (cases "rd_frame (cn_reader c)") (simp_all add: Reader_consume_def usable_def)
  with r1 assms(4,6,7) have w: "waits_for d ?P ?pkt rest r1"
    by (simp add: waits_for_def stream_def undelivered_kept awaits_def)
  have nf: "FixedHeader_next_frame d ?pkt = Ok (Some (length ?pkt))"
    using packet_bytes_next_frame [OF assms(1,2), of "[]"] by simp
  have P: "\<forall>i. ?P i \<and> 0 < i \<and> i < length ?pkt \<longrightarrow> FixedHeader_next_frame d (take (i - 1) ?pkt) = Ok None" by auto
  from poll_waits [OF assms(1) nf P assms(9), of rest "c\<lparr>cn_reader := r1\<rparr>" polls] w assms(10,11) r1(3)
  obtain c' qs' where c': "ReaderHalf_poll_loop d (qs @ polls) (c\<lparr>cn_reader := r1\<rparr>) =
      Some (Ok (pending (cn_reader c')), c')" "faults (w_inner (cn_writer c')) = []" "cn_polls c' = qs' @ polls"
    "suffix qs' qs" "length (rd_buf (cn_reader c')) = length (rd_buf r1)" "handed_out ?P ?pkt rest (cn_reader c')"
    "length (filter reports qs) + gaps (rd_inner (cn_reader c')) \<le>
      Suc (length (filter reports qs') + gaps (rd_inner (cn_reader c)))" by (auto simp del: gap_ok.simps)
  from c'(6) assms(5) have h: "pending (cn_reader c') = ?pkt" "rd_frame (cn_reader c') = Some (length ?pkt)"
    "reader_inv (cn_reader c')" "stream (cn_reader c') = ?pkt @ rest" "awaits ?P (cn_reader c')"
    by (auto simp: handed_out_def)
  have "ReaderHalf_recv d c = Some (Ok (packet_view p), c')"
    using r1(1) c'(1) h(1) assms(8) packet.consume_enc [OF assms(1,2)]
    by (simp add: ReaderHalf_recv_def ReaderHalf_poll_event_def)
  moreover have "kept (cn_reader c') = []" using h(1,2) by (simp add: kept_def)
  ultimately show ?thesis
    using h c' r1(4) by (intro exI [of _ c'] exI [of _ qs'])
      (simp add: usable_def undelivered_kept stream_def awaits_def)
qed

lemma recv_all_waits:
  assumes "crates_ok d" "list_all packet_ok ps" "usable (cn_reader c)"
    and "undelivered (cn_reader c) = concat (map (packet_bytes d) ps) @ rest"
    and "list_all (\<lambda>p. 5 \<le> length (packet_bytes d p) \<and>
           length (packet_bytes d p) \<le> length (rd_buf (cn_reader c))) ps"
    and "calm (\<lambda>i. gap_ok d ps (length (kept (cn_reader c)) + i)) (rd_inner (cn_reader c))"
    and "cn_polls c = qs @ polls" "list_all regular qs" "faults (w_inner (cn_writer c)) = []"
    and "length ps + gaps (rd_inner (cn_reader c)) \<le> length (filter reports qs)"
  shows "\<exists>c'. recv_all d (length ps) c = Some (map packet_view ps, None, c') \<and> usable (cn_reader c') \<and>
    undelivered (cn_reader c') = rest \<and> suffix polls (cn_polls c')"
  using assms(2-)
proof (induction ps arbitrary: c qs)
  case Nil
  then show ?case by (intro exI [of _ c]) (simp add: suffix_def)
next
  case (Cons p ps)
  from Cons.prems have "gaps (rd_inner (cn_reader c)) < length (filter reports qs)" by simp
  from recv_waits [OF assms(1) _ Cons.prems(2) _ _ _ Cons.prems(5-8) this,
      of "concat (map (packet_bytes d) ps) @ rest"] Cons.prems(1,3,4)
  obtain c1 qs1 where c1: "ReaderHalf_recv d c = Some (Ok (packet_view p), c1)" "usable (cn_reader c1)"
    "undelivered (cn_reader c1) = concat (map (packet_bytes d) ps) @ rest"
    "length (rd_buf (cn_reader c1)) = length (rd_buf (cn_reader c))"
    "calm (\<lambda>i. gap_ok d ps (length (kept (cn_reader c1)) + i)) (rd_inner (cn_reader c1))"
    "cn_polls c1 = qs1 @ polls" "suffix qs1 qs" "faults (w_inner (cn_writer c1)) = []"
    "length (filter reports qs) + gaps (rd_inner (cn_reader c1)) \<le>
      Suc (length (filter reports qs1) + gaps (rd_inner (cn_reader c)))" by auto
  have "list_all regular qs1" using c1(7) Cons.prems(7) by (auto simp: suffix_def)
  moreover have "length ps + gaps (rd_inner (cn_reader c1)) \<le> length (filter reports qs1)"
    using c1(9) Cons.prems(9) by simp
  ultimately show ?case using Cons.IH [OF _ c1(2,3) _ c1(5,6) _ c1(8)] c1(1,4) Cons.prems(1,4) by auto
qed

section \<open>Waiting with a timer\<close>

definition ticked :: "nat \<Rightarrow> WriterHalf \<Rightarrow> WriterHalf" where
  "ticked n w =
     \<lparr>sent_flag = (sent_flag w \<and> n = 0),
      w_inner = (w_inner w)\<lparr>sent := sent (w_inner w) @
        concat (replicate (n - (if sent_flag w then 1 else 0)) (unit_packet PingReq))\<rparr>\<rparr>"

lemma faults_ticked [simp]: "faults (w_inner (ticked n w)) = faults (w_inner w)"
  by (simp add: ticked_def)

lemma ticked_0 [simp]: "ticked 0 w = w"
  by (simp add: ticked_def)






section \<open>Correctness\<close>

text \<open>C3: Receiving from the non-blocking socket, however the stream is cut into reads. All packets
  are delivered in order, and the bytes after the last one stay in place for the next call, when: each packet has at
  least five bytes and fits the buffer; the socket does not fail or end; it would-block only between
  packets, inside a header or right after one (elsewhere bytes are lost, as
  \<open>reader_loses_partial_frame\<close> shows); the socket can be written to; and polling reports the socket at
  least once per packet and once more per would-block. It may report the timer as often
  as it likes in between, and the socket more often.\<close>

theorem recv_any_cut:
  assumes "crates_ok d" "list_all packet_ok ps" "usable (cn_reader c)"
    and "undelivered (cn_reader c) = concat (map (packet_bytes d) ps) @ rest"
    and "list_all (\<lambda>p. 5 \<le> length (packet_bytes d p) \<and>
           length (packet_bytes d p) \<le> length (rd_buf (cn_reader c))) ps"
    and "calm (\<lambda>i. gap_ok d ps (length (kept (cn_reader c)) + i)) (rd_inner (cn_reader c))"
    and "cn_polls c = qs @ polls" "list_all regular qs" "faults (w_inner (cn_writer c)) = []"
    and "length ps + gaps (rd_inner (cn_reader c)) \<le> length (filter reports qs)"
  shows "\<exists>c'. recv_all d (length ps) c = Some (map packet_view ps, None, c') \<and>
    undelivered (cn_reader c') = rest \<and> suffix polls (cn_polls c')"
  using recv_all_waits [OF assms] by blast

text \<open>One packet that would-blocks inside the header and right after it, with a tick in between.\<close>

theorem recv_any_cut_witness:
  "\<exists>c'. recv_all (std_crates True) (Suc 0) (sample_connection
      (sample_reader [Data [0x90], Fail WouldBlock, Data [3], Fail WouldBlock, Data [0, 10], Data [1, 0xD0, 0]])
      [Poll_Events [readable], Poll_Events [ticking, readable], Poll_Events [readable]]) =
    Some (map packet_view [Send_SubAck \<lparr>sab_pkid = 10, sab_return_codes = [Qos1]\<rparr>], None, c') \<and>
    undelivered (cn_reader c') = [0xD0, 0]"
proof -
  let ?p = "Send_SubAck \<lparr>sab_pkid = 10, sab_return_codes = [Qos1]\<rparr>"
  let ?s = "[Data [0x90], Fail WouldBlock, Data [3], Fail WouldBlock, Data [0, 10], Data [1, 0xD0, 0]]"
  let ?q = "[Poll_Events [readable], Poll_Events [ticking, readable], Poll_Events [readable]]"
  have bytes: "packet_bytes (std_crates True) ?p = [0x90, 3, 0, 10, 1]" by code_simp
  have "packet_ok ?p" by (simp add: suback_ok_def)
  moreover have "kept (sample_reader ?s) = []" "undelivered (sample_reader ?s) = [0x90, 3, 0, 10, 1, 0xD0, 0]"
    by (simp_all add: kept_def undelivered_kept)
  moreover have "usable (sample_reader ?s)"
    using sample_reader_ready [of ?s] by (simp add: usable_def reader_ready_def)
  moreover have "FixedHeader_next_frame (std_crates True) [] = Ok None"
    "FixedHeader_next_frame (std_crates True) [0x90] = Ok None" by (simp_all add: FixedHeader_next_frame_None)
  then have "calm (gap_ok (std_crates True) [?p]) ?s" using bytes by (simp add: numeral_2_eq_2)
  moreover have "list_all regular ?q" "length (filter reports ?q) = 3"
    by (simp_all add: regular_def reports_def)
  ultimately show ?thesis
    using recv_any_cut [OF std_crates_ok, of "[?p]" "sample_connection (sample_reader ?s) ?q" True
        "[0xD0, 0]" ?q "[]"] bytes by (auto simp: vec_writer_def simp del: recv_all.simps)
qed



end
