(* ===== verification/Programs.thy ===== *)
theory Programs
  imports Sync Sync_Stream Display
begin

text \<open>
  The programs the repository ships with: the two examples (\<open>examples/sync-sender\<close> and
  \<open>examples/sync-receiver\<close>) and the set-up of the benchmark (\<open>benches/publish.rs\<close>). They end in a
  loop that only an error leaves, so a run is observed after a number of rounds. Installing the
  error and tracing hooks is third-party code: all that matters of it is whether it succeeds,
  which is the argument \<open>hooks\<close>. The clock of the sender is the list of the seconds that
  \<open>elapsed\<close> reports, one entry per round.
\<close>

section \<open>Definitions\<close>

datatype main_error = Hooks | Keep_Alive TryFromIntError | Mcutt Error

text \<open>Where a program stands: in its loop, back from \<open>main\<close> with an error, or in a panic. The
  connection is the one it had when it stopped, if it had got one.\<close>

datatype run =
  Looping Connection
| Returned main_error "Connection option"
| Aborted "Connection option"

text \<open>A call that returns a \<open>Result\<close>, followed by the question mark operator.\<close>

definition or_return :: "('a, 'e) result \<Rightarrow> ('e \<Rightarrow> main_error) \<Rightarrow> Connection option \<Rightarrow> ('a \<Rightarrow> run option) \<Rightarrow> run option" where
  "or_return r err c k =
     (case r of Ok x \<Rightarrow> k x | Err e \<Rightarrow> Some (Returned (err e) c) | Panic \<Rightarrow> Some (Aborted c))"

text \<open>The part the three programs share: connect to the broker under a name and with a keep alive
  in seconds, and give up when the broker refuses. \<open>None\<close> is a handshake that is never answered.\<close>

definition connect_session ::
    "crates \<Rightarrow> os \<Rightarrow> string \<Rightarrow> nat \<Rightarrow> (ConnAck \<Rightarrow> Connection \<Rightarrow> run option) \<Rightarrow> run option" where
  "connect_session d os name secs k =
     or_return (Connection_create os (10 * nanos_per_sec)) Mcutt None (\<lambda>connection.
     or_return (KeepAlive_try_from d (secs * nanos_per_sec)) Keep_Alive (Some connection) (\<lambda>keep_alive.
     or_return (ConnectBuilder_create (str_literal name)) Mcutt (Some connection) (\<lambda>builder.
     let connect = ConnectBuilder_keepalive keep_alive (ConnectBuilder_clean_session d builder) in
     (case Connection_connect d connect connection of
        None \<Rightarrow> None
      | Some (r, connection) \<Rightarrow>
          or_return (and_then r ConnAck_error_for_code) Mcutt (Some connection) (\<lambda>connack.
          k connack connection)))))"

definition bench_connect :: "crates \<Rightarrow> os \<Rightarrow> run option" where
  "bench_connect d os = connect_session d os ''mcutt-bench'' 30 (\<lambda>_ connection. Some (Looping connection))"

definition bench_publish_builder :: PublishBuilder where
  "bench_publish_builder = PublishBuilder_new (str_literal ''topic'') [42]"

text \<open>The closure the benchmark repeats; its result is not looked at.\<close>

primrec bench_iter :: "crates \<Rightarrow> nat \<Rightarrow> Connection \<Rightarrow> Connection" where
  "bench_iter d 0 connect = connect"
| "bench_iter d (Suc n) connect = bench_iter d n (snd (Connection_publish d bench_publish_builder connect))"

definition bench_publish :: "crates \<Rightarrow> os \<Rightarrow> nat \<Rightarrow> run option" where
  "bench_publish d os n =
     (case bench_connect d os of
        None \<Rightarrow> None
      | Some (Looping connect) \<Rightarrow> Some (Looping (bench_iter d n connect))
      | Some (Returned e c) \<Rightarrow> Some (Aborted c)
      | Some (Aborted c) \<Rightarrow> Some (Aborted c))"

type_synonym u64 = "64 word"

definition u64_to_be_bytes :: "u64 \<Rightarrow> bytes" where
  "u64_to_be_bytes v = map (\<lambda>i. ucast (drop_bit (8 * (7 - i)) v)) [0..<8]"

definition sender_publish :: "u64 \<Rightarrow> PublishBuilder" where
  "sender_publish secs = PublishBuilder_new (str_literal ''interval/seconds'') (u64_to_be_bytes secs)"

primrec sender_loop :: "crates \<Rightarrow> u64 list \<Rightarrow> Connection \<Rightarrow> run option" where
  "sender_loop d [] connection = Some (Looping connection)"
| "sender_loop d (secs # clock) connection =
     (case Connection_publish d (sender_publish secs) connection of
        (r, connection) \<Rightarrow> or_return r Mcutt (Some connection) (\<lambda>_. sender_loop d clock connection))"

definition sender_main :: "crates \<Rightarrow> bool \<Rightarrow> os \<Rightarrow> u64 list \<Rightarrow> run option" where
  "sender_main d hooks os clock =
     (if hooks then connect_session d os ''mcutt-sync-sender'' 30 (\<lambda>_. sender_loop d clock)
      else Some (Returned Hooks None))"

definition receiver_subscribe :: SubscribeBuilder where
  "receiver_subscribe =
     SubscribeBuilder_with_topic 1
       \<lparr>sf_topic = str_literal ''interval/seconds'', sf_qos = Requested_AtMostOnce\<rparr>"

text \<open>The loop drops the packets. What is left of one is the text with which \<open>recv\<close> logs it before it
  returns (\<open>src/sync.rs\<close>, l. 428), and only the log of these texts is kept here; \<open>z\<close> prints a packet
  identifier.\<close>

primrec receiver_loop ::
    "crates \<Rightarrow> (u16 \<Rightarrow> string) \<Rightarrow> nat \<Rightarrow> string list \<Rightarrow> Connection \<Rightarrow> (string list \<times> run) option" where
  "receiver_loop d z 0 log connection = Some (log, Looping connection)"
| "receiver_loop d z (Suc n) log connection =
     (case Connection_recv d connection of
        None \<Rightarrow> None
      | Some (Ok pkt, connection) \<Rightarrow> receiver_loop d z n (log @ [Packet_fmt d z pkt]) connection
      | Some (Err e, connection) \<Rightarrow> Some (log, Returned (Mcutt e) (Some connection))
      | Some (Panic, connection) \<Rightarrow> Some (log, Aborted (Some connection)))"

definition receiver_start :: "crates \<Rightarrow> bool \<Rightarrow> os \<Rightarrow> run option" where
  "receiver_start d hooks os =
     (if hooks then
        connect_session d os ''mcutt-sync-receiver'' 10 (\<lambda>_ connection.
          case Connection_subscribe d receiver_subscribe connection of
            (r, connection) \<Rightarrow> or_return r Mcutt (Some connection) (\<lambda>_. Some (Looping connection)))
      else Some (Returned Hooks None))"

definition receiver_main ::
    "crates \<Rightarrow> (u16 \<Rightarrow> string) \<Rightarrow> bool \<Rightarrow> os \<Rightarrow> nat \<Rightarrow> (string list \<times> run) option" where
  "receiver_main d z hooks os n =
     (case receiver_start d hooks os of
        None \<Rightarrow> None
      | Some (Looping connection) \<Rightarrow> receiver_loop d z n [] connection
      | Some stopped \<Rightarrow> Some ([], stopped))"

section \<open>The payload of the sender\<close>

definition be_value :: "bytes \<Rightarrow> nat" where
  "be_value bs = foldl (\<lambda>a b. 256 * a + unat b) 0 bs"

lemma be_value_u64 [simp]: "be_value (u64_to_be_bytes v) = unat v"
proof -
  let ?n = "unat v"
  have byte: "unat (ucast (drop_bit k v) :: u8) = ?n div 2 ^ k mod 256" for k
    by (simp only: unsigned_ucast_eq unat_drop_bit_eq) (simp add: take_bit_eq_mod drop_bit_eq_div)
  have step: "256 * (?n div 2 ^ (k + 8)) + ?n div 2 ^ k mod 256 = ?n div 2 ^ k" for k
    by (simp add: power_add div_mult2_eq)
  have "?n < 2 ^ 64" using unsigned_less [of v] by simp
  then have top: "?n div 2 ^ 56 mod 256 = ?n div 2 ^ 56"
    by (intro mod_less) (simp add: less_mult_imp_div_less)
  have "u64_to_be_bytes v = map (\<lambda>k. ucast (drop_bit k v)) [56, 48, 40, 32, 24, 16, 8, 0]"
    by (simp add: u64_to_be_bytes_def upt_rec)
  then have "be_value (u64_to_be_bytes v) =
      foldl (\<lambda>a k. 256 * a + ?n div 2 ^ k mod 256) 0 [56, 48, 40, 32, 24, 16, 8, 0]"
    by (simp only: be_value_def foldl_map byte)
  also have "\<dots> = ?n"
    using top step [of 48] step [of 40] step [of 32] step [of 24] step [of 16] step [of 8] step [of 0]
    by (simp only: foldl.simps mult_0_right add_0_left) simp
  finally show ?thesis .
qed

lemma length_u64_to_be_bytes [simp]: "length (u64_to_be_bytes v) = 8"
  by (simp add: u64_to_be_bytes_def)

section \<open>The handshake of a program\<close>

text \<open>A broker that is there: the socket opens, nothing fails while sending, the first read brings the
  CONNACK \<open>a\<close> and nothing else, and later reads bring \<open>cs\<close>.\<close>

definition answered :: "crates \<Rightarrow> os \<Rightarrow> ConnAck \<Rightarrow> socket \<Rightarrow> poll_result list \<Rightarrow> bool" where
  "answered d os a cs polls \<longleftrightarrow>
     (\<exists>c. Connection_create os (10 * nanos_per_sec) = Ok c \<and> w_inner (cn_writer c) = vec_writer \<and>
        rd_inner (cn_reader c) = Data (connack_packet d a) # cs) \<and>
     os_polls os = Poll_Events [readable] # polls"

definition program_connect :: "crates \<Rightarrow> string \<Rightarrow> nat \<Rightarrow> ConnectBuilder" where
  "program_connect d name secs =
     ConnectBuilder_keepalive \<lparr>seconds = word_of_nat secs\<rparr>
       (ConnectBuilder_clean_session d (ConnectBuilder_new_unchecked (str_literal name)))"

lemma program_connect_sendable:
  assumes "crates_ok d" "mqtt_str_ok (str_literal name)" "length name \<le> 65535"
  shows "connect_sendable d (program_connect d name secs)"
  using assms
  by (simp add: connect_sendable_def program_connect_def ConnectBuilder_keepalive_def
      ConnectBuilder_clean_session_def ConnectBuilder_new_unchecked_def ConnectFlags_empty_def
      CLEAN_SESSION_def CONNECT_RESERVED_def bitflags_laws)

lemma connect_session_run:
  assumes "crates_ok d" "answered d os a cs polls" "secs < 65536"
    and "mqtt_str_ok (str_literal name)" "length name \<le> 65535"
  shows "\<exists>c. connect_session d os name secs k =
      or_return (ConnAck_error_for_code a) Mcutt (Some c) (\<lambda>a. k a c) \<and>
    w_inner (cn_writer c) = \<lparr>sent = connect_packet d (program_connect d name secs), faults = []\<rparr> \<and>
    drained (cn_reader c) \<and> rd_inner (cn_reader c) = cs \<and> length (rd_buf (cn_reader c)) = 8192 \<and>
    cn_polls c = polls"
proof -
  from assms(2) obtain c where c: "Connection_create os (10 * nanos_per_sec) = Ok c"
    "w_inner (cn_writer c) = vec_writer" "rd_inner (cn_reader c) = Data (connack_packet d a) # cs"
    "os_polls os = Poll_Events [readable] # polls" by (auto simp: answered_def)
  let ?b = "program_connect d name secs"
  from connect_handshake_run [OF assms(1) c(1) _ program_connect_sendable [OF assms(1,4,5)] c(3,4)] c(2)
  obtain r where r: "Connection_connect d ?b c = Some (Ok a, c\<lparr>cn_reader := r, cn_polls := polls,
      cn_writer := \<lparr>sent_flag = True, w_inner = vec_writer\<lparr>sent := connect_packet d ?b\<rparr>\<rparr>\<rparr>)"
    "drained r" "rd_inner r = cs" "length (rd_buf r) = 8192" by (auto simp: vec_writer_def)
  have ka: "KeepAlive_try_from d (secs * nanos_per_sec) = Ok \<lparr>seconds = word_of_nat secs\<rparr>"
    using assms(1,3) by (simp add: KeepAlive_try_from_def nanos_per_sec_def)
  have b: "ConnectBuilder_create (str_literal name) = Ok (ConnectBuilder_new_unchecked (str_literal name))"
    by (simp add: ConnectBuilder_create_def ClientId_validate_value_def ConnectBuilder_new_unchecked_def)
  show ?thesis
    by (rule exI [of _ "c\<lparr>cn_reader := r, cn_polls := polls,
          cn_writer := \<lparr>sent_flag = True, w_inner = vec_writer\<lparr>sent := connect_packet d ?b\<rparr>\<rparr>\<rparr>"])
      (use r in \<open>simp add: connect_session_def c(1) ka b or_return_def Let_def program_connect_def vec_writer_def\<close>)
qed

section \<open>The loops\<close>

lemma sender_publish_ok: "publish_sendable (sender_publish t)" "publish_consistent (sender_publish t)"
proof -
  have "mqtt_str_ok (str_literal ''interval/seconds'')" "plain_level (str_literal ''interval/seconds'')"
    by code_simp+
  then show "publish_sendable (sender_publish t)" "publish_consistent (sender_publish t)"
    by (simp_all add: publish_sendable_def publish_consistent_def sender_publish_def PublishBuilder_new_def
        flags_ok_def TypeFlags_all_def TypeFlags_empty_def publish_size_def)
qed

lemma sender_packet_length:
  "crates_ok d \<Longrightarrow> length (publish_packet d (sender_publish t)) = 28"
  by (simp add: length_publish_packet sender_publish_def PublishBuilder_new_def publish_size_def
      frame_header_short)

lemma sender_loop_run:
  assumes "crates_ok d" "faults (w_inner (cn_writer c)) = []"
  shows "\<exists>c'. sender_loop d clock c = Some (Looping c') \<and>
    w_inner (cn_writer c') = (w_inner (cn_writer c))\<lparr>sent := sent (w_inner (cn_writer c)) @
      concat (map (\<lambda>t. publish_packet d (sender_publish t)) clock)\<rparr>"
  using assms(2)
proof (induction clock arbitrary: c)
  case (Cons t clock)
  note run = send_run [OF Publish_write_sync_emits [OF assms(1) sender_publish_ok(1)] Cons.prems, of t "\<lambda>_. True"]
  let ?c = "c\<lparr>cn_writer := \<lparr>sent_flag = True, w_inner = (w_inner (cn_writer c))\<lparr>sent :=
    sent (w_inner (cn_writer c)) @ publish_packet d (sender_publish t)\<rparr>\<rparr>\<rparr>"
  from Cons.IH [of ?c] Cons.prems run show ?case
    by (simp add: Connection_publish_def on_writer_def send_eqs or_return_def)
qed simp

lemma receiver_subscribe_ok: "crates_ok d \<Longrightarrow> subscribe_ok d receiver_subscribe"
proof -
  assume "crates_ok d"
  moreover have "mqtt_str_ok (str_literal ''interval/seconds'')"
    "filter_levels_ok (topic_levels (str_literal ''interval/seconds''))" by code_simp+
  ultimately show ?thesis
    by (simp add: subscribe_ok_def receiver_subscribe_def SubscribeBuilder_with_topic_def
        SubscribeBuilder_new_def filter_ok_def filter_bytes_def buff_bytes_def zerocopy_laws)
qed

lemma receiver_loop_recv_all:
  "recv_all d n c = Some (ps, None, c') \<Longrightarrow>
    receiver_loop d z n log c = Some (log @ map (Packet_fmt d z) ps, Looping c')"
  by (induction n arbitrary: log c ps) (auto simp: Connection_recv_def split: option.splits result.splits prod.splits)

lemma drained_usable:
  assumes "drained r"
  shows "usable r" "kept r = []" "undelivered r = avail (rd_inner r)"
proof -
  from assms have inv: "reader_inv r" and "kept r = []" by (simp_all add: drained_def kept_def)
  then show "kept r = []" "undelivered r = avail (rd_inner r)" by (simp_all add: undelivered_kept)
  have "reader_ready r" if "rd_frame r = None"
    using inv \<open>kept r = []\<close> that length_pending [OF inv] by (simp add: reader_ready_def kept_def)
  with inv show "usable r" by (simp add: usable_def)
qed

text \<open>The seconds a received packet reports, when it is one of the sender's.\<close>

definition reported_secs :: "Packet \<Rightarrow> nat option" where
  "reported_secs p =
     (case p of
        Packet_Publish m \<Rightarrow>
          if MqttStr_as_str (publish_topic m) = str_literal ''interval/seconds''
          then Some (be_value (publish_payload m)) else None
      | _ \<Rightarrow> None)"

lemma reported_secs_sender: "reported_secs (Packet_Publish (publish_of (sender_publish t))) = Some (unat t)"
  by (simp add: reported_secs_def publish_of_def sender_publish_def PublishBuilder_new_def str_of_def
      MqttStr_as_str_def)

text \<open>The text of every packet of the sender, whatever the second it carries.\<close>

lemma sender_packet_text:
  "Packet_fmt d z (Packet_Publish (publish_of (sender_publish t))) =
    ''PUBLISH(3) topic(interval/seconds) payload(8 bytes)''"
proof -
  have "str_fmt (str_literal ''interval/seconds'') = ''interval/seconds''" "dec 8 = ''8''"
    "ControlPacketType_fmt Publish = ''PUBLISH(3)''" by code_simp+
  then show ?thesis
    by (simp add: Publish_fmt_def publish_of_def sender_publish_def PublishBuilder_new_def MqttStr_fmt_def)
qed

lemma sender_main_run:
  assumes "crates_ok d" "answered d os a cs polls" "connack_return_code a = Accepted"
  shows "\<exists>c. sender_main d True os clock = Some (Looping c) \<and>
    sent (w_inner (cn_writer c)) = connect_packet d (program_connect d ''mcutt-sync-sender'' 30) @
      concat (map (\<lambda>t. publish_packet d (sender_publish t)) clock)"
proof -
  have name: "mqtt_str_ok (str_literal ''mcutt-sync-sender'')" by code_simp
  from connect_session_run [OF assms(1,2) _ name, of 30 "\<lambda>_. sender_loop d clock"] obtain c where c:
    "connect_session d os ''mcutt-sync-sender'' 30 (\<lambda>_. sender_loop d clock) =
      or_return (ConnAck_error_for_code a) Mcutt (Some c) (\<lambda>_. sender_loop d clock c)"
    "w_inner (cn_writer c) = \<lparr>sent = connect_packet d (program_connect d ''mcutt-sync-sender'' 30), faults = []\<rparr>"
    by auto
  from sender_loop_run [OF assms(1), of c clock] c assms(3) show ?thesis
    by (auto simp: sender_main_def or_return_def ConnAck_error_for_code_def)
qed

lemma receiver_start_run:
  assumes "crates_ok d" "answered d os a cs polls" "connack_return_code a = Accepted"
  shows "\<exists>c. receiver_start d True os = Some (Looping c) \<and>
    sent (w_inner (cn_writer c)) = connect_packet d (program_connect d ''mcutt-sync-receiver'' 10) @
      subscribe_packet d receiver_subscribe \<and>
    drained (cn_reader c) \<and> rd_inner (cn_reader c) = cs \<and> length (rd_buf (cn_reader c)) = 8192 \<and>
    cn_polls c = polls \<and> faults (w_inner (cn_writer c)) = []"
proof -
  let ?k = "\<lambda>_ connection. case Connection_subscribe d receiver_subscribe connection of
      (r, connection) \<Rightarrow> or_return r Mcutt (Some connection) (\<lambda>_. Some (Looping connection))"
  have name: "mqtt_str_ok (str_literal ''mcutt-sync-receiver'')" by code_simp
  from connect_session_run [OF assms(1,2) _ name, of 10 ?k] obtain c where c:
    "connect_session d os ''mcutt-sync-receiver'' 10 ?k =
      or_return (ConnAck_error_for_code a) Mcutt (Some c) (\<lambda>a. ?k a c)"
    "w_inner (cn_writer c) = \<lparr>sent = connect_packet d (program_connect d ''mcutt-sync-receiver'' 10), faults = []\<rparr>"
    "drained (cn_reader c)" "rd_inner (cn_reader c) = cs" "length (rd_buf (cn_reader c)) = 8192" "cn_polls c = polls"
    by auto
  have "faults (w_inner (cn_writer c)) = []" by (simp add: c(2))
  from send_run [OF Subscribe_write_sync_emits [OF assms(1) receiver_subscribe_ok [OF assms(1)]] this, of "\<lambda>_. True"]
    c assms(3) show ?thesis
    by (simp add: receiver_start_def or_return_def ConnAck_error_for_code_def Connection_subscribe_def
        on_writer_def send_eqs)
qed

section \<open>Correctness\<close>

text \<open>C13: The two example programs together. With a broker that accepts both, the sender stays in its
  loop and puts its CONNECT and one PUBLISH per second on the wire. The broker hands those PUBLISH
  packets on after its SUBACK, cut into reads in any way; the socket does not fail or end, it would-block
  only between packets, inside a header or right after one, and polling reports it once per packet and
  would-block, with timer events in between. Then the receiver stays in its loop too, and \<open>recv\<close> returns to it the SUBACK and then
  exactly the seconds of the sender's clock, in order. The program drops them: the log holds
  one line per packet, and the line of a PUBLISH is the same for every second, since it shows the size of
  the payload and not the payload. The client identifiers of both programs hold a hyphen, which
  the parser of this very library refuses in a CONNECT.\<close>

theorem elapsed_seconds_delivered:
  assumes "crates_ok d" "answered d os1 a1 cs1 polls1" "connack_return_code a1 = Accepted"
    and "answered d os2 a2 cs2 (qs @ polls2)" "connack_return_code a2 = Accepted"
    and "calm (gap_ok d (Send_SubAck \<lparr>sab_pkid = 1, sab_return_codes = [code]\<rparr> #
           map (\<lambda>t. Send_Publish (sender_publish t)) clock)) cs2"
    and "list_all regular qs" "Suc (length clock) + gaps cs2 \<le> length (filter reports qs)"
  shows "\<exists>c pubs. sender_main d True os1 clock = Some (Looping c) \<and>
    sent (w_inner (cn_writer c)) = connect_packet d (program_connect d ''mcutt-sync-sender'' 30) @ pubs \<and>
    (avail cs2 = suback_packet d \<lparr>sab_pkid = 1, sab_return_codes = [code]\<rparr> @ pubs @ later \<longrightarrow>
      (\<exists>c2 ps c'. receiver_start d True os2 = Some (Looping c2) \<and>
        recv_all d (Suc (length clock)) c2 = Some (ps, None, c') \<and>
        hd ps = Packet_SubAck \<lparr>suback_pkid = \<lparr>pkid = 1\<rparr>, suback_return_codes = [code]\<rparr> \<and>
        map reported_secs (tl ps) = map (\<lambda>t. Some (unat t)) clock \<and>
        undelivered (cn_reader c') = later \<and>
        receiver_main d z True os2 (Suc (length clock)) =
          Some (Packet_fmt d z (hd ps) #
            replicate (length clock) ''PUBLISH(3) topic(interval/seconds) payload(8 bytes)'', Looping c'))) \<and>
    (\<exists>e. Connect_parse d (sent (w_inner (cn_writer c))) = Err e)"
proof -
  let ?pubs = "concat (map (\<lambda>t. publish_packet d (sender_publish t)) clock)"
  let ?ps = "Send_SubAck \<lparr>sab_pkid = 1, sab_return_codes = [code]\<rparr> # map (\<lambda>t. Send_Publish (sender_publish t)) clock"
  from sender_main_run [OF assms(1-3), of clock] obtain c where c: "sender_main d True os1 clock = Some (Looping c)"
    "sent (w_inner (cn_writer c)) = connect_packet d (program_connect d ''mcutt-sync-sender'' 30) @ ?pubs" by blast
  have name: "mqtt_str_ok (str_literal ''mcutt-sync-sender'')" "\<not> client_id_ok (str_literal ''mcutt-sync-sender'')"
    by code_simp+
  then have "\<exists>e. Connect_parse d (sent (w_inner (cn_writer c))) = Err e"
    unfolding c(2)
    by (intro Connect_parse_bad_client_id program_connect_sendable assms(1))
      (simp_all add: program_connect_def ConnectBuilder_keepalive_def ConnectBuilder_clean_session_def
        ConnectBuilder_new_unchecked_def)
  moreover from receiver_start_run [OF assms(1,4,5)] obtain c2 where c2:
    "receiver_start d True os2 = Some (Looping c2)" "drained (cn_reader c2)" "rd_inner (cn_reader c2) = cs2"
    "length (rd_buf (cn_reader c2)) = 8192" "cn_polls c2 = qs @ polls2" "faults (w_inner (cn_writer c2)) = []" by blast
  have "\<exists>ps c'. recv_all d (Suc (length clock)) c2 = Some (ps, None, c') \<and>
        hd ps = Packet_SubAck \<lparr>suback_pkid = \<lparr>pkid = 1\<rparr>, suback_return_codes = [code]\<rparr> \<and>
        map reported_secs (tl ps) = map (\<lambda>t. Some (unat t)) clock \<and> undelivered (cn_reader c') = later \<and>
        receiver_main d z True os2 (Suc (length clock)) =
          Some (Packet_fmt d z (hd ps) #
            replicate (length clock) ''PUBLISH(3) topic(interval/seconds) payload(8 bytes)'', Looping c')"
    if "avail cs2 = suback_packet d \<lparr>sab_pkid = 1, sab_return_codes = [code]\<rparr> @ ?pubs @ later"
  proof -
    note u = drained_usable [OF c2(2)]
    have und: "undelivered (cn_reader c2) = concat (map (packet_bytes d) ?ps) @ later"
      using u(3) c2(3) that by (simp add: comp_def)
    have ok: "list_all packet_ok ?ps" "list_all (\<lambda>p. 5 \<le> length (packet_bytes d p) \<and>
        length (packet_bytes d p) \<le> length (rd_buf (cn_reader c2))) ?ps"
      using assms(1) sender_publish_ok
      by (auto simp: list_all_iff c2(4) sender_packet_length suback_ok_def suback_packet_def frame_header_short
          zerocopy_laws)
    have "calm (\<lambda>i. gap_ok d ?ps (length (kept (cn_reader c2)) + i)) (rd_inner (cn_reader c2))"
      "length ?ps + gaps (rd_inner (cn_reader c2)) \<le> length (filter reports qs)"
      unfolding u(2) c2(3) using assms(6,8) by (simp_all del: gap_ok.simps)
    from recv_all_waits [OF assms(1) ok(1) u(1) und ok(2) this(1) c2(5) assms(7) c2(6) this(2)] obtain c' where
      c': "recv_all d (length ?ps) c2 = Some (map packet_view ?ps, None, c')" "undelivered (cn_reader c') = later"
      by blast
    have "map (Packet_fmt d z) (map packet_view ?ps) = Packet_fmt d z (hd (map packet_view ?ps)) #
        replicate (length clock) ''PUBLISH(3) topic(interval/seconds) payload(8 bytes)''"
      by (simp add: sender_packet_text comp_def map_replicate_const del: Packet_fmt.simps)
    with receiver_loop_recv_all [OF c'(1), of z "[]"] c2(1) c' show ?thesis
      by (intro exI [of _ "map packet_view ?ps"] exI [of _ c'])
        (simp add: receiver_main_def suback_of_def reported_secs_sender comp_def
          del: receiver_loop.simps recv_all.simps Packet_fmt.simps)
  qed
  ultimately show ?thesis using c c2(1) by blast
qed

lemma sample_answered:
  "answered (std_crates True) (sample_os (Data [0x20, 2, 0, 0] # cs) (Poll_Events [readable] # polls))
    (ConnAck_new 0 Accepted) cs polls"
proof -
  have "connack_packet (std_crates True) (ConnAck_new 0 Accepted) = [0x20, 2, 0, 0]" by code_simp
  with sample_os_create [of "Data [0x20, 2, 0, 0] # cs" "Poll_Events [readable] # polls"] show ?thesis
    by (simp add: answered_def sample_os_def nanos_per_sec_def)
qed

abbreviation sample_suback :: bytes where
  "sample_suback \<equiv> [0x90, 3, 0, 1, 0]"

theorem elapsed_seconds_delivered_witness:
  "\<exists>c'. receiver_main (std_crates True) (\<lambda>x. dec (unat x)) True (sample_os
      [Data [0x20, 2, 0, 0], Data (sample_suback @ [0x30, 26]), Fail WouldBlock,
       Data ([0, 16] @ str_literal ''interval/seconds'' @ [0, 0, 0, 0, 0, 0, 0, 5])]
      (replicate 4 (Poll_Events [readable]))) 2 =
    Some ([''SUBACK(9) pkid(PacketId(1)) (qos0)'', ''PUBLISH(3) topic(interval/seconds) payload(8 bytes)''],
      Looping c')"
proof -
  let ?d = "std_crates True" and ?a = "ConnAck_new 0 Accepted" and ?z = "\<lambda>x :: u16. dec (unat x)"
  let ?pub = "[0, 16] @ str_literal ''interval/seconds'' @ [0, 0, 0, 0, 0, 0, 0, 5]"
  let ?in = "[Data (sample_suback @ [0x30, 26]), Fail WouldBlock, Data ?pub]"
  let ?qs = "replicate 3 (Poll_Events [readable])" and ?clock = "[5 :: u64]"
  let ?ps = "Send_SubAck \<lparr>sab_pkid = 1, sab_return_codes = [Qos0]\<rparr> # map (\<lambda>t. Send_Publish (sender_publish t)) ?clock"
  have a: "connack_return_code ?a = Accepted" by (simp add: ConnAck_new_def)
  have bytes: "packet_bytes ?d (Send_SubAck \<lparr>sab_pkid = 1, sab_return_codes = [Qos0]\<rparr>) = sample_suback"
    "packet_bytes ?d (Send_Publish (sender_publish 5)) = [0x30, 26] @ ?pub" by code_simp+
  have "FixedHeader_next_frame ?d [0x30] = Ok None" by (simp add: FixedHeader_next_frame_None)
  then have calm: "calm (gap_ok ?d ?ps) ?in" using bytes by (simp add: numeral_2_eq_2)
  have polls: "list_all regular ?qs" "Suc (length ?clock) + gaps ?in \<le> length (filter reports ?qs)"
    by (simp_all add: regular_def reports_def numeral_3_eq_3)
  from elapsed_seconds_delivered [OF std_crates_ok sample_answered [of "[]" "[]"] a
      sample_answered [of ?in "?qs @ []"] a calm polls, where later = "[]" and z = ?z]
  obtain c pubs where c: "sender_main ?d True (sample_os [Data [0x20, 2, 0, 0]] [Poll_Events [readable]]) ?clock =
      Some (Looping c)"
    "sent (w_inner (cn_writer c)) = connect_packet ?d (program_connect ?d ''mcutt-sync-sender'' 30) @ pubs"
    "avail ?in = suback_packet ?d \<lparr>sab_pkid = 1, sab_return_codes = [Qos0]\<rparr> @ pubs @ [] \<longrightarrow>
      (\<exists>ps c'. hd ps = Packet_SubAck \<lparr>suback_pkid = \<lparr>pkid = 1\<rparr>, suback_return_codes = [Qos0]\<rparr> \<and>
        receiver_main ?d ?z True (sample_os (Data [0x20, 2, 0, 0] # ?in) (Poll_Events [readable] # ?qs @ []))
          (Suc (length ?clock)) = Some (Packet_fmt ?d ?z (hd ps) #
            replicate (length ?clock) ''PUBLISH(3) topic(interval/seconds) payload(8 bytes)'', Looping c'))"
    by blast
  from sender_main_run [OF std_crates_ok sample_answered a, of "[]" "[]" ?clock] c(1,2)
  have "pubs = packet_bytes ?d (Send_Publish (sender_publish 5))" by auto
  then have "avail ?in = suback_packet ?d \<lparr>sab_pkid = 1, sab_return_codes = [Qos0]\<rparr> @ pubs @ []"
    using bytes by simp
  from mp [OF c(3) this] obtain ps c' where
    ps: "hd ps = Packet_SubAck \<lparr>suback_pkid = \<lparr>pkid = 1\<rparr>, suback_return_codes = [Qos0]\<rparr>"
      "receiver_main ?d ?z True (sample_os (Data [0x20, 2, 0, 0] # ?in) (Poll_Events [readable] # ?qs @ []))
        (Suc (length ?clock)) = Some (Packet_fmt ?d ?z (hd ps) #
            replicate (length ?clock) ''PUBLISH(3) topic(interval/seconds) payload(8 bytes)'', Looping c')" by blast
  have "Packet_fmt ?d ?z (Packet_SubAck \<lparr>suback_pkid = \<lparr>pkid = 1\<rparr>, suback_return_codes = [Qos0]\<rparr>) =
      ''SUBACK(9) pkid(PacketId(1)) (qos0)''" by code_simp
  moreover have "Poll_Events [readable] # ?qs @ [] = replicate 4 (Poll_Events [readable])"
    by (simp add: numeral_3_eq_3 eval_nat_numeral)
  moreover have "Suc (length ?clock) = 2" by simp
  moreover have "replicate (length ?clock) x = [x]" for x :: string by simp
  ultimately show ?thesis using ps by metis
qed

end
