(* ===== verification/Sync_Runs.thy ===== *)
theory Sync_Runs
  imports Sync
begin

text \<open>
  The life of a connection: whatever sequence of operations a program performs on it, and
  whatever the socket and the poll do in between. The step relation \<open>session\<close> has one rule per
  operation of \<open>Connection\<close>; a panic ends it.
\<close>

section \<open>Sessions\<close>

inductive session :: "crates \<Rightarrow> Connection \<Rightarrow> Connection \<Rightarrow> bool" for d c0 where
  session_start: "session d c0 c0"
| session_connect: "session d c0 c \<Longrightarrow> Connection_connect d b c = Some (res, c') \<Longrightarrow> res \<noteq> Panic \<Longrightarrow> session d c0 c'"
| session_recv: "session d c0 c \<Longrightarrow> Connection_recv d c = Some (res, c') \<Longrightarrow> res \<noteq> Panic \<Longrightarrow> session d c0 c'"
| session_publish: "session d c0 c \<Longrightarrow> Connection_publish d p c = (res, c') \<Longrightarrow> res \<noteq> Panic \<Longrightarrow> session d c0 c'"
| session_subscribe: "session d c0 c \<Longrightarrow> Connection_subscribe d s c = (res, c') \<Longrightarrow> res \<noteq> Panic \<Longrightarrow> session d c0 c'"
| session_unsubscribe: "session d c0 c \<Longrightarrow> Connection_unsubscribe d u c = (res, c') \<Longrightarrow> res \<noteq> Panic \<Longrightarrow> session d c0 c'"
| session_disconnect: "session d c0 c \<Longrightarrow> Connection_disconnect d c = (res, c') \<Longrightarrow> res \<noteq> Panic \<Longrightarrow> session d c0 c'"

section \<open>A malformed header\<close>

lemma next_frame_Err_length: "FixedHeader_next_frame d buf = Err e \<Longrightarrow> 5 \<le> length buf"
proof (rule ccontr)
  assume e: "FixedHeader_next_frame d buf = Err e" and "\<not> 5 \<le> length buf"
  then have short: "length buf \<le> 4" by simp
  show False
  proof (cases "buf = [] \<or> list_all has_continue_flag (tl buf)")
    case True
    with short e FixedHeader_next_frame_None [of d buf] show False by auto
  next
    case False
    then obtain b bs where buf: "buf = b # bs" "\<not> list_all has_continue_flag bs" by (cases buf) auto
    let ?t = "takeWhile has_continue_flag bs"
    have l: "length ?t < length bs"
      using buf(2) by (metis length_takeWhile_le list_all_iff order_le_less takeWhile_eq_all_conv takeWhile_eq_take take_all_iff order_refl)
    then have "count_continue_flags bs = Ok (length ?t)"
      using short buf(1) by (simp add: count_continue_flags_def Let_def RemainingLength_MAX_BYTES_def)
    from count_continue_flags_split [OF this l] have "rl_wf (take (length ?t + 1) bs)" .
    from FixedHeader_next_frame_wf [OF this, of d b "drop (length ?t + 1) bs"] e buf(1) show False
      by (simp only: append_take_drop_id) simp
  qed
qed

lemma stuck_read:
  assumes "stuck d r e"
  shows "\<exists>r'. Reader_read d r = Some (if debug_assertions d then Panic else Err e, r') \<and> stuck d r' e \<and>
    rd_inner r' = rd_inner r \<and> pending r' = pending r"
proof -
  from assms have r: "reader_inv r" "rd_frame r = None" "FixedHeader_next_frame d (pending r) = Err e"
    by (simp_all add: stuck_def)
  have five: "rd_filled r - rd_pos r = 5" "rd_pos r \<le> rd_filled r"
    using next_frame_Err_length [OF r(3)] length_pending [OF r(1)] r(1,2) by (simp_all add: reader_inv_def)
  from backshift_eq [OF r(1), of "debug_assertions d"] obtain r1 where r1:
    "Reader_backshift (debug_assertions d) r = (Ok (), r1)" "rd_pos r1 = 0"
    "rd_filled r1 = rd_filled r - rd_pos r" "pending r1 = pending r" "rd_frame r1 = rd_frame r"
    "length (rd_buf r1) = length (rd_buf r)" "rd_inner r1 = rd_inner r" by blast
  have inv1: "reader_inv r1" using r1 r five by (simp add: reader_inv_def)
  show ?thesis
  proof (cases "debug_assertions d")
    case True
    with five r assms show ?thesis
      by (intro exI [of _ r]) (simp add: Reader_read_def Reader_next_frame_def usize_sub_eq debug_assert_def)
  next
    case False
    have "Reader_next_frame_loop d r1 = Some (Err e, r1)"
      using Reader_buff_pending [OF inv1] r(3) r1(4) by (subst Reader_next_frame_loop.simps) simp
    with False r(2) r1(1) have "Reader_read d r = Some (Err e, r1)"
      by (simp add: Reader_read_def Reader_next_frame_def)
    with False inv1 r r1 show ?thesis by (simp add: stuck_def)
  qed
qed

lemma stuck_events:
  assumes "crates_ok d" "tokens_ok es" "stuck d (cn_reader c) e"
  shows "\<exists>x c'. ReaderHalf_events d es c = Some (x, c') \<and> stuck d (cn_reader c') e \<and>
    cn_polls c' = cn_polls c \<and> x \<noteq> Break_loop \<and> (x = Crash \<longrightarrow> debug_assertions d)"
  using assms(2,3)
proof (induction es arbitrary: c)
  case (Cons ev es)
  then have es: "tokens_ok es" by (simp add: tokens_ok_def)
  show ?case
  proof (cases "ev_token ev = READER_token")
    case True
    from stuck_read [OF Cons.prems(2)] obtain r where
      r: "Reader_read d (cn_reader c) = Some (if debug_assertions d then Panic else Err e, r)" "stuck d r e" by blast
    have "\<not> would_block e" using Cons.prems(2) next_frame_error_kind by (auto simp: stuck_def)
    with True r show ?thesis by (cases "debug_assertions d") simp_all
  next
    case False
    with Cons.prems(1) have t: "ev_token ev = TIMER_token" by (simp add: tokens_ok_def)
    obtain res w where w: "WriterHalf_handle_ping d (cn_writer c) = (res, w)" by fastforce
    with handle_ping_no_Panic [OF assms(1)] have "res \<noteq> Panic" by blast
    with w t False Cons.prems(2) Cons.IH [OF es, of "c\<lparr>cn_writer := w\<rparr>"] show ?thesis
      by (cases res) simp_all
  qed
qed simp

lemma stuck_poll:
  assumes "crates_ok d" "\<And>es. Poll_Events es \<in> set polls \<Longrightarrow> tokens_ok es" "stuck d (cn_reader c) e"
    and "ReaderHalf_poll_loop d polls c = Some (res, c')"
  shows "stuck d (cn_reader c') e \<and> suffix (cn_polls c') polls \<and> (\<forall>bs. res \<noteq> Ok bs) \<and>
    (res = Panic \<longrightarrow> debug_assertions d)"
  using assms(2-)
proof (induction polls arbitrary: c)
  case (Cons q polls)
  show ?case
  proof (cases q)
    case (Poll_Err k)
    with Cons.prems show ?thesis by (auto intro: suffix_ConsI)
  next
    case (Poll_Events es)
    with Cons.prems(1) have "tokens_ok es" by simp
    from stuck_events [OF assms(1) this, of "c\<lparr>cn_polls := polls\<rparr>" e] Cons.prems(2) obtain x c1 where
      x: "ReaderHalf_events d es (c\<lparr>cn_polls := polls\<rparr>) = Some (x, c1)" "stuck d (cn_reader c1) e"
      "cn_polls c1 = polls" "x \<noteq> Break_loop" "x = Crash \<longrightarrow> debug_assertions d" by auto
    show ?thesis
    proof (cases x)
      case Go_on
      with x Poll_Events Cons.prems Cons.IH [of c1] show ?thesis by (auto intro: suffix_ConsI)
    qed (use x Poll_Events Cons.prems(3) in \<open>auto intro: suffix_ConsI\<close>)
  qed
qed simp

lemma stuck_consume: "stuck d r e \<Longrightarrow> Reader_consume dbg r = (Ok (), r)"
  by (simp add: stuck_def Reader_consume_def)

lemma stuck_recv:
  assumes "crates_ok d" "\<And>es. Poll_Events es \<in> set (cn_polls c) \<Longrightarrow> tokens_ok es" "stuck d (cn_reader c) e"
    and "Connection_recv d c = Some (res, c')"
  shows "stuck d (cn_reader c') e \<and> suffix (cn_polls c') (cn_polls c) \<and> (res = Panic \<longrightarrow> debug_assertions d)"
proof -
  from assms(4) stuck_consume [OF assms(3)] obtain read where read:
    "ReaderHalf_poll_loop d (cn_polls c) c = Some (read, c')" "res = and_then read (Decode_consume (Packet_parse d))"
    by (auto simp: Connection_recv_def ReaderHalf_recv_def ReaderHalf_poll_event_def)
  from stuck_poll [OF assms(1-3) read(1)] show ?thesis by (cases read) (auto simp: read(2))
qed

section \<open>What every session keeps\<close>

definition session_inv :: "crates \<Rightarrow> Connection \<Rightarrow> bool" where
  "session_inv d c \<longleftrightarrow>
     (reader_ready (cn_reader c) \<or> (\<exists>e. stuck d (cn_reader c) e)) \<and>
     (\<forall>es. Poll_Events es \<in> set (cn_polls c) \<longrightarrow> tokens_ok es)"

lemma session_inv_writer:
  "session_inv d c \<Longrightarrow> on_writer m c = (res, c') \<Longrightarrow> session_inv d c'"
  by (auto simp: session_inv_def on_writer_def split: prod.splits)

lemma session_inv_st_then:
  assumes "session_inv d c" "st_then m f c = (res, c')"
    and "\<And>r c1. m c = (r, c1) \<Longrightarrow> session_inv d c1"
    and "\<And>x r c1 c2. session_inv d c1 \<Longrightarrow> f x c1 = (r, c2) \<Longrightarrow> session_inv d c2"
  shows "session_inv d c'"
  using assms by (cases "m c") (auto simp: st_then_def split: result.splits)

lemma session_inv_poll:
  assumes "crates_ok d" "session_inv d c" "ReaderHalf_poll_event d c = Some (res, c')"
  shows "session_inv d c'"
  using assms(2) poll_outcome [OF assms(1) _ _ assms(3) [unfolded ReaderHalf_poll_event_def]]
    stuck_poll [OF assms(1) _ _ assms(3) [unfolded ReaderHalf_poll_event_def]]
  unfolding session_inv_def by (meson set_mono_suffix subsetD)

lemma session_inv_recv:
  assumes "crates_ok d" "session_inv d c" "Connection_recv d c = Some (res, c')"
  shows "session_inv d c'"
  using assms(2) recv_outcome [OF assms(1) _ _ assms(3) [unfolded Connection_recv_def]]
    stuck_recv [OF assms(1) _ _ assms(3)]
  unfolding session_inv_def by (meson set_mono_suffix subsetD)

lemma session_inv_connect:
  assumes "crates_ok d" "session_inv d c" "Connection_connect d b c = Some (res, c')"
  shows "session_inv d c'"
proof -
  let ?m = "st_then (on_writer (on_inner (Connect_write_sync d b))) (\<lambda>_.
           st_then (on_writer WriterHalf_flush) (\<lambda>_.
           on_writer (st_mod (\<lambda>w. w\<lparr>sent_flag := True\<rparr>))))"
  obtain r c1 where c1: "?m c = (r, c1)" by fastforce
  have "session_inv d c1"
  proof (rule session_inv_st_then [OF assms(2) c1])
    show "session_inv d c1" if "on_writer (on_inner (Connect_write_sync d b)) c = (r, c1)" for r c1
      by (rule session_inv_writer [OF assms(2) that])
    fix r c1 c2
    assume inv: "session_inv d c1"
      and run: "st_then (on_writer WriterHalf_flush) (\<lambda>_. on_writer (st_mod (\<lambda>w. w\<lparr>sent_flag := True\<rparr>))) c1 = (r, c2)"
    show "session_inv d c2"
      by (rule session_inv_st_then [OF inv run]) (rule session_inv_writer [OF inv], assumption,
        rule session_inv_writer)
  qed
  with c1 assms(3) session_inv_poll [OF assms(1), of c1] show ?thesis
    by (auto simp: Connection_connect_def split: result.splits)
qed

lemma session_keeps_inv:
  assumes "crates_ok d" "session d c0 c" "session_inv d c0"
  shows "session_inv d c"
  using assms(2,3)
proof (induction rule: session.induct)
  case (session_connect c b res c')
  then show ?case using session_inv_connect [OF assms(1)] by blast
next
  case (session_recv c res c')
  then show ?case using session_inv_recv [OF assms(1)] by blast
qed (auto simp: Connection_publish_def Connection_subscribe_def Connection_unsubscribe_def
    Connection_disconnect_def intro: session_inv_writer)

section \<open>Correctness\<close>

text \<open>C2: No sequence of operations on a connection makes \<open>recv\<close> panic, whatever bytes and errors the
  socket delivers, whatever events the poll reports for the socket and the timer and whatever fails
  while sending, with one exception: after a malformed header was read. The reader keeps that
  header: in a release build every further \<open>recv\<close> with a readable socket reports the same error
  again, and in a debug build it panics.\<close>

theorem recv_session_safe:
  assumes "crates_ok d" "Connection_create os timeout = Ok c0" "session d c0 c"
    and "\<forall>es. Poll_Events es \<in> set (os_polls os) \<longrightarrow> tokens_ok es"
  shows "(Connection_recv d c = Some (Panic, c') \<longrightarrow> debug_assertions d \<and> (\<exists>e. stuck d (cn_reader c) e)) \<and>
    (stuck d (cn_reader c) e \<and> cn_polls c = Poll_Events (readable # es) # polls \<longrightarrow>
      (\<exists>c'. Connection_recv d c = Some (if debug_assertions d then Panic else Err e, c') \<and>
        stuck d (cn_reader c') e))"
proof (rule conjI; rule impI)
  from Connection_create_Ok [OF assms(2)] assms(4) new_reader_ready have "session_inv d c0"
    by (auto simp: session_inv_def)
  note inv = session_keeps_inv [OF assms(1,3) this]
  assume p: "Connection_recv d c = Some (Panic, c')"
  with recv_outcome [OF assms(1), of c Panic c'] inv have "\<exists>e. stuck d (cn_reader c) e"
    by (auto simp: session_inv_def Connection_recv_def)
  with p stuck_recv [OF assms(1), of c] inv
  show "debug_assertions d \<and> (\<exists>e. stuck d (cn_reader c) e)" by (auto simp: session_inv_def)
next
  assume st: "stuck d (cn_reader c) e \<and> cn_polls c = Poll_Events (readable # es) # polls"
  from stuck_read [of d "cn_reader c" e] st obtain r where
    r: "Reader_read d (cn_reader c) = Some (if debug_assertions d then Panic else Err e, r)" "stuck d r e" by blast
  have "\<not> would_block e" using st next_frame_error_kind by (auto simp: stuck_def)
  with r st stuck_consume [of d "cn_reader c" e] show "\<exists>c'. Connection_recv d c =
      Some (if debug_assertions d then Panic else Err e, c') \<and> stuck d (cn_reader c') e"
    by (cases "debug_assertions d")
      (simp_all add: Connection_recv_def ReaderHalf_recv_def ReaderHalf_poll_event_def READER_token_def)
qed

text \<open>Five bytes that no packet starts with, and the state they leave the reader in.\<close>

abbreviation malformed :: bytes where
  "malformed \<equiv> [0x30, 0x80, 0x80, 0x80, 0x80]"

definition malformed_error :: Error where
  "malformed_error =
     Error_new Invalid ''remaining length continuation flags require more than 4 bytes''"

lemma malformed_next_frame: "FixedHeader_next_frame d malformed = Err malformed_error"
  by (simp add: FixedHeader_next_frame_def slice_from_def malformed_error_def
      count_continue_flags_def has_continue_flag_iff RemainingLength_MAX_BYTES_def)

lemma malformed_read:
  "Reader_read d \<lparr>rd_buf = replicate 8192 0, rd_pos = 0, rd_frame = None, rd_filled = 0,
      rd_inner = Data malformed # cs\<rparr> =
    Some (Err malformed_error, \<lparr>rd_buf = malformed @ replicate 8187 0, rd_pos = 0, rd_frame = None,
      rd_filled = 5, rd_inner = cs\<rparr>)" (is "Reader_read d ?r = Some (_, ?r')")
proof -
  have "FixedHeader_next_frame d [] = Ok None" by (simp add: FixedHeader_next_frame_None)
  then have "Reader_next_frame_loop d ?r = Some (Err malformed_error, ?r')"
    by (subst Reader_next_frame_loop.simps)
      (simp add: Reader_buff_def slice_range_def Reader_fill_head_def sock_read_def write_at_def
        usize_sub_eq usize_add_eq usize_max_def Reader_next_frame_loop.simps malformed_next_frame Let_def)
  then show ?thesis
    by (simp add: Reader_read_def Reader_next_frame_def Reader_backshift_def slice_range_def write_at_def
        usize_sub_eq Let_def)
qed

lemma malformed_stuck:
  "stuck d \<lparr>rd_buf = malformed @ replicate 8187 0, rd_pos = 0, rd_frame = None, rd_filled = 5, rd_inner = cs\<rparr>
    malformed_error"
  using malformed_next_frame [of d] by (simp add: stuck_def reader_inv_def usize_max_def pending_def)

text \<open>The first \<open>recv\<close> reports the header, the second one panics in a debug build.\<close>

theorem recv_session_safe_witness:
  "\<exists>c0 c1 c2. Connection_create (sample_os [Data malformed] (replicate 2 (Poll_Events [readable]))) 10000000000 = Ok c0 \<and>
    Connection_recv (std_crates True) c0 = Some (Err malformed_error, c1) \<and>
    Connection_recv (std_crates True) c1 = Some (Panic, c2)"
proof -
  let ?os = "sample_os [Data malformed] (replicate 2 (Poll_Events [readable]))" and ?d = "std_crates True"
  obtain c0 where c0: "Connection_create ?os 10000000000 = Ok c0" "rd_inner (cn_reader c0) = [Data malformed]"
    using sample_os_create by blast
  from Connection_create_Ok [OF c0(1)] c0(2) have r: "cn_reader c0 = \<lparr>rd_buf = replicate 8192 0, rd_pos = 0,
      rd_frame = None, rd_filled = 0, rd_inner = [Data malformed]\<rparr>"
    "cn_polls c0 = replicate 2 (Poll_Events [readable])" by (auto simp: sample_os_def)
  let ?c1 = "c0\<lparr>cn_polls := [Poll_Events [readable]], cn_reader := \<lparr>rd_buf = malformed @ replicate 8187 0,
      rd_pos = 0, rd_frame = None, rd_filled = 5, rd_inner = []\<rparr>\<rparr>"
  have "\<not> would_block malformed_error" using next_frame_error_kind [OF malformed_next_frame] by simp
  then have run: "Connection_recv ?d c0 = Some (Err malformed_error, ?c1)"
    by (simp add: Connection_recv_def ReaderHalf_recv_def ReaderHalf_poll_event_def Reader_consume_def r
        numeral_2_eq_2 READER_token_def malformed_read)
  then have "session ?d c0 ?c1" using session_recv [OF session_start] by blast
  note reach = this
  have toks: "\<forall>es. Poll_Events es \<in> set (os_polls ?os) \<longrightarrow> tokens_ok es"
    by (simp add: sample_os_def tokens_ok_def READER_token_def)
  have st: "stuck ?d (cn_reader ?c1) malformed_error \<and> cn_polls ?c1 = Poll_Events (readable # []) # []"
    using malformed_stuck [of ?d "[]"] by simp
  have "debug_assertions ?d" by (simp add: std_crates_def)
  with mp [OF conjunct2 [OF recv_session_safe [OF std_crates_ok c0(1) reach toks]] st]
  obtain c2 where "Connection_recv ?d ?c1 = Some (Panic, c2)" by (simp only: if_True) blast
  with run c0(1) show ?thesis by blast
qed

text \<open>The first answer of a server is taken for a CONNACK without a look at its type.\<close>

lemma ConnAck_parse_other_type:
  assumes "crates_ok d" "flags_ok t f" "n \<le> 127"
  shows "debug_assertions d \<Longrightarrow> t \<noteq> ConnAck \<Longrightarrow> ConnAck_parse d (frame_header t f n @ rest) = Panic"
    and "\<not> debug_assertions d \<Longrightarrow>
      ConnAck_parse d (frame_header t f n @ ConnAck_as_bytes a) = Ok (a, [])"
proof -
  assume "debug_assertions d" "t \<noteq> ConnAck"
  with assms(2) show "ConnAck_parse d (frame_header t f n @ rest) = Panic"
    unfolding ConnAck_parse_def FixedHeaderArray_parse_header [OF assms] by (simp add: debug_assert_def)
next
  assume "\<not> debug_assertions d"
  moreover have "\<not> has_continue_flag (word_of_nat n)"
    using assms(3) by (simp add: has_continue_flag_iff unat_of_nat)
  ultimately show "ConnAck_parse d (frame_header t f n @ ConnAck_as_bytes a) = Ok (a, [])"
    unfolding ConnAck_parse_iff [OF assms(1)] frame_header_short [OF assms(3)] using assms(2)
    by (intro exI [of _ t] exI [of _ f] exI [of _ "word_of_nat n"]) simp
qed

lemma ack_as_connack:
  assumes "crates_ok d"
    and "unat k = 256 * unat (connack_flags a) + unat (u8_from_ReturnCode (connack_return_code a))"
  shows "zc_u16_as_bytes d k = ConnAck_as_bytes a"
proof -
  have "unat (u8_from_ReturnCode (connack_return_code a)) < 256"
    using unsigned_less [of "u8_from_ReturnCode (connack_return_code a)"] by simp
  with assms(2) have "unat k div 256 = unat (connack_flags a)"
    "unat k mod 256 = unat (u8_from_ReturnCode (connack_return_code a))" by simp_all
  with assms(1) show ?thesis by (simp add: zerocopy_laws(8) ConnAck_as_bytes_def)
qed

text \<open>C37: The client takes the first packet that arrives after its CONNECT for the answer and only asserts
  that it is a CONNACK. In a debug build any other short packet makes \<open>connect\<close> panic. In a release
  build the acknowledgement of a packet, such as a PUBACK, is taken for a CONNACK: its packet
  identifier is read as the session flag and the return code, so that identifier 256 accepts the
  connection.\<close>

theorem connect_takes_any_packet:
  assumes "crates_ok d" "Connection_create os timeout = Ok c" "faults (w_inner (cn_writer c)) = []"
    and "connect_sendable d b" "packet_ok p" "rd_inner (cn_reader c) = Data (packet_bytes d p) # cs"
    and "os_polls os = Poll_Events [readable] # polls" "length (packet_bytes d p) \<le> 129"
    and "packet_type p \<noteq> ConnAck"
  shows "(debug_assertions d \<longrightarrow> (\<exists>c'. Connection_connect d b c = Some (Panic, c'))) \<and>
    (\<not> debug_assertions d \<and> p = Send_PubAck k \<and>
       unat k = 256 * unat (connack_flags a) + unat (u8_from_ReturnCode (connack_return_code a)) \<longrightarrow>
      (\<exists>c'. Connection_connect d b c = Some (Ok a, c')))"
proof -
  from connect_first_packet_run [OF assms(1-5) _ assms(6,7)] assms(8) obtain c' where
    run: "Connection_connect d b c = Some (Decode_consume (ConnAck_parse d) (packet_bytes d p), c')" by auto
  from packet_bytes_framed [OF assms(1,5)] obtain n body where f: "n \<le> max_remaining" "length body = n"
    "flags_ok (packet_type p) (packet_flags p)"
    "packet_bytes d p = frame_header (packet_type p) (packet_flags p) n @ body" by blast
  have n: "n \<le> 127" using f assms(8) length_frame_header_bounds(1) [OF f(1), of "packet_type p" "packet_flags p"] by simp
  have "Decode_consume (ConnAck_parse d) (packet_bytes d p) = Panic" if "debug_assertions d"
    using ConnAck_parse_other_type(1) [OF assms(1) f(3) n that assms(9)] f(4) by simp
  moreover have "Decode_consume (ConnAck_parse d) (packet_bytes d p) = Ok a"
    if "\<not> debug_assertions d" "p = Send_PubAck k"
      "unat k = 256 * unat (connack_flags a) + unat (u8_from_ReturnCode (connack_return_code a))"
    using ConnAck_parse_other_type(2) [OF assms(1) flags_ok_default _ that(1), of 2 PubAck a]
      ack_as_connack [OF assms(1) that(3)] that(2) by (simp add: pkid_packet_def)
  ultimately show ?thesis using run by auto
qed

theorem connect_takes_any_packet_witness:
  "\<exists>c c'. Connection_create (sample_os [Data [0x40, 2, 1, 0]] [Poll_Events [readable]]) 10000000000 = Ok c \<and>
    Connection_connect (std_crates False) (sample_connect (std_crates False)) c =
      Some (Ok (ConnAck_new SESSION_PRESENT Accepted), c')"
proof -
  let ?d = "std_crates False" and ?os = "sample_os [Data [0x40, 2, 1, 0]] [Poll_Events [readable]]"
  obtain c where c: "Connection_create ?os 10000000000 = Ok c" "w_inner (cn_writer c) = vec_writer"
    "rd_inner (cn_reader c) = [Data [0x40, 2, 1, 0]]" using sample_os_create by blast
  have bytes: "packet_bytes ?d (Send_PubAck 256) = [0x40, 2, 1, 0]" by code_simp
  have f: "faults (w_inner (cn_writer c)) = []" by (simp add: c(2) vec_writer_def)
  have s: "rd_inner (cn_reader c) = Data (packet_bytes ?d (Send_PubAck 256)) # []"
    using c(3) bytes by (simp only:)
  have o: "os_polls ?os = Poll_Events [readable] # []" by (simp add: sample_os_def)
  have l: "length (packet_bytes ?d (Send_PubAck 256)) \<le> 129" by (simp only: bytes) simp
  have k: "\<not> debug_assertions ?d \<and> Send_PubAck 256 = Send_PubAck (256 :: u16) \<and>
      unat (256 :: u16) = 256 * unat (connack_flags (ConnAck_new SESSION_PRESENT Accepted)) +
        unat (u8_from_ReturnCode (connack_return_code (ConnAck_new SESSION_PRESENT Accepted)))"
    by (simp add: SESSION_PRESENT_def ConnAck_new_def std_crates_def)
  have p: "packet_ok (Send_PubAck 256)" "packet_type (Send_PubAck 256) \<noteq> ConnAck" by simp_all
  from mp [OF conjunct2 [OF connect_takes_any_packet [OF std_crates_ok c(1) f
        sample_connect_sendable(1) [OF std_crates_ok] p(1) s o l p(2)]] k] c(1)
  show ?thesis by blast
qed

end
