(* ===== verification/Sync_Calls.thy ===== *)
theory Sync_Calls
  imports Sync_Writer
begin

text \<open>
  The calls a sending operation makes. A packet is not written in one piece: every part is one call
  of \<open>write_all\<close>. This theory says which calls each packet of the client consists of, in which order,
  and that an operation makes exactly these calls or stops at the one that fails.
\<close>

section \<open>The calls of an operation\<close>

primrec run_calls :: "bytes list \<Rightarrow> writer \<Rightarrow> io_error_kind option \<times> writer" where
  "run_calls [] w = (None, w)"
| "run_calls (c # cs) w =
     (case faults w of
        [] \<Rightarrow> run_calls cs (w\<lparr>sent := sent w @ c\<rparr>)
      | None # fs \<Rightarrow> run_calls cs (w\<lparr>sent := sent w @ c, faults := fs\<rparr>)
      | Some (n, k) # fs \<Rightarrow> (Some k, w\<lparr>sent := sent w @ take n c, faults := fs\<rparr>))"

text \<open>The operation makes exactly these calls and returns \<open>v\<close>, or stops at the one that fails.\<close>

definition performs :: "'a wr \<Rightarrow> 'a \<Rightarrow> bytes list \<Rightarrow> bool" where
  "performs m v cs \<longleftrightarrow>
     (\<forall>w. case run_calls cs w of
        (None, w') \<Rightarrow> m w = (Ok v, w')
      | (Some k, w') \<Rightarrow> (\<exists>e. kind e = StdIo k \<and> m w = (Err e, w')))"

named_theorems call_intro \<open>composition rules for the calls of a writer\<close>

lemma run_calls_append:
  "run_calls (cs @ ds) w =
     (case run_calls cs w of (None, w') \<Rightarrow> run_calls ds w' | (Some k, w') \<Rightarrow> (Some k, w'))"
  by (induction cs arbitrary: w) (auto split: list.splits option.splits)

lemma performs_lift [call_intro]: "r = Ok v \<Longrightarrow> performs (w_lift r) v []"
  by (simp add: performs_def w_lift_def)

lemma performs_write_all [call_intro]: "performs (write_all m c) () [c]"
  by (auto simp: performs_def write_all_def split: list.splits option.splits)

lemma performs_then [call_intro]:
  assumes "performs m a cs" "performs (f a) b ds" "es = cs @ ds"
  shows "performs (w_then m f) b es"
  unfolding performs_def
proof
  fix w
  obtain k w1 where r: "run_calls cs w = (k, w1)" by fastforce
  from assms(1) have m: "case run_calls cs w of (None, w') \<Rightarrow> m w = (Ok a, w')
      | (Some k, w') \<Rightarrow> \<exists>e. kind e = StdIo k \<and> m w = (Err e, w')" by (simp add: performs_def)
  from assms(2) have f: "case run_calls ds w1 of (None, w') \<Rightarrow> f a w1 = (Ok b, w')
      | (Some k, w') \<Rightarrow> \<exists>e. kind e = StdIo k \<and> f a w1 = (Err e, w')" by (simp add: performs_def)
  show "case run_calls es w of (None, w') \<Rightarrow> w_then m f w = (Ok b, w')
      | (Some k, w') \<Rightarrow> \<exists>e. kind e = StdIo k \<and> w_then m f w = (Err e, w')"
    using r m f
    by (cases k) (auto simp: assms(3) run_calls_append w_then_def split: prod.splits option.splits)
qed

lemma performs_map_err [call_intro]:
  assumes "performs m v cs" "\<And>e. kind (g e) = kind e"
  shows "performs (w_map_err g m) v cs"
  unfolding performs_def
proof
  fix w
  from assms(1) have m: "case run_calls cs w of (None, w') \<Rightarrow> m w = (Ok v, w')
      | (Some k, w') \<Rightarrow> \<exists>e. kind e = StdIo k \<and> m w = (Err e, w')" by (simp add: performs_def)
  show "case run_calls cs w of (None, w') \<Rightarrow> w_map_err g m w = (Ok v, w')
      | (Some k, w') \<Rightarrow> \<exists>e. kind e = StdIo k \<and> w_map_err g m w = (Err e, w')"
    using m assms(2) by (auto simp: w_map_err_def split: prod.splits option.splits)
qed

text \<open>Counting the bytes written so far, as the encoders do.\<close>

lemma performs_count_then:
  assumes "performs m n cs" "a + n \<le> usize_max" "performs (k (a + n)) b ds" "es = cs @ ds"
  shows "performs (w_then m (\<lambda>n. w_then (w_lift (usize_add dbg a n)) k)) b es"
  by (rule performs_then [OF assms(1) _ assms(4)]) (use assms(2,3) in \<open>simp add: usize_add_eq\<close>)

lemma performs_count:
  assumes "performs m n cs" "a + n \<le> usize_max"
  shows "performs (w_then m (\<lambda>n. w_lift (usize_add dbg a n))) (a + n) cs"
  by (rule performs_then [OF assms(1) performs_lift]) (use assms(2) in \<open>simp_all add: usize_add_eq\<close>)

lemma w_try_fold_calls:
  assumes "\<And>x. x \<in> set xs \<Longrightarrow> performs (g x) (length (concat (calls x))) (calls x)"
    and "a + length (concat (concat (map calls xs))) \<le> usize_max"
  shows "performs (w_try_fold (\<lambda>acc x. w_then (g x) (\<lambda>n. w_lift (usize_add dbg acc n))) a xs)
    (a + length (concat (concat (map calls xs)))) (concat (map calls xs))"
  using assms
proof (induction xs arbitrary: a)
  case (Cons x xs)
  have x: "performs (w_then (g x) (\<lambda>n. w_lift (usize_add dbg a n))) (a + length (concat (calls x))) (calls x)"
    by (rule performs_count) (use Cons.prems in auto)
  have "performs (w_try_fold (\<lambda>acc x. w_then (g x) (\<lambda>n. w_lift (usize_add dbg acc n)))
      (a + length (concat (calls x))) xs) (a + length (concat (calls x)) + length (concat (concat (map calls xs))))
      (concat (map calls xs))"
    by (rule Cons.IH) (use Cons.prems in auto)
  with x show ?case by (auto intro!: performs_then [OF x] simp: add.assoc)
qed (simp add: performs_lift)

section \<open>The shared parts\<close>

lemma RemainingLengthSlice_write_sync_calls:
  assumes "len_from_u32 v = Ok n"
  shows "performs (RemainingLengthSlice_write_sync d v) n [rl_bytes v]"
proof -
  have "RemainingLengthSlice_write_sync d v = write_sync_array d n v"
    using assms by (simp add: RemainingLengthSlice_write_sync_eq)
  moreover have "encode_to_array d n v = Ok (rl_bytes v)"
    using assms by (simp add: encode_to_array_def rl_bytes_def)
  ultimately show ?thesis unfolding write_sync_array_def by (auto intro!: call_intro)
qed

lemma FixedHeader_calls:
  assumes "crates_ok d" "flags_ok t f" "n \<le> max_remaining"
  shows "performs (FixedHeaderBuilder_write_sync d
      \<lparr>fhb_packet_type = t, fhb_flags = f, fhb_remaining_length = word_of_nat n\<rparr>)
      (length (frame_header t f n)) [[encode_type_and_flags t f], rl_bytes (word_of_nat n)]"
proof -
  obtain k where k: "len_from_u32 (word_of_nat n) = Ok k" "length (frame_header t f n) = k + 1" "k \<le> 4"
    using length_frame_header [OF assms(3)] by blast
  have v: "FixedHeaderSlice_validate_value d
      \<lparr>fhb_packet_type = t, fhb_flags = f, fhb_remaining_length = word_of_nat n\<rparr> = Ok ()"
    using assms k by (simp add: FixedHeaderSlice_validate_value_def RemainingLength_validate_value_def
        validate_type_flags_iff flags_ok_nibble)
  have e: "FixedHeaderSlice_encode_len
      \<lparr>fhb_packet_type = t, fhb_flags = f, fhb_remaining_length = word_of_nat n\<rparr> = Ok (k + 1)"
    using k by (simp add: FixedHeaderSlice_encode_len_def RemainingLengthSlice_encode_len_def
        checked_add_def usize_max_def)
  show ?thesis
    unfolding FixedHeaderBuilder_write_sync_def FixedHeaderSlice_write_sync_def v e w_then_lift_Ok k(2)
    by (auto intro!: call_intro RemainingLengthSlice_write_sync_calls simp: k)
qed

lemma MqttStr_calls:
  assumes "mqtt_str_ok s" "length s \<le> 65535"
  shows "performs (MqttStr_write_sync d s) (2 + length s) [zc_u16_as_bytes d (word_of_nat (length s)), s]"
proof -
  have "usize_add (debug_assertions d) 2 (length s) = Ok (2 + length s)"
    using assms(2) by (intro usize_add_eq) (simp add: usize_max_def)
  moreover have "Buff_validate_value s = Ok (word_of_nat (length s))"
    using assms(2) by (simp add: Buff_validate_value_def)
  moreover have "MqttStr_validate_value s = Ok ()"
    using assms(1) by (simp add: MqttStr_validate_value_def mqtt_str_ok_def)
  ultimately show ?thesis
    unfolding MqttStr_write_sync_def Buff_write_sync_def by (auto intro!: call_intro)
qed

lemma PacketId_calls: "performs (PacketId_write_sync d k) 2 [zc_u16_as_bytes d k]"
  by (auto simp: PacketId_write_sync_def PacketId_validate_value_def intro!: call_intro)

section \<open>PUBLISH\<close>

definition publish_calls :: "crates \<Rightarrow> PublishBuilder \<Rightarrow> bytes list" where
  "publish_calls d b =
     [[encode_type_and_flags Publish (pb_flags b)], rl_bytes (word_of_nat (publish_size b)),
      zc_u16_as_bytes d (word_of_nat (length (pb_topic b))), pb_topic b] @
     (case pb_pkid b of None \<Rightarrow> [] | Some k \<Rightarrow> [zc_u16_as_bytes d k]) @ [pb_payload b]"

lemma concat_publish_calls: "concat (publish_calls d b) = publish_packet d b"
  by (simp add: publish_calls_def publish_packet_def frame_header_def buff_bytes_def pkid_bytes_def
      split: option.split)

lemma Publish_write_sync_calls:
  assumes "crates_ok d" "publish_sendable b"
  shows "performs (Publish_write_sync d b) (length (publish_packet d b)) (publish_calls d b)"
proof -
  note b = publish_sendableD [OF assms(2)]
  let ?h = "length (frame_header Publish (pb_flags b) (publish_size b))"
  let ?t = "2 + length (pb_topic b)" and ?p = "length (pkid_bytes d (pb_pkid b))"
  let ?kc = "case pb_pkid b of None \<Rightarrow> [] | Some k \<Rightarrow> [zc_u16_as_bytes d k]"
  have sz: "publish_size b = ?t + ?p + length (pb_payload b)"
    using assms(1) by (simp add: publish_size_def length_pkid_bytes split: option.split)
  have fits: "?h + ?t + ?p + length (pb_payload b) \<le> usize_max"
    using length_frame_header_bounds(2) [OF b(5), of Publish "pb_flags b"] b(5) sz by (simp add: usize_max_def)
  have v: "Publish_validate_value d b = Ok ()"
    using assms(1) b(3) by (simp add: Publish_validate_value_def contains_wildcard_char_iff)
  have hb: "FixedHeaderBuilder_remaining_length (FixedHeaderBuilder_with_flags Publish (pb_flags b)) (publish_size b) =
      Ok \<lparr>fhb_packet_type = Publish, fhb_flags = pb_flags b, fhb_remaining_length = word_of_nat (publish_size b)\<rparr>"
    using b(5) by (simp add: FixedHeaderBuilder_remaining_length_def FixedHeaderBuilder_with_flags_def)
  have pk: "performs (case pb_pkid b of None \<Rightarrow> w_lift (Ok (?h + ?t))
       | Some pk \<Rightarrow> w_then (PacketId_write_sync d pk) (\<lambda>n. w_lift (usize_add (debug_assertions d) (?h + ?t) n)))
      (?h + ?t + ?p) ?kc"
  proof (cases "pb_pkid b")
    case None
    then show ?thesis by (simp add: pkid_bytes_def performs_lift)
  next
    case (Some k)
    have "usize_add (debug_assertions d) (?h + ?t) 2 = Ok (?h + ?t + 2)"
      using fits Some assms(1) by (intro usize_add_eq) (simp add: pkid_bytes_def)
    with Some assms(1) show ?thesis
      by (auto simp: PacketId_write_sync_def PacketId_validate_value_def pkid_bytes_def intro!: call_intro)
  qed
  let ?m = "''while writing PUBLISH payload''"
  have pay: "performs (w_then (write_all ?m (pb_payload b))
      (\<lambda>_. w_lift (usize_add (debug_assertions d) (?h + ?t + ?p) (length (pb_payload b)))))
      (?h + ?t + ?p + length (pb_payload b)) [pb_payload b]"
    using fits by (auto simp: usize_add_eq intro!: call_intro)
  have tail: "performs (w_then (case pb_pkid b of None \<Rightarrow> w_lift (Ok (?h + ?t))
       | Some pk \<Rightarrow> w_then (PacketId_write_sync d pk) (\<lambda>n. w_lift (usize_add (debug_assertions d) (?h + ?t) n)))
      (\<lambda>written. w_then (write_all ?m (pb_payload b))
        (\<lambda>_. w_lift (usize_add (debug_assertions d) written (length (pb_payload b))))))
      (?h + ?t + ?p + length (pb_payload b)) (?kc @ [pb_payload b])"
    by (rule performs_then [OF pk _ refl]) (rule pay)
  have total: "length (publish_packet d b) = ?h + ?t + ?p + length (pb_payload b)"
    using assms(1) by (simp add: length_publish_packet sz)
  have calls: "publish_calls d b =
      [[encode_type_and_flags Publish (pb_flags b)], rl_bytes (word_of_nat (publish_size b))] @
      [zc_u16_as_bytes d (word_of_nat (length (pb_topic b))), pb_topic b] @ ?kc @ [pb_payload b]"
    by (simp add: publish_calls_def)
  show ?thesis
    unfolding Publish_write_sync_def v Publish_encode_len_eq [OF b(5)] hb w_then_lift_Ok total calls
    apply (rule performs_then [OF FixedHeader_calls [OF assms(1) b(1,5)] _ refl])
    apply (rule performs_count_then [OF MqttStr_calls [OF b(2,4)] _ _ refl])
    subgoal using fits by simp
    by (rule tail)
qed

section \<open>SUBSCRIBE and UNSUBSCRIBE\<close>

definition mqtt_str_calls :: "crates \<Rightarrow> bytes \<Rightarrow> bytes list" where
  "mqtt_str_calls d s = [zc_u16_as_bytes d (word_of_nat (length s)), s]"

definition filter_calls :: "crates \<Rightarrow> SubscribeFilter \<Rightarrow> bytes list" where
  "filter_calls d f = mqtt_str_calls d (sf_topic f) @ [[RequestedQos_as_byte (sf_qos f)]]"

lemma concat_filter_calls:
  "concat (mqtt_str_calls d s) = buff_bytes d s" "concat (filter_calls d f) = filter_bytes d f"
  by (simp_all add: filter_calls_def filter_bytes_def mqtt_str_calls_def buff_bytes_def)

lemma concat_map_calls:
  "(\<And>x. concat (calls x) = enc x) \<Longrightarrow> concat (concat (map calls xs)) = concat (map enc xs)"
  by (induction xs) simp_all

lemma TopicFilter_calls:
  assumes "crates_ok d" "filter_ok f"
  shows "performs (TopicFilter_write_sync d f) (length (filter_bytes d f)) (filter_calls d f)"
proof -
  from assms(2) have f: "mqtt_str_ok (sf_topic f)" "length (sf_topic f) \<le> 65535"
    by (simp_all add: filter_ok_def)
  have l: "length (filter_bytes d f) = 2 + length (sf_topic f) + 1"
    using assms(1) by (simp add: filter_bytes_def)
  have "usize_add (debug_assertions d) (2 + length (sf_topic f)) 1 = Ok (2 + length (sf_topic f) + 1)"
    using f(2) by (intro usize_add_eq) (simp add: usize_max_def)
  then show ?thesis
    unfolding TopicFilter_write_sync_def TopicFilter_validate_value_ok [OF assms] w_then_lift_Ok l filter_calls_def
    by (intro performs_then [OF MqttStr_calls [OF f] _ refl, folded mqtt_str_calls_def]) (auto intro!: call_intro)
qed

definition filters_calls :: "ControlPacketType \<Rightarrow> crates \<Rightarrow> u16 \<Rightarrow> bytes list list \<Rightarrow> bytes list" where
  "filters_calls t d k css =
     [[encode_type_and_flags t (default_flags t)],
      rl_bytes (word_of_nat (2 + length (concat (concat css)))), zc_u16_as_bytes d k] @ concat css"

lemma concat_filters_calls:
  "concat (filters_calls t d k css) = filters_packet t d k (concat (concat css))"
  by (simp add: filters_calls_def filters_packet_def frame_header_def)

lemma filters_write_calls:
  assumes "crates_ok d" "\<And>x. concat (calls x) = enc x" "2 + length (concat (map enc vs)) \<le> max_remaining"
    and "\<And>x. x \<in> set vs \<Longrightarrow> performs (g x) (length (enc x)) (calls x)"
  shows "performs
    (w_then (w_lift (FixedHeaderBuilder_remaining_length (FixedHeaderBuilder_new t)
        (2 + length (concat (map enc vs))))) (\<lambda>b.
     w_then (FixedHeaderBuilder_write_sync d b) (\<lambda>written.
     w_then (PacketId_write_sync d k) (\<lambda>n.
     w_then (w_lift (usize_add (debug_assertions d) written n)) (\<lambda>written.
     w_try_fold (\<lambda>acc filter.
       w_then (g filter) (\<lambda>n. w_lift (usize_add (debug_assertions d) acc n))) written vs)))))
    (length (filters_packet t d k (concat (map enc vs)))) (filters_calls t d k (map calls vs))"
proof -
  let ?n = "2 + length (concat (map enc vs))"
  let ?h = "length (frame_header t (default_flags t) ?n)"
  have total: "concat (concat (map calls vs)) = concat (map enc vs)" by (rule concat_map_calls [OF assms(2)])
  have fits: "?h + 2 + length (concat (map enc vs)) \<le> usize_max"
    using length_frame_header_bounds(2) [OF assms(3), of t "default_flags t"] assms(3) by (simp add: usize_max_def)
  have b: "FixedHeaderBuilder_remaining_length (FixedHeaderBuilder_new t) ?n =
      Ok \<lparr>fhb_packet_type = t, fhb_flags = default_flags t, fhb_remaining_length = word_of_nat ?n\<rparr>"
    using assms(3) by (simp add: FixedHeaderBuilder_remaining_length_def FixedHeaderBuilder_new_def
        FixedHeaderBuilder_with_flags_def)
  have loop: "performs (w_try_fold (\<lambda>acc filter.
       w_then (g filter) (\<lambda>n. w_lift (usize_add (debug_assertions d) acc n))) (?h + 2) vs)
       (?h + 2 + length (concat (map enc vs))) (concat (map calls vs))"
    using w_try_fold_calls [where g = g and calls = calls and a = "?h + 2" and xs = vs] assms(2,4) fits
    unfolding total by simp
  have len: "length (filters_packet t d k (concat (map enc vs))) = ?h + 2 + length (concat (map enc vs))"
    using assms(1) by (simp add: length_filters_packet)
  have calls: "filters_calls t d k (map calls vs) = [[encode_type_and_flags t (default_flags t)],
      rl_bytes (word_of_nat ?n)] @ [zc_u16_as_bytes d k] @ concat (map calls vs)"
    by (simp only: filters_calls_def total) simp
  show ?thesis
    unfolding b w_then_lift_Ok len calls
    by (rule performs_then [OF FixedHeader_calls [OF assms(1) flags_ok_default assms(3)] _ refl],
        rule performs_count_then [OF PacketId_calls _ _ refl]) (use fits loop in simp_all)
qed

definition subscribe_calls :: "crates \<Rightarrow> SubscribeBuilder \<Rightarrow> bytes list" where
  "subscribe_calls d b = filters_calls Subscribe d (sb_pkid b) (map (filter_calls d) (sb_filters b))"

definition unsubscribe_calls :: "crates \<Rightarrow> UnsubscribeBuilder \<Rightarrow> bytes list" where
  "unsubscribe_calls d b = filters_calls Unsubscribe d (ub_pkid b) (map (mqtt_str_calls d) (ub_filters b))"

lemma concat_subscribe_calls:
  "concat (subscribe_calls d sb) = subscribe_packet d sb"
  "concat (unsubscribe_calls d ub) = unsubscribe_packet d ub"
  by (simp_all add: subscribe_calls_def unsubscribe_calls_def concat_filters_calls subscribe_packet_def
      unsubscribe_packet_def concat_map_calls concat_filter_calls)

lemma Subscribe_write_sync_calls:
  assumes "crates_ok d" "subscribe_ok d b"
  shows "performs (Subscribe_write_sync d b) (length (subscribe_packet d b)) (subscribe_calls d b)"
proof -
  from assms(2) have b: "list_all filter_ok (sb_filters b)"
    "2 + length (concat (map (filter_bytes d) (sb_filters b))) \<le> max_remaining"
    by (simp_all add: subscribe_ok_def)
  show ?thesis
    unfolding Subscribe_write_sync_def Subscribe_encode_len_eq [OF assms] subscribe_calls_def
      Subscribe_validate_value_ok [OF assms(1) b(1)] w_then_lift_Ok subscribe_packet_def
    by (rule filters_write_calls [OF assms(1) concat_filter_calls(2) b(2)])
      (use b(1) assms(1) in \<open>auto simp: list_all_iff intro: TopicFilter_calls\<close>)
qed

lemma Unsubscribe_write_sync_calls:
  assumes "crates_ok d" "unsubscribe_ok d b"
  shows "performs (Unsubscribe_write_sync d b) (length (unsubscribe_packet d b)) (unsubscribe_calls d b)"
proof -
  from assms(2) have b: "list_all topic_ok (ub_filters b)"
    "2 + length (concat (map (buff_bytes d) (ub_filters b))) \<le> max_remaining"
    by (simp_all add: unsubscribe_ok_def)
  have "performs (MqttStr_write_sync d s) (length (buff_bytes d s)) (mqtt_str_calls d s)" if "s \<in> set (ub_filters b)" for s
    using MqttStr_calls [of s d] that b(1) assms(1) by (auto simp: list_all_iff topic_ok_def mqtt_str_calls_def)
  then show ?thesis
    unfolding Unsubscribe_write_sync_def Unsubscribe_encode_len_eq [OF assms] unsubscribe_calls_def
      Unsubscribe_validate_value_ok [OF assms(1) b(1)] w_then_lift_Ok unsubscribe_packet_def
    by (intro filters_write_calls [OF assms(1) concat_filter_calls(1) b(2)])
qed

section \<open>Every operation\<close>

definition unit_calls :: "ControlPacketType \<Rightarrow> bytes list" where
  "unit_calls t = [[encode_type_and_flags t (default_flags t)], [0]]"

lemma concat_unit_calls: "concat (unit_calls t) = unit_packet t"
  by (simp add: unit_calls_def unit_packet_def)

lemma unit_write_calls:
  assumes "crates_ok d"
  shows "performs (FixedHeaderBuilder_write_sync d (FixedHeaderBuilder_new t)) 2 (unit_calls t)"
proof -
  have "rl_bytes 0 = [0]" using frame_header_short [of 0 t 0] by (simp add: frame_header_def)
  with FixedHeader_calls [OF assms flags_ok_default, of 0 t] show ?thesis
    by (simp add: FixedHeaderBuilder_new_def FixedHeaderBuilder_with_flags_def unit_calls_def frame_header_short
        numeral_2_eq_2)
qed

text \<open>The packet of an operation and the code that writes it; for a tick that is the ping.\<close>

primrec op_write :: "crates \<Rightarrow> client_op \<Rightarrow> usize wr" where
  "op_write d (Op_Publish b) = Publish_write_sync d b"
| "op_write d (Op_Subscribe b) = Subscribe_write_sync d b"
| "op_write d (Op_Unsubscribe b) = Unsubscribe_write_sync d b"
| "op_write d Op_Disconnect = Disconnect_write_sync d"
| "op_write d Tick = PingReq_write_sync d"

primrec op_calls :: "crates \<Rightarrow> client_op \<Rightarrow> bytes list" where
  "op_calls d (Op_Publish b) = publish_calls d b"
| "op_calls d (Op_Subscribe b) = subscribe_calls d b"
| "op_calls d (Op_Unsubscribe b) = unsubscribe_calls d b"
| "op_calls d Op_Disconnect = unit_calls Disconnect"
| "op_calls d Tick = unit_calls PingReq"

lemma op_write_calls:
  assumes "crates_ok d" "op_ok d x"
  shows "performs (op_write d x) (length (concat (op_calls d x))) (op_calls d x)"
  using assms
  by (cases x) (simp_all add: Publish_write_sync_calls Subscribe_write_sync_calls Unsubscribe_write_sync_calls
      unit_write_calls concat_publish_calls concat_subscribe_calls concat_unit_calls unit_packet_def
      numeral_2_eq_2 [symmetric] Disconnect_write_sync_def PingReq_write_sync_def)

lemma concat_op_calls: "x \<noteq> Tick \<Longrightarrow> concat (op_calls d x) = op_packet d x"
  by (cases x) (simp_all add: concat_publish_calls concat_subscribe_calls concat_unit_calls)

lemma op_calls_first:
  "\<exists>b cs. op_calls d x = [b] # cs"
  by (cases x) (simp_all add: publish_calls_def subscribe_calls_def unsubscribe_calls_def filters_calls_def
      unit_calls_def)

end
