(* ===== verification/Sync_Concurrent.thy ===== *)
theory Sync_Concurrent
  imports Sync_Calls
begin

text \<open>
  Several threads that send through one connection. \<open>Sender\<close> takes \<open>&self\<close> and writes to the
  shared socket without a lock, and \<open>sent_flag\<close> is an atomic both halves share, so the calls of two
  packets may alternate and a tick may fall between them. A step is one call of \<open>write_all\<close> or one
  access to the flag by one thread. The socket does not fail here, a call is not cut in two, and flushing
  is no step, because a TCP socket has nothing to flush. The borrow rules keep \<open>recv\<close>, which handles the
  ticks, from running while another thread sends through the same \<open>Connection\<close>; the writer half
  itself is shared between both halves, and its ticks are part of the model.
\<close>

section \<open>Definitions\<close>

text \<open>What a thread has left to do: \<open>Store_flag\<close> is \<open>sent_flag.store\<close>, \<open>Ping\<close> the compare and exchange
  with which \<open>handle_ping\<close> begins.\<close>

datatype instr = Write_all bytes | Store_flag bool | Ping

definition ping_code :: "instr list" where
  "ping_code = map Write_all (unit_calls PingReq) @ [Store_flag False]"

primrec op_code :: "crates \<Rightarrow> client_op \<Rightarrow> instr list" where
  "op_code d (Op_Publish b) = map Write_all (publish_calls d b) @ [Store_flag True]"
| "op_code d (Op_Subscribe b) = map Write_all (subscribe_calls d b) @ [Store_flag True]"
| "op_code d (Op_Unsubscribe b) = map Write_all (unsubscribe_calls d b) @ [Store_flag True]"
| "op_code d Op_Disconnect = map Write_all (unit_calls Disconnect)"
| "op_code d Tick = [Ping]"

definition thread_code :: "crates \<Rightarrow> client_op list \<Rightarrow> instr list" where
  "thread_code d xs = concat (map (op_code d) xs)"

text \<open>A step of thread \<open>i\<close>, labelled with the thread and the bytes it puts on the wire.\<close>

type_synonym label = "nat \<times> bytes"

inductive thread_step :: "instr list list \<times> bool \<Rightarrow> label \<Rightarrow> instr list list \<times> bool \<Rightarrow> bool" where
  write_all: "i < length ts \<Longrightarrow> ts ! i = Write_all c # is \<Longrightarrow> thread_step (ts, fl) (i, c) (ts[i := is], fl)"
| store_flag: "i < length ts \<Longrightarrow> ts ! i = Store_flag b # is \<Longrightarrow> thread_step (ts, fl) (i, []) (ts[i := is], b)"
| already_sent: "i < length ts \<Longrightarrow> ts ! i = Ping # is \<Longrightarrow> thread_step (ts, True) (i, []) (ts[i := is], False)"
| send_ping: "i < length ts \<Longrightarrow> ts ! i = Ping # is \<Longrightarrow>
    thread_step (ts, False) (i, []) (ts[i := ping_code @ is], False)"

inductive thread_run :: "instr list list \<times> bool \<Rightarrow> label list \<Rightarrow> instr list list \<times> bool \<Rightarrow> bool" where
  run_done: "thread_run s [] s"
| run_step: "thread_step s z s' \<Longrightarrow> thread_run s' zs t \<Longrightarrow> thread_run s (z # zs) t"

inductive_cases thread_step_E: "thread_step (ts, fl) z t"
inductive_cases thread_run_E: "thread_run s zs t"

text \<open>All threads perform their operations to the end; the schedule is the sequence of labels.\<close>

definition runs :: "crates \<Rightarrow> client_op list list \<Rightarrow> bool \<Rightarrow> label list \<Rightarrow> bool \<Rightarrow> bool" where
  "runs d tss fl zs fl' \<longleftrightarrow>
     thread_run (map (thread_code d) tss, fl) zs (replicate (length tss) [], fl')"

definition on_wire :: "label list \<Rightarrow> bytes" where
  "on_wire zs = concat (map snd zs)"

definition calls_by :: "nat \<Rightarrow> label list \<Rightarrow> bytes list" where
  "calls_by i zs = map snd (filter (\<lambda>z. fst z = i) zs)"

text \<open>What a thread may put on the wire: its packets in order, and at a tick a ping or nothing.\<close>

primrec may_send :: "crates \<Rightarrow> client_op list \<Rightarrow> bytes \<Rightarrow> bool" where
  "may_send d [] bs \<longleftrightarrow> bs = []"
| "may_send d (x # xs) bs \<longleftrightarrow>
     (\<exists>cs. bs = op_packet d x @ cs \<and> may_send d xs cs) \<or>
     (x = Tick \<and> (\<exists>cs. bs = unit_packet PingReq @ cs \<and> may_send d xs cs))"

section \<open>What each thread sends\<close>

primrec code_sends :: "instr list \<Rightarrow> bytes \<Rightarrow> bool" where
  "code_sends [] bs \<longleftrightarrow> bs = []"
| "code_sends (i # is) bs \<longleftrightarrow>
     (case i of
        Write_all c \<Rightarrow> \<exists>cs. bs = c @ cs \<and> code_sends is cs
      | Store_flag b \<Rightarrow> code_sends is bs
      | Ping \<Rightarrow> code_sends is bs \<or> (\<exists>cs. bs = unit_packet PingReq @ cs \<and> code_sends is cs))"

lemma code_sends_writes:
  "code_sends (map Write_all cs @ is) bs \<longleftrightarrow> (\<exists>rest. bs = concat cs @ rest \<and> code_sends is rest)"
  by (induction cs arbitrary: bs) auto

lemma code_sends_ping: "code_sends (ping_code @ is) bs \<longleftrightarrow> (\<exists>cs. bs = unit_packet PingReq @ cs \<and> code_sends is cs)"
  by (simp add: ping_code_def code_sends_writes concat_unit_calls)

lemma code_sends_thread: "code_sends (thread_code d xs) bs \<longleftrightarrow> may_send d xs bs"
proof (induction xs arbitrary: bs)
  case (Cons x xs)
  have "code_sends (op_code d x @ thread_code d xs) bs \<longleftrightarrow>
      (\<exists>cs. bs = op_packet d x @ cs \<and> code_sends (thread_code d xs) cs) \<or>
      (x = Tick \<and> (\<exists>cs. bs = unit_packet PingReq @ cs \<and> code_sends (thread_code d xs) cs))"
    by (cases x) (simp_all add: code_sends_writes concat_publish_calls concat_subscribe_calls concat_unit_calls)
  with Cons.IH show ?case by (simp add: thread_code_def)
qed (simp add: thread_code_def)

lemma step_sends:
  assumes "thread_step (ts, fl) (i, c) (ts', fl')"
  shows "i < length ts \<and> length ts' = length ts \<and> (\<forall>j. j \<noteq> i \<longrightarrow> ts' ! j = ts ! j) \<and>
    (\<forall>bs. code_sends (ts' ! i) bs \<longrightarrow> code_sends (ts ! i) (c @ bs))"
  using assms by (rule thread_step_E) (auto simp: code_sends_ping)

lemma nth_replicate_Nil: "replicate n [] = ts \<Longrightarrow> i < n \<Longrightarrow> ts ! i = []"
  by auto

lemma run_sends:
  assumes "thread_run s zs t" "s = (ts, fl)" "t = (replicate (length ts) [], fl')" "i < length ts"
  shows "code_sends (ts ! i) (concat (calls_by i zs))"
  using assms
proof (induction arbitrary: ts fl rule: thread_run.induct)
  case (run_step s z s' zs t)
  obtain j c where z: "z = (j, c)" by fastforce
  obtain ts1 fl1 where s': "s' = (ts1, fl1)" by fastforce
  from step_sends [of ts fl j c ts1 fl1] run_step.hyps(1) run_step.prems(1) z s' have st:
    "length ts1 = length ts" "\<forall>k. k \<noteq> j \<longrightarrow> ts1 ! k = ts ! k"
    "\<forall>bs. code_sends (ts1 ! j) bs \<longrightarrow> code_sends (ts ! j) (c @ bs)" by auto
  with run_step.IH [OF s'] run_step.prems have "code_sends (ts1 ! i) (concat (calls_by i zs))" by simp
  with st show ?case by (cases "i = j") (simp_all add: z calls_by_def)
qed (auto simp: calls_by_def dest: nth_replicate_Nil)

section \<open>Every interleaving happens\<close>

primrec calls_of :: "instr list \<Rightarrow> bytes list" where
  "calls_of [] = []"
| "calls_of (i # is) = (case i of Write_all c \<Rightarrow> c # calls_of is | _ \<Rightarrow> calls_of is)"

lemma calls_of_append: "calls_of (is @ js) = calls_of is @ calls_of js"
  by (induction "is") (auto split: instr.split)

lemma calls_of_writes [simp]: "calls_of (map Write_all cs) = cs"
  by (induction cs) simp_all

lemma calls_of_thread: "Tick \<notin> set xs \<Longrightarrow> calls_of (thread_code d xs) = concat (map (op_calls d) xs)"
proof (induction xs)
  case (Cons x xs)
  then have "calls_of (op_code d x) = op_calls d x" by (cases x) (simp_all add: calls_of_append)
  with Cons show ?case by (simp add: thread_code_def calls_of_append)
qed (simp add: thread_code_def)

lemma Ping_thread: "Tick \<notin> set xs \<Longrightarrow> Ping \<notin> set (thread_code d xs)"
proof -
  assume "Tick \<notin> set xs"
  moreover have "Ping \<in> set (op_code d x) \<Longrightarrow> x = Tick" for x by (cases x) auto
  ultimately show ?thesis by (auto simp: thread_code_def)
qed

lemma sum_update:
  fixes ts :: "'a list list"
  assumes "i < length ts" "length (ts ! i) = Suc (length is)"
  shows "sum_list (map length (ts[i := is])) < sum_list (map length ts)"
proof -
  have "sum_list (map length ts) \<ge> Suc (length is)"
    using elem_le_sum_list [of i "map length ts"] assms by simp
  with assms show ?thesis by (simp add: map_update sum_list_update)
qed

lemma interleaving_runs:
  assumes "\<And>i. i < length ts \<Longrightarrow> Ping \<notin> set (ts ! i)"
    and "\<And>i. i < length ts \<Longrightarrow> calls_by i zs = calls_of (ts ! i)" "\<And>z. z \<in> set zs \<Longrightarrow> fst z < length ts"
  shows "\<exists>ys fl'. thread_run (ts, fl) ys (replicate (length ts) [], fl') \<and> on_wire ys = on_wire zs"
  using assms
proof (induction "sum_list (map length ts)" arbitrary: ts zs fl rule: less_induct)
  case less
  consider (store) i b "is" where "i < length ts" "ts ! i = Store_flag b # is"
    | (heads) "\<And>i. i < length ts \<Longrightarrow> ts ! i = [] \<or> (\<exists>c is. ts ! i = Write_all c # is)"
    using less.prems(1) by (metis instr.exhaust list.exhaust list.set_intros(1))
  then show ?case
  proof cases
    case store
    let ?ts = "ts[i := is]"
    have "Ping \<notin> set (?ts ! j)" "calls_by j zs = calls_of (?ts ! j)" if "j < length ?ts" for j
      using less.prems(1,2) [of j] that store by (auto simp: nth_list_update)
    from less.hyps [OF sum_update [OF store(1)] this, of b] store less.prems(3) obtain ys fl' where
      "thread_run (?ts, b) ys (replicate (length ts) [], fl')" "on_wire ys = on_wire zs" by auto
    with thread_step.store_flag [OF store, of fl] show ?thesis
      by (intro exI [of _ "(i, []) # ys"] exI [of _ fl']) (auto simp: on_wire_def intro: run_step)
  next
    case heads
    show ?thesis
    proof (cases zs)
      case Nil
      have "ts ! i = []" if "i < length ts" for i
        using heads [OF that] less.prems(2) [OF that] Nil by (auto simp: calls_by_def)
      then have e: "replicate (length ts) [] = ts" by (intro nth_equalityI) simp_all
      show ?thesis unfolding e Nil using run_done by blast
    next
      case (Cons z zs')
      obtain i c where z: "z = (i, c)" by fastforce
      with Cons less.prems(3) [of z] have i: "i < length ts" by simp
      with heads [OF i] less.prems(2) [OF i] Cons z obtain "is" where "is": "ts ! i = Write_all c # is"
        by (auto simp: calls_by_def)
      let ?ts = "ts[i := is]"
      have "Ping \<notin> set (?ts ! j)" "calls_by j zs' = calls_of (?ts ! j)" if "j < length ?ts" for j
        using less.prems(1,2) [of j] that i "is" Cons z
        by (auto simp: nth_list_update calls_by_def split: if_splits)
      from less.hyps [OF sum_update [OF i] this, of fl] "is" less.prems(3) Cons obtain ys fl' where
        "thread_run (?ts, fl) ys (replicate (length ts) [], fl')" "on_wire ys = on_wire zs'" by auto
      with thread_step.write_all [OF i "is", of fl] Cons z show ?thesis
        by (intro exI [of _ "(i, c) # ys"] exI [of _ fl']) (auto simp: on_wire_def intro: run_step)
    qed
  qed
qed

section \<open>One thread alone\<close>

text \<open>What a thread does when nothing comes in between: the bytes it sends and the flag it leaves.\<close>

primrec code_alone :: "instr list \<Rightarrow> bool \<Rightarrow> bytes \<times> bool" where
  "code_alone [] fl = ([], fl)"
| "code_alone (i # is) fl =
     (case i of
        Write_all c \<Rightarrow> map_prod (\<lambda>bs. c @ bs) id (code_alone is fl)
      | Store_flag b \<Rightarrow> code_alone is b
      | Ping \<Rightarrow> if fl then code_alone is False
          else map_prod (\<lambda>bs. unit_packet PingReq @ bs) id (code_alone is False))"

lemma code_alone_writes:
  "code_alone (map Write_all cs @ is) fl = map_prod (\<lambda>bs. concat cs @ bs) id (code_alone is fl)"
  by (induction cs) (simp_all add: prod.map_comp comp_def map_prod_def split_def)

lemma code_alone_thread: "code_alone (thread_code d xs) fl = op_trace d xs fl"
proof (induction xs arbitrary: fl)
  case (Cons x xs)
  then show ?case
    by (cases x) (simp_all add: thread_code_def code_alone_writes concat_publish_calls concat_subscribe_calls
        concat_unit_calls map_prod_def split_def)
qed (simp add: thread_code_def)

lemma alone_run:
  assumes "thread_run s zs t" "s = ([is], fl)" "t = ([[]], fl')"
  shows "code_alone is fl = (on_wire zs, fl')"
  using assms
proof (induction arbitrary: "is" fl rule: thread_run.induct)
  case (run_step s z s' zs t)
  obtain is' fl1 where s': "s' = ([is'], fl1)" "snd z @ fst (code_alone is' fl1) = fst (code_alone is fl) \<and>
      snd (code_alone is' fl1) = snd (code_alone is fl)"
    using run_step.hyps(1) unfolding run_step.prems(1)
    by (cases rule: thread_step.cases)
      (auto simp: ping_code_def code_alone_writes concat_unit_calls map_prod_def split_def)
  with run_step.IH [OF s'(1) run_step.prems(2)] show ?case
    by (cases "code_alone is fl") (simp add: on_wire_def)
qed (simp add: on_wire_def)

lemma single_steps:
  "thread_step ([Write_all c # is], fl) (0, c) ([is], fl)"
  "thread_step ([Store_flag b # is], fl) (0, []) ([is], b)"
  "thread_step ([Ping # is], True) (0, []) ([is], False)"
  "thread_step ([Ping # is], False) (0, []) ([ping_code @ is], False)"
  using thread_step.write_all [of 0 "[Write_all c # is]" c "is" fl] thread_step.store_flag [of 0 "[Store_flag b # is]" b "is" fl]
    thread_step.already_sent [of 0 "[Ping # is]" "is"] thread_step.send_ping [of 0 "[Ping # is]" "is"]
  by simp_all

lemma writes_run:
  "thread_run ([is], fl) zs t \<Longrightarrow> thread_run ([map Write_all cs @ is], fl) (map (Pair 0) cs @ zs) t"
  by (induction cs) (auto intro: run_step single_steps)

lemma alone_finishes: "\<exists>zs. thread_run ([is], fl) zs ([[]], snd (code_alone is fl))"
proof (induction "is" arbitrary: fl)
  case (Cons i "is")
  show ?case
  proof (cases i)
    case (Write_all c)
    with Cons.IH [of fl] run_step [OF single_steps(1)] show ?thesis by simp blast
  next
    case (Store_flag b)
    with Cons.IH [of b] run_step [OF single_steps(2)] show ?thesis by simp blast
  next
    case Ping
    from Cons.IH [of False] obtain zs where zs: "thread_run ([is], False) zs ([[]], snd (code_alone is False))" by blast
    from writes_run [OF run_step [OF single_steps(2) zs], of "unit_calls PingReq" False]
    have "\<exists>zs. thread_run ([ping_code @ is], False) zs ([[]], snd (code_alone is False))"
      by (auto simp: ping_code_def)
    with zs Ping run_step [OF single_steps(3)] run_step [OF single_steps(4)] show ?thesis
      by (cases fl) (simp, blast)+
  qed
qed (use run_done in auto)

section \<open>Correctness\<close>

lemma runs_sends:
  assumes "runs d tss fl zs fl'" "i < length tss"
  shows "may_send d (tss ! i) (concat (calls_by i zs))"
  using run_sends [OF assms(1) [unfolded runs_def] refl, of fl' i] assms(2) by (simp add: code_sends_thread)

lemma interleaved_runs:
  assumes "Tick \<notin> set (concat tss)" "\<forall>z \<in> set zs. fst z < length tss"
    and "\<forall>i < length tss. calls_by i zs = concat (map (op_calls d) (tss ! i))"
  shows "\<exists>ys fl'. runs d tss fl ys fl' \<and> on_wire ys = on_wire zs"
proof -
  have "Tick \<notin> set (tss ! i)" if "i < length tss" for i using assms(1) that by auto
  with interleaving_runs [of "map (thread_code d) tss" zs fl] assms(2,3) show ?thesis
    by (auto simp: runs_def calls_of_thread Ping_thread)
qed

lemma type_byte_value:
  assumes "flags_ok Publish f"
  shows "unat (encode_type_and_flags Publish f) = 48 + unat f" "unat f < 16"
proof -
  let ?b = "encode_type_and_flags Publish f"
  have "unat ?b div 16 = 3"
    using arg_cong [OF encode_type_and_flags_split(1) [OF assms], of unat]
    by (simp add: drop_bit_eq_div unat_div)
  moreover have "unat ?b mod 16 = unat f"
  proof -
    have "(15 :: u8) = mask 4" by (simp add: mask_eq_exp_minus_1)
    then have "take_bit 4 ?b = f" using encode_type_and_flags_split(2) [OF assms] by (simp add: take_bit_eq_mask)
    then have "unat (take_bit 4 ?b) = unat f" by simp
    then show ?thesis by (simp add: take_bit_eq_mod unat_mod)
  qed
  ultimately show "unat ?b = 48 + unat f" "unat f < 16"
    using div_mult_mod_eq [of "unat ?b" 16] mod_less_divisor [of 16 "unat ?b"] by simp_all
qed

text \<open>The second packet between the first call and the rest of the first packet.\<close>

lemma torn_runs:
  assumes "a \<noteq> Tick" "b \<noteq> Tick"
  shows "\<exists>zs fl'. runs d [[a], [b]] fl zs fl' \<and>
    on_wire zs = hd (op_packet d a) # op_packet d b @ tl (op_packet d a)"
proof -
  obtain x cs where a: "op_calls d a = [x] # cs" using op_calls_first by blast
  let ?zs = "(0, [x]) # map (Pair 1) (op_calls d b) @ map (Pair (0 :: nat)) cs"
  have p: "op_packet d a = x # concat cs" using concat_op_calls [OF assms(1), of d] a by simp
  have w: "on_wire ?zs = x # op_packet d b @ concat cs"
    using concat_op_calls [OF assms(2), of d] by (simp add: on_wire_def comp_def)
  have one: "calls_by i (map (Pair j) xs) = (if i = j then xs else [])" for i j and xs :: "bytes list"
    by (simp add: calls_by_def filter_map comp_def)
  have app: "calls_by i (xs @ ys) = calls_by i xs @ calls_by i ys" "calls_by i ((j, c) # ys) =
      (if i = j then [c] else []) @ calls_by i ys" for i j c xs ys by (simp_all add: calls_by_def)
  have "\<exists>ys fl'. runs d [[a], [b]] fl ys fl' \<and> on_wire ys = on_wire ?zs"
    using assms a by (intro interleaved_runs) (auto simp: app one less_Suc_eq)
  with p w show ?thesis by simp
qed

lemma torn_frame:
  assumes "publish_sendable b"
  shows "FixedHeader_next_frame d (x # publish_packet d b @ rest) = Ok (Some (50 + unat (pb_flags b)))"
proof -
  obtain bs where b: "publish_packet d b = encode_type_and_flags Publish (pb_flags b) # bs"
    by (simp add: publish_packet_def frame_header_def)
  note tb = type_byte_value [OF publish_sendableD(1) [OF assms]]
  then have "rl_wf [encode_type_and_flags Publish (pb_flags b)]"
    by (simp add: rl_wf_def has_continue_flag_iff)
  from FixedHeader_next_frame_wf [OF this, of d x "bs @ rest"] tb show ?thesis by (simp add: b)
qed

text \<open>C23: Any number of threads that send through one connection, with the ticks of the timer in
  between. Each operation makes the calls of its packet in order. Whatever the schedule, the bytes
  of one thread are its packets in the order of its operations, with a ping or nothing at
  each tick; without ticks every interleaving of the calls happens. A thread that is alone sends
  exactly what the sequential model says and finishes. But a packet is not sent in one piece: a
  PUBLISH of another thread can end up behind the first byte of a packet, and then the
  server takes its type byte for the length.\<close>

theorem concurrent_send:
  assumes "crates_ok d" "list_all (list_all (op_ok d)) tss"
  shows "(\<forall>x \<in> set (concat tss). performs (op_write d x) (length (concat (op_calls d x))) (op_calls d x)) \<and>
    (runs d tss fl zs fl' \<longrightarrow> (\<forall>i < length tss. may_send d (tss ! i) (concat (calls_by i zs)))) \<and>
    (Tick \<notin> set (concat tss) \<and> (\<forall>z \<in> set zs. fst z < length tss) \<and>
       (\<forall>i < length tss. calls_by i zs = concat (map (op_calls d) (tss ! i))) \<longrightarrow>
      (\<exists>ys fl'. runs d tss fl ys fl' \<and> on_wire ys = on_wire zs)) \<and>
    (tss = [xs] \<longrightarrow> (\<exists>ys fl'. runs d tss fl ys fl') \<and>
      (runs d tss fl zs fl' \<longrightarrow> (on_wire zs, fl') = op_trace d xs fl)) \<and>
    (tss = [[a], [Op_Publish b]] \<and> a \<noteq> Tick \<longrightarrow>
      (\<exists>ys fl'. runs d tss fl ys fl' \<and>
        on_wire ys = hd (op_packet d a) # publish_packet d b @ tl (op_packet d a) \<and>
        FixedHeader_next_frame d (on_wire ys) = Ok (Some (50 + unat (pb_flags b)))))"
proof (intro conjI impI; (elim conjE)?)
  show "\<forall>x \<in> set (concat tss). performs (op_write d x) (length (concat (op_calls d x))) (op_calls d x)"
    using assms by (auto simp: list_all_iff intro: op_write_calls)
  show "\<forall>i < length tss. may_send d (tss ! i) (concat (calls_by i zs))" if "runs d tss fl zs fl'"
    using runs_sends [OF that] by blast
  show "\<exists>ys fl'. runs d tss fl ys fl' \<and> on_wire ys = on_wire zs"
    if "Tick \<notin> set (concat tss)" "\<forall>z \<in> set zs. fst z < length tss"
      "\<forall>i < length tss. calls_by i zs = concat (map (op_calls d) (tss ! i))"
    by (rule interleaved_runs [OF that])
  show "\<exists>ys fl'. runs d tss fl ys fl'" if "tss = [xs]"
    using alone_finishes [of "thread_code d xs" fl] that by (simp add: runs_def) blast
  show "(on_wire zs, fl') = op_trace d xs fl" if "tss = [xs]" "runs d tss fl zs fl'"
    using alone_run [of _ zs _ "thread_code d xs" fl fl'] that by (simp add: runs_def code_alone_thread)
  show "\<exists>ys fl'. runs d tss fl ys fl' \<and>
        on_wire ys = hd (op_packet d a) # publish_packet d b @ tl (op_packet d a) \<and>
        FixedHeader_next_frame d (on_wire ys) = Ok (Some (50 + unat (pb_flags b)))"
    if "tss = [[a], [Op_Publish b]]" "a \<noteq> Tick"
    using torn_runs [OF that(2), of "Op_Publish b" d fl] torn_frame assms(2) by (fastforce simp: that(1))
qed

theorem concurrent_send_witness:
  "\<exists>zs fl'. runs (std_crates True) [[Op_Disconnect], [Op_Publish sample_publish]] True zs fl' \<and>
    FixedHeader_next_frame (std_crates True) (on_wire zs) = Ok (Some 60)"
  using concurrent_send [OF std_crates_ok, of True "[[Op_Disconnect], [Op_Publish sample_publish]]" True
      "[]" True "[]" Op_Disconnect sample_publish] sample_publish_ok(1)
  by (auto simp: sample_publish_def)

end
