(* ===== verification/Spec2Isabelle.thy ===== *)
theory Spec2Isabelle
  imports Slab Unit_Tests Programs Sync_Runs Sync_Concurrent
begin

text \<open>
  \<^bold>\<open>A verification development for mcutt, a synchronous MQTT 3.1.1 client in Rust.\<close>

  \<^bold>\<open>The program.\<close> \<open>src/bytes.rs\<close> defines the errors and the traits that every part of a packet
  implements: \<open>validate_value\<close> and \<open>write_sync\<close> on the sending side, \<open>validate\<close> and \<open>parse\<close> on the
  receiving side, and \<open>consume\<close>, which parses a whole buffer. \<open>src/v3/packets\<close> implements them for
  the parts shared by all packets (fixed header, remaining length, strings, binary data, packet
  identifiers, topic filters) and for each control packet. \<open>src/sync.rs\<close> is the client: a buffered
  reader that cuts the byte stream of a socket into frames, an event loop over the socket and a
  keep-alive timer, a writer half that sends packets and remembers whether it did, and the
  connection that opens the socket and performs the handshake. \<open>src/slab.rs\<close> stores packets
  under small numbers; the client does not use it yet.

  \<^bold>\<open>The theories\<close>, in the order of the code:

  \<^item> \<open>Rust_Prelude\<close>: results with a third outcome for a panic, checked, wrapping and
    overflow-checked arithmetic at the width of the type, slices. An expression that panics in a debug
    build and wraps in a release build takes the build as an argument.
  \<^item> \<open>Bytes\<close> (\<open>src/bytes.rs\<close>): errors, \<open>consume\<close>, and the locales \<open>decoder\<close> and \<open>codec\<close>, the contract
    of \<open>Decode\<close> and \<open>Encode\<close>. Each packet and each part interprets one of them; what follows from
    the contract (parsing makes progress, encodings are prefix-free, optional fields, a buffer with
    bytes left over is refused) is proved once there.
  \<^item> \<open>Crates\<close>: the third-party crates zerocopy, bitflags and memchr as a record of functions \<open>d\<close>, and
    what they document as \<open>crates_ok d\<close>. \<open>std_crates\<close> is an instance that satisfies it.
  \<^item> \<open>Std_Io\<close>: writers that fail after any number of bytes; \<open>emits m n bs\<close> says that \<open>m\<close> puts \<open>bs\<close>
    on the wire and returns \<open>n\<close>, or fails with an error of the socket after a prefix of \<open>bs\<close>.
  \<^item> \<open>Remaining_Length\<close>, \<open>Fixed_Header\<close>, \<open>Message\<close>, \<open>Packet_Id\<close>, \<open>Mqtt_String\<close>, \<open>Topic\<close>
    (\<open>src/v3/packets/common\<close>): the shared parts, each with its round trip and an exact
    description of what its parser accepts.
  \<^item> \<open>Ping\<close>, \<open>Publish_Acks\<close>, \<open>Publish_Packet\<close>, \<open>Subscribe_Packet\<close>, \<open>Unsubscribe_Packet\<close>, \<open>Sub_Ack\<close>,
    \<open>Conn_Ack\<close>, \<open>Connect_Packet\<close>: the packets with their builders. \<open>Cursor\<close> and \<open>Filter_List\<close> hold
    what SUBSCRIBE and UNSUBSCRIBE share: the iterator over the filters of a packet and the
    locale \<open>filter_codec\<close> for a packet whose body is a list of encoded filters.
  \<^item> \<open>Packets\<close> (\<open>packet.rs\<close>): the dispatch on the packet type.
  \<^item> \<open>Display\<close>: the texts of errors, parts and packets, which \<open>recv\<close> logs; they tell received packets
    apart and printing what was parsed does not panic. \<open>Debug\<close>: the \<open>Debug\<close> text of a CONNECT, which
    hides its password.
  \<^item> \<open>Slab\<close> (\<open>src/slab.rs\<close>): refinement of a specification with numbered slots, the locale
    \<open>slot_map\<close> for its clients, and the states its operations can reach.
  \<^item> \<open>Sync_Reader\<close>, \<open>Sync_Writer\<close>, \<open>Sync_Loop\<close>, \<open>Sync\<close> (\<open>src/sync.rs\<close>): the buffered reader, the
    writer half with the keep-alive flag, the event loop with \<open>recv\<close>, and the connection.
    \<open>Sync_Stream\<close>: receiving from a non-blocking socket that would-blocks where no byte is lost, with
    timer events in between. \<open>Sender\<close>: the trait as a contract, the locale \<open>sender\<close>, that both the writer half and the
    connection satisfy. \<open>Sync_Calls\<close>: the single writes each packet of the client consists of. \<open>Sync_Concurrent\<close>: what
    reaches the wire when any number of threads send through one connection while the timer ticks,
    a step relation whose steps are those writes and the accesses to the flag. \<open>Sync_Runs\<close>:
    sessions, a step relation with one rule per operation of a connection, and what all of them keep.
  \<^item> \<open>Programs\<close> (\<open>examples\<close>, \<open>benches\<close>): the sender, the receiver and the benchmark, and what the
    first two do together.
  \<^item> \<open>Unit_Tests\<close>: the unit tests of the repository and their recorded outputs, translated; they all
    hold of the model.

  \<^bold>\<open>Correspondence.\<close> A definition has the name of the Rust item it translates, with the type in
  front (\<open>Publish_parse\<close> is \<open>Publish::parse\<close>). A \<open>Result\<close> is \<open>Ok\<close> or \<open>Err\<close>, a panic is \<open>Panic\<close>; \<open>?\<close> is
  \<open>and_then\<close> (\<open>w_then\<close> for code that writes, \<open>st_then\<close> for code with a state). A borrowed slice is a
  list of bytes, a \<open>&str\<close> the list of its UTF-8 bytes, \<open>u8\<close>, \<open>u16\<close> and \<open>u32\<close> are words, \<open>usize\<close> is a
  natural number whose arithmetic is checked against \<open>usize_max\<close>. A \<open>NonZero<u16>\<close> is a word, and
  theorems about it assume that it is not 0.

  \<^bold>\<open>Loops and termination.\<close> Loops over slices are structural recursion. Two loops may in principle
  not end, and are partial functions whose value \<open>None\<close> is not returning: the fold over the
  filters of a packet (\<open>cursor_try_fold\<close>) and the search of the reader for a header
  (\<open>Reader_next_frame_loop\<close>); both are proved to return, for every buffer and every socket. The
  event loop runs over the script of what polling reports and returns \<open>None\<close> when the script ends,
  since the code then polls for ever. No fuel is used.

  \<^bold>\<open>Nondeterminism.\<close> Sockets, writers, polling and the calls that open a connection are scripts of
  what the operating system answers. The theorems hold for every script, or for the class of
  scripts they name: \<open>steady\<close> for a socket that has data and neither fails nor would-blocks, \<open>calm\<close> for
  one that would-blocks at given places only. The allocator of the slab is a function of which only the
  documented lower bound is assumed.

  \<^bold>\<open>What the theorems show.\<close> Every packet that is sent is put on the wire byte for byte and read back
  by the peer's parser; every parser accepts only encodings of what it returns, never panics and
  ends; the builders set the flags their calls ask for; the keep-alive timer pings exactly in the
  intervals without a packet, also while \<open>recv\<close> waits; a frame that is read is cut correctly out of
  the stream, and packets of at least five bytes all arrive as long as the socket would-blocks only
  between packets, inside a header or right after one; receiving panics in no session, except in a
  debug build after a malformed header; under every schedule of several threads the bytes of each thread
  are its packets in order; the seconds the sender reports are returned to the receiver in order, though
  its log does not show them. Some theorems state what the code does where that is not what it means to
  do: the character check that is too strict and misses some control characters, a DISCONNECT that is
  not the last packet, an UNSUBSCRIBE without filters, DUP that a later call does not clear, the client
  identifier accepted on one side only, CONNACK without a header, QoS 0 after a higher QoS, the slots of the slab that are never
  reused, bytes lost when the socket would block in the middle of a frame, short packets lost when the
  next one arrives with them, \<open>recv\<close> that waits for an event although a packet is in the buffer,
  packets of two threads that end up one inside the other, an UNSUBACK that is logged as a SUBACK, and
  the first packet of any type that is taken for the CONNACK.

  \<^bold>\<open>Not modelled.\<close> The tracing calls, except the line \<open>recv\<close> logs for a packet, and the derived \<open>Debug\<close>
  instances that no modelled text uses: they only produce text for a person to read. Name resolution,
  sockets, the timer descriptor and \<open>mio\<close> are the operating system and enter as scripts. When several
  threads send at once the socket does not fail; everywhere else an operation runs to its end.
\<close>

section \<open>A session\<close>

text \<open>C1: A whole session. The client opens a connection, sends a CONNECT and waits for the CONNACK;
  then it sends any sequence of permitted packets, with timer ticks in between, while the server's
  packets arrive one per read. The handshake returns the server's CONNACK, every packet of the server
  is delivered in order, and the server finds on its side the CONNECT followed by exactly the
  client's packets and pings.\<close>

theorem mqtt_session:
  assumes "crates_ok d" "Connection_create os timeout = Ok c" "faults (w_inner (cn_writer c)) = []"
    and "built d b" "connect_sendable d b" "client_id_ok (cb_client_id b)"
    and "list_all (op_ok d) xs" "list_all packet_ok ps"
    and "list_all (\<lambda>p. length (packet_bytes d p) \<le> 8192) ps"
    and "rd_inner (cn_reader c) = Data (connack_packet d a) # map (\<lambda>p. Data (packet_bytes d p)) ps @ cs"
    and "os_polls os = replicate (Suc (length ps)) (Poll_Events [readable]) @ polls"
  shows "\<exists>c1 c2 c3 k out. Connection_connect d b c = Some (Ok a, c1) \<and>
    on_writer (WriterHalf_run d xs) c1 = (Ok (), c2) \<and>
    recv_all d (length ps) c2 = Some (map packet_view ps, None, c3) \<and>
    sent (w_inner (cn_writer c3)) = sent (w_inner (cn_writer c)) @ out \<and>
    Connect_parse d out = Ok (k, fst (op_trace d xs True)) \<and>
    MqttStr_as_str (connect_client_id k) = cb_client_id b"
proof -
  let ?polls = "replicate (length ps) (Poll_Events [readable]) @ polls"
  let ?in = "map (\<lambda>p. Data (packet_bytes d p)) ps @ cs"
  let ?tr = "fst (op_trace d xs True)"
  let ?w1 = "\<lparr>sent_flag = True,
    w_inner = (w_inner (cn_writer c))\<lparr>sent := sent (w_inner (cn_writer c)) @ connect_packet d b\<rparr>\<rparr>"
  let ?w2 = "\<lparr>sent_flag = snd (op_trace d xs True), w_inner = (w_inner ?w1)\<lparr>sent := sent (w_inner ?w1) @ ?tr\<rparr>\<rparr>"
  from connect_handshake_run [OF assms(1-3,5,10), of ?polls] assms(11) obtain r where
    r: "Connection_connect d b c = Some (Ok a, c\<lparr>cn_reader := r, cn_polls := ?polls, cn_writer := ?w1\<rparr>)"
      "drained r" "rd_inner r = ?in" "length (rd_buf r) = 8192" by auto
  have ops: "WriterHalf_run d xs ?w1 = (Ok (), ?w2)"
    using WriterHalf_run_trace [OF assms(1,7), of ?w1] assms(3) by simp
  let ?c2 = "c\<lparr>cn_reader := r, cn_polls := ?polls, cn_writer := ?w2\<rparr>"
  from recv_all_chunks [OF assms(1,8), of ?c2 cs polls] r assms(9) obtain r3 where
    r3: "recv_all d (length ps) ?c2 = Some (map packet_view ps, None, ?c2\<lparr>cn_reader := r3, cn_polls := polls\<rparr>)"
    by auto
  from built_inv [OF assms(4,1)] have "connect_flags_ok b" by (simp add: connect_builder_inv_def)
  from Connect_parse_packet [OF assms(1,5) this assms(6), of ?tr]
  have parse: "Connect_parse d (connect_packet d b @ ?tr) = Ok (connect_of d b, ?tr)" .
  have "on_writer (WriterHalf_run d xs) (c\<lparr>cn_reader := r, cn_polls := ?polls, cn_writer := ?w1\<rparr>) = (Ok (), ?c2)"
    using ops by (simp add: on_writer_def)
  moreover have "MqttStr_as_str (connect_client_id (connect_of d b)) = cb_client_id b"
    by (simp add: connect_of_def)
  moreover have "sent (w_inner (cn_writer (?c2\<lparr>cn_reader := r3, cn_polls := polls\<rparr>))) =
      sent (w_inner (cn_writer c)) @ connect_packet d b @ ?tr" by simp
  ultimately show ?thesis using r(1) r3 parse by blast
qed

theorem mqtt_session_witness:
  "\<exists>c c1 c2 c3 k out. Connection_create (sample_os [Data [0x20, 2, 0, 0], Data [0xD0, 0]]
        [Poll_Events [readable], Poll_Events [readable]]) 10000000000 = Ok c \<and>
    Connection_connect (std_crates True) (sample_connect (std_crates True)) c =
      Some (Ok (ConnAck_new 0 Accepted), c1) \<and>
    on_writer (WriterHalf_run (std_crates True) [Tick, Tick]) c1 = (Ok (), c2) \<and>
    recv_all (std_crates True) (length [Send_PingResp]) c2 = Some (map packet_view [Send_PingResp], None, c3) \<and>
    Connect_parse (std_crates True) out = Ok (k, unit_packet PingReq) \<and>
    MqttStr_as_str (connect_client_id k) = [0x61, 0x31]"
proof -
  let ?os = "sample_os [Data [0x20, 2, 0, 0], Data [0xD0, 0]] [Poll_Events [readable], Poll_Events [readable]]"
  obtain c where c: "Connection_create ?os 10000000000 = Ok c" "w_inner (cn_writer c) = vec_writer"
    "rd_inner (cn_reader c) = [Data [0x20, 2, 0, 0], Data [0xD0, 0]]" using sample_os_create by blast
  have bytes: "connack_packet (std_crates True) (ConnAck_new 0 Accepted) = [0x20, 2, 0, 0]"
    "packet_bytes (std_crates True) Send_PingResp = [0xD0, 0]" by code_simp+
  have "\<exists>c1 c2 c3 k out. Connection_connect (std_crates True) (sample_connect (std_crates True)) c =
      Some (Ok (ConnAck_new 0 Accepted), c1) \<and>
    on_writer (WriterHalf_run (std_crates True) [Tick, Tick]) c1 = (Ok (), c2) \<and>
    recv_all (std_crates True) (length [Send_PingResp]) c2 = Some (map packet_view [Send_PingResp], None, c3) \<and>
    sent (w_inner (cn_writer c3)) = sent (w_inner (cn_writer c)) @ out \<and>
    Connect_parse (std_crates True) out = Ok (k, fst (op_trace (std_crates True) [Tick, Tick] True)) \<and>
    MqttStr_as_str (connect_client_id k) = cb_client_id (sample_connect (std_crates True))"
    by (rule mqtt_session [OF std_crates_ok c(1) _ sample_connect_built sample_connect_sendable [OF std_crates_ok],
          where cs = "[]" and polls = "[]"])
      (use c(2,3) bytes in \<open>simp_all add: vec_writer_def sample_os_def\<close>)
  with c(1) show ?thesis by (simp add: sample_connect_fields) blast
qed

end
